(* ===== verification/Prelude.thy ===== *)
theory Prelude
  imports Main "HOL-Library.Monad_Syntax"
begin

text \<open>
  Shared ground of the development: the collections of automation, and the lists that C code
  threads through a pointer field. A pointer is an \<open>option\<close>: \<open>None\<close> is NULL, \<open>Some a\<close> is the
  address (or array index) \<open>a\<close>. A call of type \<open>'a option\<close> that yields \<open>None\<close> does not return:
  it runs for ever or it dereferences NULL. Where a property says that a program runs for ever, it says
  so by \<open>runs_forever\<close>, on the single steps.
\<close>

named_theorems chain_simps \<open>rewriting of linked lists under updates of the pointer field\<close>
named_theorems prio_simps \<open>facts on insertion by priority\<close>

subsection \<open>Lists threaded through a pointer field\<close>

primrec chain :: "('a \<Rightarrow> 'a option) \<Rightarrow> 'a option \<Rightarrow> 'a list \<Rightarrow> bool" where
  "chain f p [] \<longleftrightarrow> p = None"
| "chain f p (x # xs) \<longleftrightarrow> p = Some x \<and> chain f (f x) xs"

lemma chain_NULL [simp]: "chain f None xs \<longleftrightarrow> xs = []"
  by (cases xs) auto

lemma chain_Some: "chain f (Some x) xs \<longleftrightarrow> (\<exists>ys. xs = x # ys \<and> chain f (f x) ys)"
  by (cases xs) auto

lemma chain_cong: "(\<And>x. x \<in> set xs \<Longrightarrow> f x = g x) \<Longrightarrow> chain f p xs = chain g p xs"
  by (induction xs arbitrary: p) auto

lemmas upd_simps = fun_upd_same fun_upd_other

lemma chain_upd [chain_simps]: "a \<notin> set xs \<Longrightarrow> chain (f(a := q)) p xs = chain f p xs"
  by (rule chain_cong) auto

lemma chain_det: "chain f p xs \<Longrightarrow> chain f p ys \<Longrightarrow> xs = ys"
proof (induction xs arbitrary: p ys)
  case Nil
  then show ?case by simp
next
  case (Cons x xs)
  then obtain ys' where "ys = x # ys'" and "chain f (f x) ys'" by (auto simp: chain_Some)
  with Cons show ?case by auto
qed

lemma chain_suffix: "chain f p (ys @ x # zs) \<Longrightarrow> chain f (f x) zs"
  by (induction ys arbitrary: p) auto

lemma chain_distinct: "chain f p xs \<Longrightarrow> distinct xs"
proof (induction xs arbitrary: p)
  case Nil
  then show ?case by simp
next
  case (Cons x xs)
  have "x \<notin> set xs"
  proof
    assume "x \<in> set xs"
    then obtain ys zs where xs: "xs = ys @ x # zs" by (auto simp: in_set_conv_decomp)
    with Cons.prems have "chain f (f x) zs" and "chain f (f x) (ys @ x # zs)"
      by (auto dest: chain_suffix)
    then have "zs = ys @ x # zs" by (rule chain_det)
    then have "length zs = length (ys @ x # zs)" by (rule arg_cong)
    then show False by simp
  qed
  with Cons show ?case by auto
qed

text \<open>Splicing a cell behind another one, and unlinking a cell.\<close>

lemma chain_splice:
  assumes "chain f p (ys @ w # zs)" and "a \<notin> set (ys @ w # zs)"
  shows "chain (f(a := f w, w := Some a)) p (ys @ w # a # zs)"
  using assms
proof (induction ys arbitrary: p)
  case Nil
  then have "w \<notin> set zs" using chain_distinct [of f p "w # zs"] by simp
  with Nil show ?case by (auto simp: chain_simps upd_simps simp del: fun_upd_apply)
next
  case (Cons y ys)
  then have "y \<noteq> w" using chain_distinct [of f p "(y # ys) @ w # zs"] by auto
  with Cons show ?case by auto
qed

lemma chain_unlink:
  assumes "chain f p (ys @ w # x # zs)"
  shows "chain (f(w := f x)) p (ys @ w # zs)"
  using assms
proof (induction ys arbitrary: p)
  case Nil
  then have "w \<notin> set zs" using chain_distinct [of f p "w # x # zs"] by simp
  with Nil show ?case by (auto simp: chain_simps upd_simps simp del: fun_upd_apply)
next
  case (Cons y ys)
  then have "y \<noteq> w" using chain_distinct [of f p "(y # ys) @ w # x # zs"] by auto
  with Cons show ?case by auto
qed

lemma chain_snoc:
  assumes "chain f p (ys @ [w])" and "a \<notin> set (ys @ [w])" and "f a = None"
  shows "chain (f(w := Some a)) p (ys @ [w, a])"
  using assms
proof (induction ys arbitrary: p)
  case Nil
  then show ?case by auto
next
  case (Cons y ys)
  then have "y \<noteq> w" using chain_distinct [of f p "(y # ys) @ [w]"] by auto
  with Cons show ?case by auto
qed

lemma chain_append_chain:
  assumes "chain f p (ys @ [w])" and "chain f q zs" and "set (ys @ [w]) \<inter> set zs = {}"
  shows "chain (f(w := q)) p (ys @ w # zs)"
  using assms
proof (induction ys arbitrary: p)
  case Nil
  then show ?case by (auto simp: chain_simps upd_simps simp del: fun_upd_apply)
next
  case (Cons y ys)
  then have "y \<noteq> w" using chain_distinct [of f p "(y # ys) @ [w]"] by auto
  with Cons show ?case by auto
qed

subsection \<open>Insertion by priority\<close>

text \<open>
  The order every queue of the kernel promises: a new entry goes behind all entries of the same
  or a higher priority.
\<close>

fun pins :: "('a \<Rightarrow> int) \<Rightarrow> 'a \<Rightarrow> 'a list \<Rightarrow> 'a list" where
  "pins pr p [] = [p]"
| "pins pr p (x # xs) = (if pr x < pr p then p # x # xs else x # pins pr p xs)"

definition descending :: "('a \<Rightarrow> int) \<Rightarrow> 'a list \<Rightarrow> bool" where
  "descending pr xs \<longleftrightarrow> sorted_wrt (\<lambda>x y. pr y \<le> pr x) xs"

lemma descending_simps [simp]:
  "descending pr []"
  "descending pr (x # xs) \<longleftrightarrow> (\<forall>y \<in> set xs. pr y \<le> pr x) \<and> descending pr xs"
  by (simp_all add: descending_def)

lemma pins_not_Nil [simp]: "pins pr p xs \<noteq> []"
  by (cases xs) auto

lemma set_pins [prio_simps]: "set (pins pr p xs) = insert p (set xs)"
  by (induction xs) auto

lemma distinct_pins [prio_simps]: "distinct (pins pr p xs) \<longleftrightarrow> p \<notin> set xs \<and> distinct xs"
  by (induction xs) (auto simp: set_pins)

lemma length_pins [prio_simps]: "length (pins pr p xs) = Suc (length xs)"
  by (induction xs) auto

lemma descending_pins [prio_simps]: "descending pr xs \<Longrightarrow> descending pr (pins pr p xs)"
  by (induction xs) (auto simp: set_pins)

lemma pins_cong: "(\<And>x. x \<in> insert p (set xs) \<Longrightarrow> pr x = pr' x) \<Longrightarrow> pins pr p xs = pins pr' p xs"
  by (induction xs) auto

lemma pins_last [prio_simps]: "(\<And>x. x \<in> set xs \<Longrightarrow> pr p \<le> pr x) \<Longrightarrow> pins pr p xs = xs @ [p]"
proof (induction xs)
  case (Cons x xs)
  have "\<not> pr x < pr p" using Cons.prems [of x] by simp
  with Cons show ?case by simp
qed simp

lemma pins_append_low:
  "(\<And>x. x \<in> set xs \<Longrightarrow> pr p \<le> pr x) \<Longrightarrow> pins pr p (xs @ ys) = xs @ pins pr p ys"
proof (induction xs)
  case (Cons x xs)
  have "\<not> pr x < pr p" using Cons.prems [of x] by simp
  with Cons show ?case by simp
qed simp

text \<open>Entries of the same priority keep their order of arrival.\<close>

lemma filter_pins [prio_simps]:
  "descending pr xs \<Longrightarrow> filter (\<lambda>x. pr x = k) (pins pr p xs) =
     filter (\<lambda>x. pr x = k) xs @ (if pr p = k then [p] else [])"
proof (induction xs)
  case (Cons x xs)
  have "filter (\<lambda>x. pr x = k) xs = []" if "pr x < pr p" and "pr p = k"
    using Cons.prems that by (auto simp: filter_empty_conv)
  with Cons show ?case by auto
qed simp

text \<open>Insertion into an ordered list, in closed form.\<close>

lemma pins_filter:
  "descending pr xs \<Longrightarrow>
   pins pr p xs = filter (\<lambda>x. pr p \<le> pr x) xs @ p # filter (\<lambda>x. pr x < pr p) xs"
proof (induction xs)
  case (Cons x xs)
  show ?case
  proof (cases "pr x < pr p")
    case True
    with Cons.prems have "filter (\<lambda>x. pr p \<le> pr x) xs = []" "filter (\<lambda>x. pr x < pr p) xs = xs"
      by (auto simp: filter_empty_conv intro!: filter_True)
    with True show ?thesis by simp
  next
    case False
    with Cons show ?thesis by simp
  qed
qed simp

lemma set_fold_pins [prio_simps]: "set (fold (pins pr) ws xs) = set ws \<union> set xs"
  by (induction ws arbitrary: xs) (auto simp: set_pins)

lemma descending_fold_pins [prio_simps]: "descending pr xs \<Longrightarrow> descending pr (fold (pins pr) ws xs)"
  by (induction ws arbitrary: xs) (auto simp: descending_pins)

lemma distinct_fold_pins [prio_simps]:
  "distinct (fold (pins pr) ws xs) \<longleftrightarrow> distinct ws \<and> distinct xs \<and> set ws \<inter> set xs = {}"
  by (induction ws arbitrary: xs) (auto simp: set_pins distinct_pins)

lemma descending_append:
  "descending pr (xs @ ys) \<longleftrightarrow>
     descending pr xs \<and> descending pr ys \<and> (\<forall>x \<in> set xs. \<forall>y \<in> set ys. pr y \<le> pr x)"
  by (simp add: descending_def sorted_wrt_append)

lemma descending_filter: "descending pr xs \<Longrightarrow> descending pr (filter P xs)"
  by (simp add: descending_def sorted_wrt_filter)

lemma fold_pins_append: "descending pr (xs @ ws) \<Longrightarrow> fold (pins pr) ws xs = xs @ ws"
proof (induction ws arbitrary: xs)
  case (Cons w ws)
  then have "pins pr w xs = xs @ [w]" by (intro pins_last) (simp add: descending_append)
  with Cons show ?case by simp
qed simp

lemma fold_pins_same:
  assumes "descending pr xs" and "\<And>w. w \<in> set ws \<Longrightarrow> pr w = k"
  shows "fold (pins pr) ws xs = filter (\<lambda>x. k \<le> pr x) xs @ ws @ filter (\<lambda>x. pr x < k) xs"
  using assms
proof (induction ws arbitrary: xs)
  case Nil
  then show ?case
  proof (induction xs)
    case (Cons x xs)
    show ?case
    proof (cases "k \<le> pr x")
      case False
      with Cons.prems have "filter (\<lambda>x. k \<le> pr x) xs = []" "filter (\<lambda>x. pr x < k) xs = xs"
        by (auto simp: filter_empty_conv intro!: filter_True)
      with False show ?thesis by simp
    qed (use Cons in simp)
  qed simp
next
  case (Cons w ws)
  from Cons.prems have k: "pr w = k" by simp
  have "descending pr (pins pr w xs)" using Cons.prems by (intro descending_pins) simp
  from Cons.IH [OF this] Cons.prems k show ?case
    by (simp add: pins_filter [OF Cons.prems(1)])
qed

subsection \<open>Runs that never end\<close>

text \<open>
  An infinite sequence of steps. Unlike a partial function that is \<open>None\<close>, it cannot be a run that stops
  at a read outside of an array.
\<close>

definition runs_forever :: "('a \<Rightarrow> 'a \<Rightarrow> bool) \<Rightarrow> 'a \<Rightarrow> bool" where
  "runs_forever r x \<longleftrightarrow> (\<exists>run. run 0 = x \<and> (\<forall>n. r (run n) (run (Suc n))))"

lemma runs_forever_invariant:
  assumes "P x" and "\<And>x. P x \<Longrightarrow> \<exists>y. r x y \<and> P y"
  shows "runs_forever r x"
proof -
  have "\<exists>run. run 0 = x \<and> (\<forall>n. P (run n) \<and> r (run n) (run (Suc n)))"
    using assms dependent_nat_choice [where P = "\<lambda>n y. P y \<and> (n = 0 \<longrightarrow> y = x)" and Q = "\<lambda>_. r"] by blast
  then show ?thesis by (auto simp: runs_forever_def)
qed

lemma runs_forever_rounds:
  assumes "r\<^sup>*\<^sup>* x y" and "P y" and "\<And>x. P x \<Longrightarrow> \<exists>y. r\<^sup>+\<^sup>+ x y \<and> P y"
  shows "runs_forever r x"
proof (rule runs_forever_invariant [where P = "\<lambda>x. \<exists>y. r\<^sup>*\<^sup>* x y \<and> P y"])
  show "\<exists>y. r\<^sup>*\<^sup>* x y \<and> P y" using assms(1,2) by blast
next
  fix x
  assume "\<exists>y. r\<^sup>*\<^sup>* x y \<and> P y"
  then obtain y where "r\<^sup>*\<^sup>* x y" "P y" by blast
  moreover from assms(3) [OF \<open>P y\<close>] obtain z where "r\<^sup>+\<^sup>+ y z" "P z" by blast
  ultimately have "r\<^sup>+\<^sup>+ x z" by (rule_tac rtranclp_tranclp_tranclp)
  then obtain w where "r x w" "r\<^sup>*\<^sup>* w z" by (auto dest: tranclpD)
  with \<open>P z\<close> show "\<exists>y. r x y \<and> (\<exists>z. r\<^sup>*\<^sup>* y z \<and> P z)" by blast
qed

text \<open>Steps that are a function either end or run for ever.\<close>

lemma runs_forever_unending:
  assumes "runs_forever (\<lambda>x y. f x = Some y) x" and "(\<lambda>x y. f x = Some y)\<^sup>*\<^sup>* x z"
  shows "f z \<noteq> None"
proof -
  from assms(1) obtain run where r: "run 0 = x" "\<forall>n. f (run n) = Some (run (Suc n))" by (auto simp: runs_forever_def)
  from assms(2) have "\<exists>n. z = run n"
  proof (induction rule: rtranclp_induct)
    case base
    from r(1) show ?case by blast
  next
    case (step y z)
    then show ?case using r(2) by (metis option.inject)
  qed
  with r(2) show ?thesis by auto
qed

text \<open>Index 0 is special in several components.\<close>

lemma filter_zero_free:
  fixes xs :: "nat list"
  assumes "0 \<notin> set xs"
  shows "filter (\<lambda>i. i \<noteq> 0) xs = xs" and "filter ((<) 0) xs = xs" and "filter (\<lambda>i. i = 0) xs = []"
  using assms by (induction xs) auto

end
