(* ===== verification/PrioQueue.thy ===== *)
theory PrioQueue
  imports Prelude
begin

text \<open>
  The interface between the queues and the kernel: what \<^verbatim>\<open>enqueue\<close> and \<^verbatim>\<open>dequeue\<close> promise to
  their callers, independent of how the queue is stored. A heap \<open>'h\<close> holds several queues at
  once; an operation on one of them leaves the others alone, which \<open>frame\<close> expresses.
\<close>

locale prio_queue =
  fixes enq :: "'h \<Rightarrow> 'q \<Rightarrow> 'p \<Rightarrow> ('h \<times> 'q) option"
    and deq :: "'h \<Rightarrow> 'q \<Rightarrow> 'p option \<times> 'q"
    and repr :: "'h \<Rightarrow> 'q \<Rightarrow> 'p list \<Rightarrow> bool"
    and prio :: "'h \<Rightarrow> 'p \<Rightarrow> int"
    and frame :: "'p set \<Rightarrow> 'h \<Rightarrow> 'h \<Rightarrow> bool"
  assumes enq_law: "repr h q xs \<Longrightarrow> p \<notin> set xs \<Longrightarrow>
      \<exists>h' q'. enq h q p = Some (h', q') \<and> repr h' q' (pins (prio h) p xs) \<and>
        frame (insert p (set xs)) h h'"
    and deq_law: "repr h q (x # xs) \<Longrightarrow> \<exists>q'. deq h q = (Some x, q') \<and> repr h q' xs"
    and deq_empty: "repr h q [] \<Longrightarrow> deq h q = (None, q)"
    and repr_distinct: "repr h q xs \<Longrightarrow> distinct xs"
    and frame_repr: "frame A h h' \<Longrightarrow> A \<inter> set ys = {} \<Longrightarrow> repr h q ys \<Longrightarrow> repr h' q ys"
    and frame_prio: "frame A h h' \<Longrightarrow> prio h' = prio h"
begin

text \<open>Entering one queue leaves every other queue of the same heap as it was.\<close>

lemma enq_others:
  assumes "repr h q xs" and "p \<notin> set xs"
  obtains h' q' where "enq h q p = Some (h', q')" and "repr h' q' (pins (prio h) p xs)"
    and "\<And>q2 ys. repr h q2 ys \<Longrightarrow> insert p (set xs) \<inter> set ys = {} \<Longrightarrow> repr h' q2 ys"
    and "frame (insert p (set xs)) h h'" and "prio h' = prio h"
proof -
  from enq_law [OF assms] obtain h' q' where
    e: "enq h q p = Some (h', q')" "repr h' q' (pins (prio h) p xs)"
    and f: "frame (insert p (set xs)) h h'" by blast
  show ?thesis
    by (rule that [OF e _ f frame_prio [OF f]]) (rule frame_repr [OF f])
qed

text \<open>What entered is there, nothing else is gained or lost, and sortedness is kept.\<close>

lemma enq_sorted:
  assumes "repr h q xs" and "p \<notin> set xs" and "descending (prio h) xs"
  obtains h' q' ys where "enq h q p = Some (h', q')" and "repr h' q' ys"
    and "set ys = insert p (set xs)" and "descending (prio h') ys"
    and "\<And>k. filter (\<lambda>x. prio h x = k) ys =
           filter (\<lambda>x. prio h x = k) xs @ (if prio h p = k then [p] else [])"
proof -
  from enq_law [OF assms(1,2)] obtain h' q' where
    e: "enq h q p = Some (h', q')" "repr h' q' (pins (prio h) p xs)"
    and f: "frame (insert p (set xs)) h h'" by blast
  have "descending (prio h') (pins (prio h) p xs)"
    using assms(3) by (simp add: frame_prio [OF f] prio_simps)
  then show ?thesis
    by (intro that [OF e]) (simp_all add: set_pins filter_pins [OF assms(3)])
qed

text \<open>A queue that accepts one entry hands the most urgent, longest waiting entry back.\<close>

lemma enq_then_deq:
  assumes "repr h q xs" and "p \<notin> set xs"
  shows "\<exists>h' q' q''. enq h q p = Some (h', q') \<and>
    deq h' q' = (Some (hd (pins (prio h) p xs)), q'') \<and>
    repr h' q'' (tl (pins (prio h) p xs))"
proof -
  from enq_law [OF assms] obtain h' q' where
    e: "enq h q p = Some (h', q')" "repr h' q' (pins (prio h) p xs)" by blast
  then obtain y ys where "pins (prio h) p xs = y # ys"
    by (cases "pins (prio h) p xs") (auto dest: arg_cong [of _ _ length] simp: length_pins)
  with e deq_law [of h' q' y ys] show ?thesis by auto
qed

end

end
