(* ===== verification/ProcQueue.thy ===== *)
theory ProcQueue
  imports PrioQueue
begin

text \<open>
  \<^verbatim>\<open>PreLab3/Code/type.h\<close> and \<^verbatim>\<open>PreLab3/Code/queue.c\<close>: the PROC structure and the
  priority queues threaded through its \<^verbatim>\<open>next\<close> field. The array \<^verbatim>\<open>proc[NPROC]\<close> is a function
  from indices, a \<^verbatim>\<open>PROC *\<close> is an index or NULL.
\<close>

section \<open>The PROC structure\<close>

datatype pstatus = FREE | READY | SLEEP | ZOMBIE

type_synonym ptr = "nat option"

record PROC =
  nxt :: ptr
  pid :: int
  ppid :: int
  status :: pstatus
  priority :: int
  event :: int
  exitCode :: int
  child :: ptr
  sibling :: ptr
  parent :: ptr

type_synonym heap = "nat \<Rightarrow> PROC"

definition NPROC :: nat where
  "NPROC = 9"

section \<open>Queues\<close>

text \<open>The loop of \<^verbatim>\<open>enqueue\<close>: it stops at the cell behind which \<open>p\<close> belongs.\<close>

partial_function (option) enq_walk :: "heap \<Rightarrow> nat \<Rightarrow> nat \<Rightarrow> nat option" where
  "enq_walk h p q =
     (case nxt (h q) of
        None \<Rightarrow> Some q
      | Some n \<Rightarrow> if priority (h p) \<le> priority (h n) then enq_walk h p n else Some q)"

declare enq_walk.simps [code]

definition enqueue :: "heap \<Rightarrow> ptr \<Rightarrow> nat \<Rightarrow> (heap \<times> ptr) option" where
  "enqueue h queue p =
     (case queue of
        None \<Rightarrow> Some (h(p := (h p)\<lparr>nxt := queue\<rparr>), Some p)
      | Some q \<Rightarrow>
          if priority (h p) > priority (h q)
          then Some (h(p := (h p)\<lparr>nxt := queue\<rparr>), Some p)
          else do {
            w \<leftarrow> enq_walk h p q;
            let h1 = h(p := (h p)\<lparr>nxt := nxt (h w)\<rparr>);
            let h2 = h1(w := (h1 w)\<lparr>nxt := Some p\<rparr>);
            Some (h2, queue)
          })"

definition dequeue :: "heap \<Rightarrow> ptr \<Rightarrow> ptr \<times> ptr" where
  "dequeue h queue =
     (case queue of
        None \<Rightarrow> (None, queue)
      | Some p \<Rightarrow> (Some p, nxt (h p)))"

text \<open>The pointer and priority fields as functions of the index, opaque to the simplifier.\<close>

definition nexts :: "heap \<Rightarrow> nat \<Rightarrow> ptr" where
  "nexts h i = nxt (h i)"

definition prios :: "heap \<Rightarrow> nat \<Rightarrow> int" where
  "prios h i = priority (h i)"

lemma nexts_upd [chain_simps]: "nexts (h(p := r)) = (nexts h)(p := nxt r)"
  by (rule ext) (simp add: nexts_def)

lemma prios_upd [chain_simps]: "prios (h(p := r)) = (prios h)(p := priority r)"
  by (rule ext) (simp add: prios_def)

lemma prios_same [chain_simps]: "(prios h)(p := priority (h p)) = prios h"
  by (rule ext) (simp add: prios_def)

lemma enq_walk_correct:
  "chain (nexts h) (nxt (h q)) xs \<Longrightarrow>
   \<exists>w ys zs. enq_walk h p q = Some w \<and> q # xs = ys @ w # zs \<and>
     q # pins (prios h) p xs = ys @ w # p # zs"
proof (induction xs arbitrary: q)
  case Nil
  then show ?case
    by (intro exI [of _ q] exI [of _ "[]"]) (auto simp: enq_walk.simps)
next
  case (Cons x xs)
  show ?case
  proof (cases "prios h p \<le> prios h x")
    case True
    from Cons.prems have "chain (nexts h) (nxt (h x)) xs" by (simp add: nexts_def [of h x])
    from Cons.IH [OF this] obtain w ys zs where IH: "enq_walk h p x = Some w"
      "x # xs = ys @ w # zs" "x # pins (prios h) p xs = ys @ w # p # zs" by blast
    have "enq_walk h p q = Some w"
      using Cons.prems True IH(1) by (simp add: enq_walk.simps [of h p q] prios_def [of h])
    moreover have "q # x # xs = (q # ys) @ w # zs" using IH(2) by simp
    moreover have "q # pins (prios h) p (x # xs) = (q # ys) @ w # p # zs"
      using True IH(3) by simp
    ultimately show ?thesis by blast
  next
    case False
    have "enq_walk h p q = Some q"
      using Cons.prems False by (simp add: enq_walk.simps [of h p q] prios_def [of h])
    moreover have "q # pins (prios h) p (x # xs) = [] @ q # p # x # xs"
      using False by simp
    ultimately show ?thesis by (metis append_Nil)
  qed
qed

text \<open>
  \<^verbatim>\<open>enqueue\<close> on any well-formed queue returns, and the queue it leaves is the insertion by
  priority into the queue it found. Only \<^verbatim>\<open>next\<close> fields change, and only on the queue.
\<close>

definition next_frame :: "nat set \<Rightarrow> heap \<Rightarrow> heap \<Rightarrow> bool" where
  "next_frame A h h' \<longleftrightarrow>
     (\<forall>i. h' i = (h i)\<lparr>nxt := nxt (h' i)\<rparr>) \<and> (\<forall>i. i \<notin> A \<longrightarrow> h' i = h i)"

lemma enqueue_refines:
  assumes c: "chain (nexts h) q xs" and p: "p \<notin> set xs"
  shows "\<exists>h' q'. enqueue h q p = Some (h', q') \<and> chain (nexts h') q' (pins (prios h) p xs) \<and>
    next_frame (insert p (set xs)) h h'"
proof (cases xs)
  case Nil
  with c show ?thesis by (simp add: enqueue_def nexts_def next_frame_def)
next
  case (Cons x ys)
  show ?thesis
  proof (cases "priority (h p) > priority (h x)")
    case True
    with c p Cons show ?thesis
      by (auto simp: enqueue_def prios_def chain_simps upd_simps simp del: fun_upd_apply)
        (auto simp: next_frame_def)
  next
    case False
    from c Cons have "chain (nexts h) (nxt (h x)) ys" by (simp add: nexts_def)
    from enq_walk_correct [OF this] obtain w us zs where w: "enq_walk h p x = Some w"
      "x # ys = us @ w # zs" "x # pins (prios h) p ys = us @ w # p # zs" by blast
    let ?h = "h(p := (h p)\<lparr>nxt := nxt (h w)\<rparr>, w := (h w)\<lparr>nxt := Some p\<rparr>)"
    from p Cons w(2) have wp: "w \<noteq> p" by auto
    have "nexts ?h = (nexts h)(p := nexts h w, w := Some p)"
      using wp by (auto simp: nexts_def fun_eq_iff)
    moreover from chain_splice [of "nexts h" q us w zs p] c p Cons w(2)
    have "chain ((nexts h)(p := nexts h w, w := Some p)) q (us @ w # p # zs)" by auto
    ultimately have "chain (nexts ?h) q (us @ w # p # zs)" by simp
    moreover from False w(3) have "pins (prios h) p xs = us @ w # p # zs"
      by (simp add: Cons prios_def)
    moreover from c Cons False w(1) wp have "enqueue h q p = Some (?h, q)"
      by (simp add: enqueue_def Let_def fun_upd_def)
    moreover have "next_frame (insert p (set xs)) h ?h"
      using w(2) Cons by (auto simp: next_frame_def)
    ultimately show ?thesis by auto
  qed
qed

text \<open>The pointer code keeps the promises of the interface.\<close>

lemma next_frame_next: "next_frame A h h' \<Longrightarrow> i \<notin> A \<Longrightarrow> nexts h' i = nexts h i"
  by (simp add: next_frame_def nexts_def)

lemma next_frame_prios: "next_frame A h h' \<Longrightarrow> prios h' = prios h"
proof
  fix i
  assume "next_frame A h h'"
  then have "h' i = (h i)\<lparr>nxt := nxt (h' i)\<rparr>" by (simp add: next_frame_def)
  from arg_cong [OF this, of priority] show "prios h' i = prios h i" by (simp add: prios_def)
qed

interpretation pq: prio_queue enqueue dequeue "\<lambda>h. chain (nexts h)" prios next_frame
proof
  fix h q xs and p :: nat
  assume "chain (nexts h) q xs" and "p \<notin> set xs"
  then show "\<exists>h' q'. enqueue h q p = Some (h', q') \<and> chain (nexts h') q' (pins (prios h) p xs) \<and>
    next_frame (insert p (set xs)) h h'"
    by (rule enqueue_refines)
next
  fix h q x xs
  assume "chain (nexts h) q (x # xs)"
  then show "\<exists>q'. dequeue h q = (Some x, q') \<and> chain (nexts h) q' xs"
    by (simp add: dequeue_def nexts_def [of h x])
next
  fix h q
  assume "chain (nexts h) q []"
  then show "dequeue h q = (None, q)" by (simp add: dequeue_def)
next
  fix h q xs
  assume "chain (nexts h) q xs"
  then show "distinct xs" by (rule chain_distinct)
next
  fix A h h' and ys :: "nat list" and q
  assume "next_frame A h h'" and "A \<inter> set ys = {}" and "chain (nexts h) q ys"
  then have "nexts h' x = nexts h x" if "x \<in> set ys" for x
    using that by (intro next_frame_next) auto
  from chain_cong [OF this] \<open>chain (nexts h) q ys\<close> show "chain (nexts h') q ys" by simp
next
  fix A h h'
  assume "next_frame A h h'"
  then show "prios h' = prios h" by (rule next_frame_prios)
qed

end
