(* ===== verification/Kernel.thy ===== *)
theory Kernel
  imports ProcQueue
begin

text \<open>
  \<^verbatim>\<open>PreLab3/Code/t.c\<close> and \<^verbatim>\<open>PreLab3/Code/wait.c\<close>: the multitasking kernel. A process that
  calls \<^verbatim>\<open>tswitch\<close> leaves the rest of its work on its own stack; \<open>ctx\<close> is that rest. A step of
  the model runs from the point where a process resumes to its next call of \<^verbatim>\<open>tswitch\<close> or to its
  next prompt. The prints, which change no state, are in the theory KernelShow.
\<close>

section \<open>State\<close>

text \<open>
  Where a process goes on: P0 in the loop of \<^verbatim>\<open>main\<close>, any other at the prompt of \<^verbatim>\<open>body\<close>, or
  inside \<^verbatim>\<open>kwait\<close> behind its call of \<^verbatim>\<open>sleep\<close>, with the value of the local \<^verbatim>\<open>childProc\<close>.
\<close>

datatype ctx = Main | Body | InWait ptr

record mt =
  proc :: heap
  freeList :: ptr
  readyQueue :: ptr
  running :: nat
  sleepList :: ptr
  ctx :: "nat \<Rightarrow> ctx"
  proc_base :: int

text \<open>\<^verbatim>\<open>(int)&proc[i]\<close>: a PROC is 11 words and a stack of 1024 words.\<close>

definition proc_addr :: "mt \<Rightarrow> nat \<Rightarrow> int" where
  "proc_addr s i = proc_base s + int i * 4 * (11 + 1024)"

definition set_proc :: "nat \<Rightarrow> (PROC \<Rightarrow> PROC) \<Rightarrow> mt \<Rightarrow> mt" where
  "set_proc i f s = s\<lparr>proc := (proc s)(i := f (proc s i))\<rparr>"

section \<open>Switching, sleeping, waking\<close>

definition enter_ready :: "nat \<Rightarrow> mt \<Rightarrow> mt option" where
  "enter_ready p s = do {
     (h, q) \<leftarrow> enqueue (proc s) (readyQueue s) p;
     Some (s\<lparr>proc := h, readyQueue := q\<rparr>)
   }"

definition scheduler :: "mt \<Rightarrow> mt option" where
  "scheduler s = do {
     s1 \<leftarrow> (if status (proc s (running s)) = READY then enter_ready (running s) s else Some s);
     (case dequeue (proc s1) (readyQueue s1) of
        (None, q) \<Rightarrow> None
      | (Some p, q) \<Rightarrow> Some (s1\<lparr>readyQueue := q, running := p\<rparr>))
   }"

definition tswitch :: "ctx \<Rightarrow> mt \<Rightarrow> mt option" where
  "tswitch k s = scheduler (s\<lparr>ctx := (ctx s)(running s := k)\<rparr>)"

definition sleep :: "int \<Rightarrow> ctx \<Rightarrow> mt \<Rightarrow> mt option" where
  "sleep ev k s = do {
     let s1 = set_proc (running s) (\<lambda>p. p\<lparr>event := ev, status := SLEEP\<rparr>) s;
     (h, q) \<leftarrow> enqueue (proc s1) (sleepList s1) (running s1);
     tswitch k (s1\<lparr>proc := h, sleepList := q\<rparr>)
   }"

partial_function (option) wakeup_loop :: "int \<Rightarrow> mt \<Rightarrow> ptr \<Rightarrow> (mt \<times> ptr) option" where
  "wakeup_loop ev s temp =
     (case dequeue (proc s) (sleepList s) of
        (None, q) \<Rightarrow> Some (s\<lparr>sleepList := q\<rparr>, temp)
      | (Some p, q) \<Rightarrow>
          if event (proc s p) = ev
          then do {
            s1 \<leftarrow> enter_ready p (set_proc p (\<lambda>r. r\<lparr>status := READY\<rparr>) (s\<lparr>sleepList := q\<rparr>));
            wakeup_loop ev s1 temp
          }
          else do {
            (h, t) \<leftarrow> enqueue (proc s) temp p;
            wakeup_loop ev (s\<lparr>sleepList := q, proc := h\<rparr>) t
          })"

declare wakeup_loop.simps [code]

definition wakeup :: "int \<Rightarrow> mt \<Rightarrow> mt option" where
  "wakeup ev s = do {
     (s1, temp) \<leftarrow> wakeup_loop ev s None;
     Some (s1\<lparr>sleepList := temp\<rparr>)
   }"

section \<open>Creating processes\<close>

text \<open>
  The child list is walked by one cell only: \<^verbatim>\<open>prev\<close> is the first child, whatever follows it.
\<close>

definition kfork :: "mt \<Rightarrow> (mt \<times> int) option" where
  "kfork s =
     (case dequeue (proc s) (freeList s) of
        (None, q) \<Rightarrow> Some (s\<lparr>freeList := q\<rparr>, -1)
      | (Some p, q) \<Rightarrow> do {
          let s1 = set_proc p (\<lambda>r. r\<lparr>status := READY, priority := 1\<rparr>) (s\<lparr>freeList := q\<rparr>);
          let s2 = set_proc p (\<lambda>r. r\<lparr>ppid := pid (proc s1 (running s1)),
                                     parent := Some (running s1)\<rparr>) s1;
          let prev = child (proc s2 (running s2));
          let s3 = (case prev of
                      Some c \<Rightarrow> set_proc c (\<lambda>r. r\<lparr>sibling := Some p\<rparr>) s2
                    | None \<Rightarrow> set_proc (running s2) (\<lambda>r. r\<lparr>child := Some p\<rparr>) s2);
          s4 \<leftarrow> enter_ready p (s3\<lparr>ctx := (ctx s3)(p := Body)\<rparr>);
          Some (s4, pid (proc s4 p))
        })"

section \<open>Exit\<close>

text \<open>\<^verbatim>\<open>while(child){ prev = child; child = child->sibling; }\<close>\<close>

partial_function (option) last_sibling :: "heap \<Rightarrow> ptr \<Rightarrow> ptr \<Rightarrow> ptr option" where
  "last_sibling h c prev =
     (case c of
        None \<Rightarrow> Some prev
      | Some i \<Rightarrow> last_sibling h (sibling (h i)) (Some i))"

declare last_sibling.simps [code]

partial_function (option) adopt :: "heap \<Rightarrow> ptr \<Rightarrow> heap option" where
  "adopt h c =
     (case c of
        None \<Rightarrow> Some h
      | Some i \<Rightarrow>
          let h1 = h(i := (h i)\<lparr>parent := Some 1\<rparr>);
              h2 = h1(i := (h1 i)\<lparr>ppid := pid (h1 1)\<rparr>)
          in adopt h2 (sibling (h2 i)))"

declare adopt.simps [code]

definition give_away :: "mt \<Rightarrow> mt option" where
  "give_away s = do {
     prev \<leftarrow> last_sibling (proc s) (child (proc s 1)) None;
     let own = child (proc s (running s));
     let s1 = (case prev of
                 Some c \<Rightarrow> set_proc c (\<lambda>r. r\<lparr>sibling := own\<rparr>) s
               | None \<Rightarrow> set_proc 1 (\<lambda>r. r\<lparr>child := own\<rparr>) s);
     h \<leftarrow> adopt (proc s1) (child (proc s1 (running s1)));
     Some (s1\<lparr>proc := h\<rparr>)
   }"

definition kexit :: "int \<Rightarrow> mt \<Rightarrow> mt option" where
  "kexit v s =
     (if running s \<noteq> 1
      then do {
        s1 \<leftarrow> give_away s;
        let s2 = set_proc (running s1) (\<lambda>r. r\<lparr>exitCode := v, status := ZOMBIE\<rparr>) s1;
        let ppa = (case parent (proc s2 (running s2)) of
                     Some a \<Rightarrow> proc_addr s2 a
                   | None \<Rightarrow> proc_addr s2 1);
        s3 \<leftarrow> wakeup ppa s2;
        tswitch Body s3
      }
      else Some s)"

definition do_exit :: "mt \<Rightarrow> mt option" where
  "do_exit s = kexit (pid (proc s (running s))) s"

section \<open>Waiting for a child\<close>

partial_function (option) findZombieChild :: "heap \<Rightarrow> ptr \<Rightarrow> ptr option" where
  "findZombieChild h p =
     (case p of
        None \<Rightarrow> Some None
      | Some c \<Rightarrow> if status (h c) = ZOMBIE then Some (Some c) else findZombieChild h (sibling (h c)))"

declare findZombieChild.simps [code]

text \<open>\<^verbatim>\<open>while(cur){ if(cur == childProc){break;} prev = cur; cur = cur->sibling; }\<close>\<close>

partial_function (option) find_prev :: "heap \<Rightarrow> nat \<Rightarrow> ptr \<Rightarrow> ptr \<Rightarrow> ptr option" where
  "find_prev h target cur prev =
     (case cur of
        None \<Rightarrow> Some prev
      | Some c \<Rightarrow> if c = target then Some prev else find_prev h target (sibling (h c)) (Some c))"

declare find_prev.simps [code]

text \<open>What \<^verbatim>\<open>kwait\<close> comes to: a return value and status code, or sleep.\<close>

datatype wait_res = Returned int int | Asleep

definition bury :: "nat \<Rightarrow> mt \<Rightarrow> (mt \<times> wait_res) option" where
  "bury z s = do {
     let zpid = pid (proc s z);
     let code = exitCode (proc s z);
     let s1 = set_proc z (\<lambda>r. r\<lparr>status := FREE\<rparr>) s;
     prev \<leftarrow> find_prev (proc s1) z (child (proc s1 (running s1))) None;
     let s2 = (case prev of
                 Some c \<Rightarrow> set_proc c (\<lambda>r. r\<lparr>sibling := sibling (proc s1 z)\<rparr>) s1
               | None \<Rightarrow> set_proc (running s1) (\<lambda>r. r\<lparr>child := None\<rparr>) s1);
     (h, q) \<leftarrow> enqueue (proc s2) (freeList s2) z;
     Some (s2\<lparr>proc := h, freeList := q\<rparr>, Returned zpid code)
   }"

text \<open>
  One round of the loop. The assignment in the condition has set \<^verbatim>\<open>childProc\<close> to NULL when the
  process goes to sleep, and that is the value the loop tests when it resumes.
\<close>

definition kwait_loop :: "ptr \<Rightarrow> mt \<Rightarrow> (mt \<times> wait_res) option" where
  "kwait_loop childProc s =
     (case childProc of
        None \<Rightarrow> Some (s, Returned (-1) 0)
      | Some c \<Rightarrow> do {
          found \<leftarrow> findZombieChild (proc s) childProc;
          (case found of
             Some z \<Rightarrow> bury z s
           | None \<Rightarrow> do {
               s1 \<leftarrow> sleep (proc_addr s (running s)) (InWait found) s;
               Some (s1, Asleep)
             })
        })"

definition kwait :: "mt \<Rightarrow> (mt \<times> wait_res) option" where
  "kwait s = kwait_loop (child (proc s (running s))) s"

section \<open>Raising the dead\<close>

fun jesus_loop :: "nat list \<Rightarrow> mt \<Rightarrow> mt option" where
  "jesus_loop [] s = Some s"
| "jesus_loop (i # is) s =
     (if status (proc s i) = ZOMBIE
      then do {
        s1 \<leftarrow> enter_ready i (set_proc i (\<lambda>r. r\<lparr>status := READY\<rparr>) s);
        jesus_loop is s1
      }
      else jesus_loop is s)"

definition do_jesus :: "mt \<Rightarrow> mt option" where
  "do_jesus s = jesus_loop [1..<NPROC] s"

section \<open>Initialisation and the step of the running process\<close>

definition zero_PROC :: PROC where
  "zero_PROC = \<lparr>nxt = None, pid = 0, ppid = 0, status = FREE, priority = 0, event = 0,
     exitCode = 0, child = None, sibling = None, parent = None\<rparr>"

definition zero_mt :: "int \<Rightarrow> mt" where
  "zero_mt base = \<lparr>proc = (\<lambda>_. zero_PROC), freeList = None, readyQueue = None, running = 0,
     sleepList = None, ctx = (\<lambda>_. Main), proc_base = base\<rparr>"

fun init_procs :: "nat \<Rightarrow> heap \<Rightarrow> heap" where
  "init_procs 0 h = h"
| "init_procs (Suc i) h =
     (let h' = init_procs i h
      in h'(i := (h' i)\<lparr>pid := int i, status := FREE, priority := 0, nxt := Some (i + 1)\<rparr>))"

definition init :: "mt \<Rightarrow> mt option" where
  "init s =
     (let h = init_procs NPROC (proc s);
          h1 = h(NPROC - 1 := (h (NPROC - 1))\<lparr>nxt := None\<rparr>);
          s1 = s\<lparr>proc := h1, freeList := Some 0, readyQueue := None, sleepList := None\<rparr>
      in case dequeue (proc s1) (freeList s1) of
           (None, q) \<Rightarrow> None
         | (Some p, q) \<Rightarrow>
             Some (set_proc p (\<lambda>r. r\<lparr>status := READY, priority := 0, ppid := 0\<rparr>)
               (s1\<lparr>freeList := q, running := p\<rparr>)))"

definition boot :: "int \<Rightarrow> mt option" where
  "boot base = do {
     s \<leftarrow> init (zero_mt base);
     (s1, c) \<leftarrow> kfork s;
     Some s1
   }"

text \<open>The command line typed at the prompt, and the number typed when a command asks for one.\<close>

definition body_cmd :: "string \<Rightarrow> int \<Rightarrow> mt \<Rightarrow> mt option" where
  "body_cmd cmd ev s =
     (if cmd = ''fork'' then map_option fst (kfork s)
      else if cmd = ''switch'' then tswitch Body s
      else if cmd = ''exit'' then do_exit s
      else if cmd = ''jesus'' then do_jesus s
      else if cmd = ''sleep'' then sleep ev Body s
      else if cmd = ''wakeup'' then wakeup ev s
      else if cmd = ''wait'' then map_option fst (kwait s)
      else Some s)"

text \<open>
  P0 spins while the ready queue is empty, and nothing can fill it then: the step does not return.
  A process that resumes inside \<^verbatim>\<open>kwait\<close> finishes it and comes back to its prompt, and so does
  a process that came back from a command.
\<close>

definition kstep :: "string \<Rightarrow> int \<Rightarrow> mt \<Rightarrow> mt option" where
  "kstep cmd ev s =
     (case ctx s (running s) of
        Main \<Rightarrow> if readyQueue s = None then None else tswitch Main s
      | Body \<Rightarrow> body_cmd cmd ev s
      | InWait cp \<Rightarrow> do {
          (s1, r) \<leftarrow> kwait_loop cp s;
          (case r of
             Returned p c \<Rightarrow> Some (s1\<lparr>ctx := (ctx s1)(running s1 := Body)\<rparr>)
           | Asleep \<Rightarrow> Some s1)
        })"

fun kruns :: "(string \<times> int) list \<Rightarrow> mt \<Rightarrow> mt option" where
  "kruns [] s = Some s"
| "kruns ((cmd, ev) # cs) s = do { s1 \<leftarrow> kstep cmd ev s; kruns cs s1 }"

end
