(* ===== verification/KernelInv.thy ===== *)
theory KernelInv
  imports Kernel
begin

text \<open>
  The invariant of the kernel of \<^verbatim>\<open>PreLab3/Code\<close> and the abstract view of its three queues:
  every process is in exactly one place, its status says which one, and every queue is ordered by
  priority. Each operation is related to its effect on the three lists.
\<close>

section \<open>The invariant\<close>

definition place :: "nat list \<Rightarrow> nat list \<Rightarrow> nat list \<Rightarrow> nat \<Rightarrow> pstatus" where
  "place fr rq sl i =
     (if i \<in> set fr then FREE else if i \<in> set rq then READY
      else if i \<in> set sl then SLEEP else if i < NPROC then ZOMBIE else FREE)"

definition queues4 :: "heap \<Rightarrow> ptr \<Rightarrow> ptr \<Rightarrow> ptr \<Rightarrow> ptr \<Rightarrow>
    nat list \<Rightarrow> nat list \<Rightarrow> nat list \<Rightarrow> nat list \<Rightarrow> bool" where
  "queues4 h f r l t fr rq sl ts \<longleftrightarrow>
     chain (nexts h) f fr \<and> chain (nexts h) r rq \<and> chain (nexts h) l sl \<and> chain (nexts h) t ts \<and>
     distinct (fr @ rq @ sl @ ts) \<and> set (fr @ rq @ sl @ ts) \<subseteq> {..<NPROC} \<and>
     descending (prios h) fr \<and> descending (prios h) rq \<and> descending (prios h) sl \<and>
     descending (prios h) ts"

text \<open>The three queues of the kernel; \<open>queues4\<close> has the local list of \<^verbatim>\<open>wakeup\<close> as well.\<close>

definition queues_ok :: "heap \<Rightarrow> ptr \<Rightarrow> ptr \<Rightarrow> ptr \<Rightarrow> nat list \<Rightarrow> nat list \<Rightarrow> nat list \<Rightarrow> bool" where
  "queues_ok h f r l fr rq sl \<longleftrightarrow> queues4 h f r l None fr rq sl []"

definition procs_ok :: "heap \<Rightarrow> nat \<Rightarrow> nat list \<Rightarrow> nat list \<Rightarrow> nat list \<Rightarrow> bool" where
  "procs_ok h run fr rq sl \<longleftrightarrow>
     (\<forall>i. i \<noteq> run \<longrightarrow> status (h i) = place fr rq sl i) \<and>
     (\<forall>i<NPROC. pid (h i) = int i) \<and>
     (\<forall>i<NPROC. i \<notin> set fr \<longrightarrow> priority (h i) = (if i = 0 then 0 else 1))"

definition homes_ok :: "nat \<Rightarrow> nat list \<Rightarrow> nat list \<Rightarrow> nat list \<Rightarrow> bool" where
  "homes_ok run fr rq sl \<longleftrightarrow>
     run < NPROC \<and> 0 \<notin> set fr \<and> 0 \<notin> set sl \<and> (0 \<in> set rq \<or> run = 0) \<and>
     1 \<notin> set fr \<and> (1 \<in> set rq \<or> 1 \<in> set sl \<or> run = 1)"

definition ctx_ok :: "(nat \<Rightarrow> ctx) \<Rightarrow> nat list \<Rightarrow> bool" where
  "ctx_ok c fr \<longleftrightarrow> c 0 = Main \<and> (\<forall>i<NPROC. i \<noteq> 0 \<and> i \<notin> set fr \<longrightarrow> c i = Body \<or> c i = InWait None)"

text \<open>
  \<open>kwf\<close> leaves the running process out, so it also holds in the middle of a handler; \<open>kinv\<close> is
  the invariant between steps, where the running process is READY and on no queue.
\<close>

definition kwf :: "mt \<Rightarrow> nat list \<Rightarrow> nat list \<Rightarrow> nat list \<Rightarrow> bool" where
  "kwf s fr rq sl \<longleftrightarrow>
     queues_ok (proc s) (freeList s) (readyQueue s) (sleepList s) fr rq sl \<and>
     procs_ok (proc s) (running s) fr rq sl \<and> homes_ok (running s) fr rq sl \<and> ctx_ok (ctx s) fr"

definition kinv :: "mt \<Rightarrow> nat list \<Rightarrow> nat list \<Rightarrow> nat list \<Rightarrow> bool" where
  "kinv s fr rq sl \<longleftrightarrow>
     kwf s fr rq sl \<and> running s \<notin> set (fr @ rq @ sl) \<and> status (proc s (running s)) = READY"

text \<open>
  Some three lists fit the state; after a step, P0 has the processor only when nobody is READY.
\<close>

definition kgood :: "mt \<Rightarrow> bool" where
  "kgood s \<longleftrightarrow> (\<exists>fr rq sl. kinv s fr rq sl)"

definition kafter :: "mt \<Rightarrow> bool" where
  "kafter s \<longleftrightarrow> (\<exists>fr rq sl. kinv s fr rq sl \<and> (running s = 0 \<longrightarrow> rq = []))"

lemma kgoodI: "kinv s fr rq sl \<Longrightarrow> kgood s"
  by (auto simp: kgood_def)

lemma kafter_kgood: "kafter s \<Longrightarrow> kgood s"
  by (auto simp: kafter_def kgood_def)

lemma kafter_other: "kinv s fr rq sl \<Longrightarrow> running s \<noteq> 0 \<Longrightarrow> kafter s"
  by (auto simp: kafter_def)

definition zero_last :: "nat list \<Rightarrow> bool" where
  "zero_last r \<longleftrightarrow> filter (\<lambda>i. i \<noteq> 0) r @ filter (\<lambda>i. i = 0) r = r"

lemma kafter_picked:
  assumes k: "kinv s fr (tl r) sl" and h: "running s = hd r" and z: "zero_last r"
  shows "kafter s"
proof (cases "running s = 0 \<and> r \<noteq> []")
  case True
  then obtain t where r: "r = 0 # t" using h by (cases r) auto
  have "0 \<notin> set t" using k True r by (simp add: kinv_def)
  then have "filter (\<lambda>i. i \<noteq> 0) t = t" by (induction t) auto
  with z r have "t = []" by (cases t) (auto simp: zero_last_def)
  with k r show ?thesis by (auto simp: kafter_def)
next
  case False
  then have "running s = 0 \<longrightarrow> tl r = []" by auto
  with k show ?thesis unfolding kafter_def by (intro exI conjI)
qed

section \<open>Frames\<close>

lemma set_proc_sel [simp]:
  "proc (set_proc i f s) = (proc s)(i := f (proc s i))"
  "freeList (set_proc i f s) = freeList s" "readyQueue (set_proc i f s) = readyQueue s"
  "running (set_proc i f s) = running s" "sleepList (set_proc i f s) = sleepList s"
  "ctx (set_proc i f s) = ctx s" "proc_base (set_proc i f s) = proc_base s"
  by (simp_all add: set_proc_def)

text \<open>A change of \<^verbatim>\<open>next\<close> fields keeps every other field.\<close>

lemma next_frame_fields:
  assumes "next_frame A h h'"
  shows "status (h' i) = status (h i)" and "pid (h' i) = pid (h i)"
    and "ppid (h' i) = ppid (h i)" and "priority (h' i) = priority (h i)"
    and "event (h' i) = event (h i)" and "exitCode (h' i) = exitCode (h i)"
    and "child (h' i) = child (h i)" and "sibling (h' i) = sibling (h i)"
    and "parent (h' i) = parent (h i)"
proof -
  from assms have e: "h' i = (h i)\<lparr>nxt := nxt (h' i)\<rparr>" by (simp add: next_frame_def)
  show "status (h' i) = status (h i)" "pid (h' i) = pid (h i)"
    "ppid (h' i) = ppid (h i)" "priority (h' i) = priority (h i)"
    "event (h' i) = event (h i)" "exitCode (h' i) = exitCode (h i)"
    "child (h' i) = child (h i)" "sibling (h' i) = sibling (h i)"
    "parent (h' i) = parent (h i)"
    by (subst e, simp)+
qed

text \<open>Changes of fields other than \<^verbatim>\<open>next\<close> and \<^verbatim>\<open>priority\<close> leave all queues as they are.\<close>

definition same_links :: "heap \<Rightarrow> heap \<Rightarrow> bool" where
  "same_links h h' \<longleftrightarrow> nexts h' = nexts h \<and> prios h' = prios h"

lemma same_links_refl [simp, intro]: "same_links h h"
  by (simp add: same_links_def)

lemma same_links_trans: "same_links h h' \<Longrightarrow> same_links h' h'' \<Longrightarrow> same_links h h''"
  by (simp add: same_links_def)

lemma same_links_upd [intro]:
  "nxt r = nxt (h i) \<Longrightarrow> priority r = priority (h i) \<Longrightarrow> same_links h (h(i := r))"
  by (simp add: same_links_def nexts_def prios_def fun_eq_iff)

lemma queues4_links:
  "same_links h h' \<Longrightarrow> queues4 h' f r l t fr rq sl ts = queues4 h f r l t fr rq sl ts"
  by (simp add: queues4_def same_links_def)

lemma queues_ok_links:
  "same_links h h' \<Longrightarrow> queues_ok h' f r l fr rq sl = queues_ok h f r l fr rq sl"
  by (simp add: queues_ok_def queues4_links)

section \<open>Entering a queue\<close>

lemma queues4_swap:
  "queues4 h f r l t fr rq sl ts = queues4 h r f l t rq fr sl ts"
  "queues4 h f r l t fr rq sl ts = queues4 h l r f t sl rq fr ts"
  "queues4 h f r l t fr rq sl ts = queues4 h t r l f ts rq sl fr"
  by (auto simp: queues4_def)

lemma enqueue_ok:
  assumes q: "queues4 h f r l t fr rq sl ts"
    and p: "p \<notin> set (fr @ rq @ sl @ ts)" "p < NPROC"
  obtains h' f' where "enqueue h f p = Some (h', f')"
    and "queues4 h' f' r l t (pins (prios h) p fr) rq sl ts"
    and "next_frame (insert p (set fr)) h h'"
proof -
  from q p have c: "chain (nexts h) f fr" "p \<notin> set fr" by (simp_all add: queues4_def)
  show ?thesis
  proof (rule pq.enq_others [OF c])
    fix h' f'
    assume e: "enqueue h f p = Some (h', f')" "chain (nexts h') f' (pins (prios h) p fr)"
      and o: "\<And>q2 ys. chain (nexts h) q2 ys \<Longrightarrow> insert p (set fr) \<inter> set ys = {} \<Longrightarrow> chain (nexts h') q2 ys"
      and f: "next_frame (insert p (set fr)) h h'" "prios h' = prios h"
    have "chain (nexts h') r rq" "chain (nexts h') l sl" "chain (nexts h') t ts"
      using q p by (auto simp: queues4_def intro!: o)
    with q p e f(2) have "queues4 h' f' r l t (pins (prios h) p fr) rq sl ts"
      by (auto simp: queues4_def prio_simps)
    with e f(1) show ?thesis by (intro that)
  qed
qed

lemma enter_ready_ok:
  assumes q: "queues4 (proc s) f (readyQueue s) l t fr rq sl ts"
    and p: "p \<notin> set (fr @ rq @ sl @ ts)" "p < NPROC"
  obtains h r where "enter_ready p s = Some (s\<lparr>proc := h, readyQueue := r\<rparr>)"
    and "queues4 h f r l t fr (pins (prios (proc s)) p rq) sl ts"
    and "next_frame (insert p (set rq)) (proc s) h"
proof -
  from q have "queues4 (proc s) (readyQueue s) f l t rq fr sl ts" by (simp only: queues4_swap(1))
  from enqueue_ok [OF this] p obtain h r where
    e: "enqueue (proc s) (readyQueue s) p = Some (h, r)"
    and n: "queues4 h r f l t (pins (prios (proc s)) p rq) fr sl ts"
    and f: "next_frame (insert p (set rq)) (proc s) h" by auto
  from n have "queues4 h f r l t fr (pins (prios (proc s)) p rq) sl ts"
    by (simp only: queues4_swap(1))
  with e f show ?thesis by (intro that) (simp_all add: enter_ready_def)
qed

section \<open>The scheduler\<close>

lemma descending_hd: "descending pr (x # xs) \<Longrightarrow> y \<in> set (x # xs) \<Longrightarrow> pr y \<le> pr x"
  by auto

text \<open>Picking the head of a ready queue that is not empty.\<close>

lemma dequeue_ready_ok:
  assumes q: "queues_ok (proc s) (freeList s) (readyQueue s) (sleepList s) fr (x # rq) sl"
  obtains r where "dequeue (proc s) (readyQueue s) = (Some x, r)"
    and "queues_ok (proc s) (freeList s) r (sleepList s) fr rq sl"
proof -
  from q have "chain (nexts (proc s)) (readyQueue s) (x # rq)"
    by (simp add: queues_ok_def queues4_def)
  from pq.deq_law [OF this] obtain r where
    "dequeue (proc s) (readyQueue s) = (Some x, r)" "chain (nexts (proc s)) r rq" by blast
  with q show ?thesis by (intro that) (auto simp: queues_ok_def queues4_def)
qed

lemma place_enter:
  "insert x (set xs) = insert r (set rq) \<Longrightarrow> r \<notin> set (fr @ rq @ sl) \<Longrightarrow> i \<noteq> x \<Longrightarrow>
   place fr xs sl i = (if i = r then READY else place fr rq sl i)"
  by (auto simp: place_def)

text \<open>The running process gives the processor up but stays READY.\<close>

lemma scheduler_ready:
  assumes k: "kinv s fr rq sl"
  defines "rq1 \<equiv> pins (prios (proc s)) (running s) rq"
  shows "\<exists>s'. scheduler s = Some s' \<and> running s' = hd rq1 \<and> kinv s' fr (tl rq1) sl \<and>
    next_frame (insert (running s) (set rq)) (proc s) (proc s') \<and>
    ctx s' = ctx s \<and> proc_base s' = proc_base s"
proof -
  have q: "queues_ok (proc s) (freeList s) (readyQueue s) (sleepList s) fr rq sl"
    and r: "running s \<notin> set (fr @ rq @ sl)" "running s < NPROC"
    and st: "status (proc s (running s)) = READY"
    using k by (simp_all add: kinv_def kwf_def homes_ok_def)
  from r have r': "running s \<notin> set (fr @ rq @ sl @ [])" by simp
  from enter_ready_ok [OF q [unfolded queues_ok_def] r' r(2)] obtain h t where
    e: "enter_ready (running s) s = Some (s\<lparr>proc := h, readyQueue := t\<rparr>)"
    and q1: "queues_ok h (freeList s) t (sleepList s) fr rq1 sl"
    and f: "next_frame (insert (running s) (set rq)) (proc s) h"
    unfolding rq1_def queues_ok_def by blast
  obtain x xs where rq1: "rq1 = x # xs"
    by (cases rq1) (simp_all add: rq1_def)
  let ?s1 = "s\<lparr>proc := h, readyQueue := t\<rparr>"
  obtain u where d: "dequeue h t = (Some x, u)"
    and q2: "queues_ok h (freeList s) u (sleepList s) fr xs sl"
    using dequeue_ready_ok [of ?s1 fr x xs sl] q1 rq1 by auto
  let ?s2 = "?s1\<lparr>readyQueue := u, running := x\<rparr>"
  have s: "scheduler s = Some ?s2" using st e d by (simp add: scheduler_def)
  have set1: "insert x (set xs) = insert (running s) (set rq)"
    using set_pins [of "prios (proc s)" "running s" rq] rq1 unfolding rq1_def by simp
  have x: "x \<notin> set (fr @ xs @ sl)" "x < NPROC"
    using q1 rq1 by (auto simp: queues_ok_def queues4_def)
  have stat: "status (h i) = (if i = running s then READY else place fr rq sl i)" for i
    using k st by (simp add: kinv_def kwf_def procs_ok_def next_frame_fields [OF f])
  have "procs_ok h x fr xs sl"
    using k r stat place_enter [OF set1] unfolding kinv_def kwf_def procs_ok_def
    by (simp add: next_frame_fields [OF f])
  moreover have "homes_ok x fr xs sl"
    using k set1 x unfolding kinv_def kwf_def homes_ok_def by auto
  moreover have "status (h x) = READY"
    using stat [of x] set1 x q by (auto simp: queues_ok_def queues4_def place_def)
  ultimately have "kinv ?s2 fr xs sl"
    using q2 k x by (simp add: kinv_def kwf_def)
  with s rq1 f show ?thesis by auto
qed

text \<open>
  The running process has gone to sleep or died: the head of the ready queue takes over.
\<close>

lemma scheduler_blocked:
  assumes k: "kwf s fr (x # rq) sl"
    and st: "status (proc s (running s)) = place fr (x # rq) sl (running s)"
    and nr: "status (proc s (running s)) \<noteq> READY" and r: "running s \<noteq> 0"
    and one: "running s = 1 \<Longrightarrow> 1 \<in> set sl"
  shows "\<exists>t. scheduler s = Some (s\<lparr>readyQueue := t, running := x\<rparr>) \<and>
    kinv (s\<lparr>readyQueue := t, running := x\<rparr>) fr rq sl"
proof -
  have q: "queues_ok (proc s) (freeList s) (readyQueue s) (sleepList s) fr (x # rq) sl"
    using k by (simp add: kwf_def)
  then obtain t where d: "dequeue (proc s) (readyQueue s) = (Some x, t)"
    and q1: "queues_ok (proc s) (freeList s) t (sleepList s) fr rq sl"
    by (rule dequeue_ready_ok)
  let ?s = "s\<lparr>readyQueue := t, running := x\<rparr>"
  have s: "scheduler s = Some ?s" using nr d by (simp add: scheduler_def)
  have x: "x \<notin> set (fr @ rq @ sl)" "x < NPROC"
    using q by (auto simp: queues_ok_def queues4_def)
  have stat: "status (proc s i) = place fr (x # rq) sl i" for i
    using k st by (cases "i = running s") (auto simp: kwf_def procs_ok_def)
  have rx: "running s \<noteq> x" using st nr x by (auto simp: place_def)
  have "procs_ok (proc s) x fr rq sl"
    using k stat by (auto simp: kwf_def procs_ok_def place_def)
  moreover have "homes_ok x fr rq sl"
    using k r rx x one by (auto simp: kwf_def homes_ok_def)
  moreover have "status (proc s x) = READY"
    using stat [of x] x by (simp add: place_def)
  ultimately have "kinv ?s fr rq sl"
    using q1 k x by (simp add: kinv_def kwf_def)
  with s show ?thesis by blast
qed

section \<open>Waking\<close>

text \<open>Everything but \<^verbatim>\<open>next\<close> and \<^verbatim>\<open>status\<close> is kept.\<close>

definition same_body :: "heap \<Rightarrow> heap \<Rightarrow> bool" where
  "same_body h h' \<longleftrightarrow>
     (\<forall>i. pid (h' i) = pid (h i) \<and> ppid (h' i) = ppid (h i) \<and> priority (h' i) = priority (h i) \<and>
       event (h' i) = event (h i) \<and> exitCode (h' i) = exitCode (h i) \<and>
       child (h' i) = child (h i) \<and> sibling (h' i) = sibling (h i) \<and> parent (h' i) = parent (h i))"

lemma same_body_refl [simp]: "same_body h h"
  by (simp add: same_body_def)

lemma same_body_trans: "same_body h h1 \<Longrightarrow> same_body h1 h2 \<Longrightarrow> same_body h h2"
  by (simp add: same_body_def)

lemma same_body_prios: "same_body h h' \<Longrightarrow> prios h' = prios h"
  by (rule ext) (simp add: prios_def same_body_def)

lemma same_body_frame: "next_frame A h h' \<Longrightarrow> same_body h h'"
  by (simp add: same_body_def next_frame_fields)

lemma same_body_status: "same_body h (h(i := (h i)\<lparr>status := st\<rparr>))"
  by (simp add: same_body_def)

text \<open>The queues after \<^verbatim>\<open>wakeup\<close>: the sleepers on the event join the ready queue, in order.\<close>

definition woken :: "heap \<Rightarrow> int \<Rightarrow> nat list \<Rightarrow> nat list" where
  "woken h ev sl = filter (\<lambda>i. event (h i) = ev) sl"

definition unwoken :: "heap \<Rightarrow> int \<Rightarrow> nat list \<Rightarrow> nat list" where
  "unwoken h ev sl = filter (\<lambda>i. event (h i) \<noteq> ev) sl"

lemma woken_same:
  "same_body h h' \<Longrightarrow> woken h' ev sl = woken h ev sl"
  "same_body h h' \<Longrightarrow> unwoken h' ev sl = unwoken h ev sl"
  by (simp_all add: woken_def unwoken_def same_body_def)

lemma woken_Cons:
  "woken h ev (x # sl) = (if event (h x) = ev then x # woken h ev sl else woken h ev sl)"
  "unwoken h ev (x # sl) = (if event (h x) = ev then unwoken h ev sl else x # unwoken h ev sl)"
  by (simp_all add: woken_def unwoken_def)

definition wake_post :: "int \<Rightarrow> nat list \<Rightarrow> mt \<Rightarrow> mt \<Rightarrow> bool" where
  "wake_post ev sl s s' \<longleftrightarrow>
     same_body (proc s) (proc s') \<and>
     (\<forall>i. status (proc s' i) = (if i \<in> set (woken (proc s) ev sl) then READY else status (proc s i))) \<and>
     freeList s' = freeList s \<and> running s' = running s \<and> ctx s' = ctx s \<and> proc_base s' = proc_base s"

lemma wakeup_loop_ok:
  assumes "queues4 (proc s) (freeList s) (readyQueue s) (sleepList s) t fr rq sl ts"
  shows "\<exists>s' t'. wakeup_loop ev s t = Some (s', t') \<and>
    queues4 (proc s') (freeList s') (readyQueue s') None t' fr
      (fold (pins (prios (proc s))) (woken (proc s) ev sl) rq) []
      (fold (pins (prios (proc s))) (unwoken (proc s) ev sl) ts) \<and>
    wake_post ev sl s s'"
  using assms
proof (induction sl arbitrary: s t rq ts)
  case Nil
  then have "dequeue (proc s) (sleepList s) = (None, sleepList s)" and "sleepList s = None"
    by (simp_all add: queues4_def dequeue_def)
  with Nil show ?case
    by (subst wakeup_loop.simps) (simp add: woken_def unwoken_def wake_post_def)
next
  case (Cons x sl)
  from Cons.prems have "chain (nexts (proc s)) (sleepList s) (x # sl)" by (simp add: queues4_def)
  from pq.deq_law [OF this] obtain u where d: "dequeue (proc s) (sleepList s) = (Some x, u)"
    and u: "chain (nexts (proc s)) u sl" by blast
  with Cons.prems have q: "queues4 (proc s) (freeList s) (readyQueue s) u t fr rq sl ts"
    by (auto simp: queues4_def)
  have x: "x \<notin> set (fr @ rq @ sl @ ts)" "x < NPROC"
    using Cons.prems by (auto simp: queues4_def)
  show ?case
  proof (cases "event (proc s x) = ev")
    case True
    let ?s1 = "set_proc x (\<lambda>r. r\<lparr>status := READY\<rparr>) (s\<lparr>sleepList := u\<rparr>)"
    have l: "same_links (proc s) (proc ?s1)" by auto
    then have pr: "prios (proc ?s1) = prios (proc s)" by (simp add: same_links_def)
    from q have "queues4 (proc ?s1) (freeList s) (readyQueue s) u t fr rq sl ts"
      by (simp only: queues4_links [OF l])
    then have "queues4 (proc ?s1) (freeList s) (readyQueue ?s1) u t fr rq sl ts" by simp
    from enter_ready_ok [OF this x] obtain h r where
      e: "enter_ready x ?s1 = Some (?s1\<lparr>proc := h, readyQueue := r\<rparr>)"
      and q2: "queues4 h (freeList s) r u t fr (pins (prios (proc s)) x rq) sl ts"
      and f: "next_frame (insert x (set rq)) (proc ?s1) h" unfolding pr by blast
    let ?s2 = "s\<lparr>sleepList := u, proc := h, readyQueue := r\<rparr>"
    have e2: "enter_ready x ?s1 = Some ?s2" unfolding e by (simp add: set_proc_def)
    have "same_body (proc s) (proc ?s1)" by (simp add: set_proc_def same_body_def)
    from same_body_trans [OF this same_body_frame [OF f]] have b: "same_body (proc s) h" .
    then have b2: "same_body (proc s) (proc ?s2)" by simp
    have st: "status (h i) = (if i = x then READY else status (proc s i))" for i
      by (simp add: next_frame_fields [OF f])
    from q2 have "queues4 (proc ?s2) (freeList ?s2) (readyQueue ?s2) (sleepList ?s2) t fr
      (pins (prios (proc s)) x rq) sl ts" by simp
    have wk: "woken (proc s) ev (x # sl) = x # woken (proc s) ev sl"
      "unwoken (proc s) ev (x # sl) = unwoken (proc s) ev sl" using True by (simp_all add: woken_Cons)
    note IH = Cons.IH [OF \<open>queues4 (proc ?s2) _ _ _ _ _ _ _ _\<close>]
    obtain s' t' where
      w: "wakeup_loop ev ?s2 t = Some (s', t')" and
      q': "queues4 (proc s') (freeList s') (readyQueue s') None t' fr
        (fold (pins (prios (proc s))) (woken (proc s) ev (x # sl)) rq) []
        (fold (pins (prios (proc s))) (unwoken (proc s) ev (x # sl)) ts)"
      and p: "wake_post ev sl ?s2 s'"
      using IH unfolding same_body_prios [OF b2] woken_same [OF b2] wk fold_simps by blast
    have "wake_post ev (x # sl) s s'"
      using p same_body_trans [OF b] True
      by (auto simp: wake_post_def woken_same [OF b] woken_Cons st)
    moreover have "wakeup_loop ev s t = Some (s', t')"
      using d True e2 w by (subst wakeup_loop.simps) simp
    ultimately show ?thesis using q' by blast
  next
    case False
    from q have "queues4 (proc s) t (readyQueue s) u (freeList s) ts rq sl fr"
      by (simp only: queues4_swap(3))
    from enqueue_ok [OF this] x obtain h t1 where e: "enqueue (proc s) t x = Some (h, t1)"
      and q1: "queues4 h t1 (readyQueue s) u (freeList s) (pins (prios (proc s)) x ts) rq sl fr"
      and f: "next_frame (insert x (set ts)) (proc s) h" by auto
    let ?s2 = "s\<lparr>sleepList := u, proc := h\<rparr>"
    from f have b: "same_body (proc s) h" by (simp add: same_body_frame)
    then have b2: "same_body (proc s) (proc ?s2)" by simp
    from q1 have "queues4 (proc ?s2) (freeList ?s2) (readyQueue ?s2) (sleepList ?s2) t1 fr
      rq sl (pins (prios (proc s)) x ts)" by (simp add: queues4_swap(3) [of h t1])
    have wk: "woken (proc s) ev (x # sl) = woken (proc s) ev sl"
      "unwoken (proc s) ev (x # sl) = x # unwoken (proc s) ev sl" using False by (simp_all add: woken_Cons)
    note IH = Cons.IH [OF \<open>queues4 (proc ?s2) _ _ _ _ _ _ _ _\<close>]
    obtain s' t' where
      w: "wakeup_loop ev ?s2 t1 = Some (s', t')" and
      q': "queues4 (proc s') (freeList s') (readyQueue s') None t' fr
        (fold (pins (prios (proc s))) (woken (proc s) ev (x # sl)) rq) []
        (fold (pins (prios (proc s))) (unwoken (proc s) ev (x # sl)) ts)"
      and p: "wake_post ev sl ?s2 s'"
      using IH unfolding same_body_prios [OF b2] woken_same [OF b2] wk fold_simps by blast
    have "wake_post ev (x # sl) s s'"
      using p same_body_trans [OF b] False
      by (auto simp: wake_post_def next_frame_fields [OF f] woken_same [OF b] woken_Cons)
    moreover have "wakeup_loop ev s t = Some (s', t')"
      using d False e w by (subst wakeup_loop.simps) simp
    ultimately show ?thesis using q' by blast
  qed
qed

end
