(* ===== verification/KernelOps.thy ===== *)
theory KernelOps
  imports KernelInv
begin

text \<open>
  The handlers of \<^verbatim>\<open>PreLab3/Code\<close> against the invariant: each returns from a state that satisfies
  it, and its effect on the free list, the ready queue and the sleep list is an operation on lists.
\<close>

section \<open>Switching and sleeping\<close>

lemma kinv_queues: "kinv s fr rq sl \<Longrightarrow> queues4 (proc s) (freeList s) (readyQueue s) (sleepList s) None fr rq sl []"
  by (simp add: kinv_def kwf_def queues_ok_def)

lemma kinv_running: "kinv s fr rq sl \<Longrightarrow> running s \<notin> set (fr @ rq @ sl) \<and> running s < NPROC"
  by (simp add: kinv_def kwf_def homes_ok_def)

lemma kinv_descending: "kinv s fr rq sl \<Longrightarrow> descending (prios (proc s)) rq"
  by (simp add: kinv_def kwf_def queues_ok_def queues4_def)

lemma kinv_prio:
  "kinv s fr rq sl \<Longrightarrow> i \<in> insert (running s) (set rq \<union> set sl) \<Longrightarrow>
   prios (proc s) i = (if i = 0 then 0 else 1)"
proof -
  assume k: "kinv s fr rq sl" and i: "i \<in> insert (running s) (set rq \<union> set sl)"
  have "i < NPROC \<and> i \<notin> set fr"
    using kinv_queues [OF k] kinv_running [OF k] i by (auto simp: queues4_def)
  with k show "prios (proc s) i = (if i = 0 then 0 else 1)"
    by (simp add: kinv_def kwf_def procs_ok_def prios_def [of _ i])
qed

lemma kinv_sl_prio: "kinv s fr rq sl \<Longrightarrow> x \<in> set sl \<Longrightarrow> prios (proc s) x = 1"
proof -
  assume k: "kinv s fr rq sl" and x: "x \<in> set sl"
  then have "0 \<notin> set sl" by (simp add: kinv_def kwf_def homes_ok_def)
  with x have "x \<noteq> 0" by metis
  with kinv_prio [OF k, of x] x show "prios (proc s) x = 1" by simp
qed

text \<open>What a process may leave behind when it gives up the processor.\<close>

definition good_ctx :: "nat \<Rightarrow> ctx \<Rightarrow> bool" where
  "good_ctx i k \<longleftrightarrow> (if i = 0 then k = Main else k = Body \<or> k = InWait None)"

lemma kwf_ctx:
  "kwf s fr rq sl \<Longrightarrow> good_ctx i k \<Longrightarrow> kwf (s\<lparr>ctx := (ctx s)(i := k)\<rparr>) fr rq sl"
  by (auto simp: kwf_def ctx_ok_def good_ctx_def)

lemma kinv_ctx:
  "kinv s fr rq sl \<Longrightarrow> good_ctx i k \<Longrightarrow> kinv (s\<lparr>ctx := (ctx s)(i := k)\<rparr>) fr rq sl"
  by (simp add: kinv_def kwf_ctx)

lemma tswitch_ok:
  assumes k: "kinv s fr rq sl" and g: "good_ctx (running s) k"
  defines "rq1 \<equiv> pins (prios (proc s)) (running s) rq"
  shows "\<exists>s'. tswitch k s = Some s' \<and> running s' = hd rq1 \<and> kinv s' fr (tl rq1) sl \<and>
    next_frame (insert (running s) (set rq)) (proc s) (proc s') \<and>
    ctx s' = (ctx s)(running s := k) \<and> proc_base s' = proc_base s"
  using scheduler_ready [OF kinv_ctx [OF k g]] unfolding rq1_def tswitch_def by simp

text \<open>A process other than P0 always leaves somebody behind in the ready queue.\<close>

lemma kinv_ready_nonempty: "kinv s fr rq sl \<Longrightarrow> running s \<noteq> 0 \<Longrightarrow> rq \<noteq> []"
  by (auto simp: kinv_def kwf_def homes_ok_def)

text \<open>A field update of the running process that takes it off the processor.\<close>

lemma kinv_set_running:
  assumes "kinv s fr rq sl"
    and "nxt (f (proc s (running s))) = nxt (proc s (running s))"
    and "priority (f (proc s (running s))) = priority (proc s (running s))"
    and "pid (f (proc s (running s))) = pid (proc s (running s))"
  shows "kwf (set_proc (running s) f s) fr rq sl"
proof -
  have "same_links (proc s) (proc (set_proc (running s) f s))"
    using assms by (auto simp: set_proc_def)
  with assms show ?thesis
    by (auto simp: kinv_def kwf_def queues_ok_links) (auto simp: set_proc_def procs_ok_def)
qed

lemma sleep_ok:
  assumes k: "kinv s fr rq sl" and r0: "running s \<noteq> 0" and g: "good_ctx (running s) k"
  shows "\<exists>s'. sleep ev k s = Some s' \<and> running s' = hd rq \<and>
    kinv s' fr (tl rq) (sl @ [running s]) \<and> event (proc s' (running s)) = ev \<and>
    (\<forall>i. i \<noteq> running s \<longrightarrow> event (proc s' i) = event (proc s i)) \<and>
    ctx s' = (ctx s)(running s := k) \<and> proc_base s' = proc_base s"
proof -
  let ?f = "\<lambda>p. p\<lparr>event := ev, status := SLEEP\<rparr>"
  let ?s1 = "set_proc (running s) ?f s"
  obtain x xs where rq: "rq = x # xs" using kinv_ready_nonempty [OF k r0] by (cases rq) auto
  have w: "kwf ?s1 fr rq sl" by (rule kinv_set_running [OF k]) simp_all
  have r: "running s \<notin> set (fr @ rq @ sl)" "running s < NPROC" using kinv_running [OF k] by simp_all
  have l: "same_links (proc s) (proc ?s1)" by auto
  have "queues4 (proc ?s1) (sleepList s) (readyQueue s) (freeList s) None sl rq fr []"
    using kinv_queues [OF k] by (simp only: queues4_links [OF l] queues4_swap(2) [of _ "sleepList s"])
  from enqueue_ok [OF this] r obtain h q where
    e: "enqueue (proc ?s1) (sleepList s) (running s) = Some (h, q)"
    and q1: "queues4 h q (readyQueue s) (freeList s) None
      (pins (prios (proc ?s1)) (running s) sl) rq fr []"
    and f: "next_frame (insert (running s) (set sl)) (proc ?s1) h"
    by auto
  let ?s2 = "?s1\<lparr>proc := h, sleepList := q\<rparr>"
  let ?s3 = "?s2\<lparr>ctx := (ctx ?s2)(running s := k)\<rparr>"
  have "prios (proc ?s1) (running s) \<le> prios (proc ?s1) x" if "x \<in> set sl" for x
    using l kinv_prio [OF k, of "running s"] kinv_sl_prio [OF k that] by (simp add: same_links_def)
  then have sl: "pins (prios (proc ?s1)) (running s) sl = sl @ [running s]" by (rule pins_last)
  have st: "status (h i) = (if i = running s then SLEEP else status (proc s i))" for i
    by (simp add: next_frame_fields [OF f])
  have "queues_ok h (freeList s) (readyQueue s) q fr rq (sl @ [running s])"
    using q1 unfolding sl by (auto simp: queues_ok_def queues4_def set_proc_def)
  moreover have "procs_ok h (running s) fr rq (sl @ [running s])"
    using w unfolding kwf_def procs_ok_def
    by (auto simp: next_frame_fields [OF f] place_def)
  moreover have "homes_ok (running s) fr rq (sl @ [running s])"
    using k r0 by (auto simp: kinv_def kwf_def homes_ok_def)
  ultimately have "kwf ?s2 fr (x # xs) (sl @ [running s])"
    using k rq by (simp add: kinv_def kwf_def set_proc_def)
  from kwf_ctx [OF this g] have w3: "kwf ?s3 fr (x # xs) (sl @ [running s])" .
  have run3: "running ?s3 = running s" by (simp add: set_proc_def)
  have "status (proc ?s3 (running ?s3)) = place fr (x # xs) (sl @ [running s]) (running ?s3)"
    using r rq by (simp add: run3 st place_def)
  from scheduler_blocked [OF w3 this] obtain t where
    t: "scheduler ?s3 = Some (?s3\<lparr>readyQueue := t, running := x\<rparr>)"
      "kinv (?s3\<lparr>readyQueue := t, running := x\<rparr>) fr xs (sl @ [running s])"
    using r0 unfolding run3 by (auto simp: st)
  have "sleep ev k s = Some (?s3\<lparr>readyQueue := t, running := x\<rparr>)"
    using e t(1) by (simp add: sleep_def tswitch_def set_proc_def)
  with t(2) rq show ?thesis
    by (auto simp: next_frame_fields [OF f])
qed

section \<open>Waking\<close>

definition rq_woken :: "mt \<Rightarrow> int \<Rightarrow> nat list \<Rightarrow> nat list \<Rightarrow> nat list" where
  "rq_woken s ev rq sl = fold (pins (prios (proc s))) (woken (proc s) ev sl) rq"

lemma set_rq_woken: "set (rq_woken s ev rq sl) = set (woken (proc s) ev sl) \<union> set rq"
  by (simp add: rq_woken_def set_fold_pins)

lemma unwoken_kept: "descending pr sl \<Longrightarrow> fold (pins pr) (unwoken h ev sl) [] = unwoken h ev sl"
  using fold_pins_append [of pr "[]" "unwoken h ev sl"] by (simp add: unwoken_def descending_filter)

lemma place_woken:
  "set fr \<inter> set sl = {} \<Longrightarrow>
   place fr (rq_woken s ev rq sl) (unwoken (proc s) ev sl) i =
     (if i \<in> set (woken (proc s) ev sl) then READY else place fr rq sl i)"
  by (auto simp: place_def set_rq_woken woken_def unwoken_def)

lemma wakeup_ok:
  assumes k: "kwf s fr rq sl" and r: "running s \<notin> set (fr @ rq @ sl)"
  shows "\<exists>s'. wakeup ev s = Some s' \<and>
    kwf s' fr (rq_woken s ev rq sl) (unwoken (proc s) ev sl) \<and> wake_post ev sl s s'"
proof -
  have q: "queues4 (proc s) (freeList s) (readyQueue s) (sleepList s) None fr rq sl []"
    using k by (simp add: kwf_def queues_ok_def)
  have d: "descending (prios (proc s)) sl" using q by (simp add: queues4_def)
  obtain s1 t where
    w: "wakeup_loop ev s None = Some (s1, t)" and
    q1: "queues4 (proc s1) (freeList s1) (readyQueue s1) None t fr (rq_woken s ev rq sl) []
      (unwoken (proc s) ev sl)" and p: "wake_post ev sl s s1"
    using wakeup_loop_ok [OF q, of ev] unfolding rq_woken_def unwoken_kept [OF d] by blast
  let ?s' = "s1\<lparr>sleepList := t\<rparr>"
  have disj: "set fr \<inter> set sl = {}" "running s \<notin> set (woken (proc s) ev sl)"
    using q r by (auto simp: queues4_def woken_def)
  have b: "same_body (proc s) (proc s1)" using p by (simp add: wake_post_def)
  have "queues_ok (proc s1) (freeList s1) (readyQueue s1) t fr (rq_woken s ev rq sl)
    (unwoken (proc s) ev sl)"
    using q1 by (simp add: queues_ok_def queues4_def)
  moreover have "procs_ok (proc s1) (running s) fr (rq_woken s ev rq sl) (unwoken (proc s) ev sl)"
    using k p b disj(2) unfolding kwf_def procs_ok_def
    by (simp add: place_woken [OF disj(1)] wake_post_def same_body_def)
  moreover have "homes_ok (running s) fr (rq_woken s ev rq sl) (unwoken (proc s) ev sl)"
    using k unfolding kwf_def homes_ok_def by (auto simp: set_rq_woken woken_def unwoken_def)
  ultimately have "kwf ?s' fr (rq_woken s ev rq sl) (unwoken (proc s) ev sl)"
    using p k by (simp add: kwf_def wake_post_def)
  moreover have "wakeup ev s = Some ?s'" using w by (simp add: wakeup_def)
  moreover have "wake_post ev sl s ?s'" using p by (simp add: wake_post_def)
  ultimately show ?thesis by blast
qed

lemma wakeup_kinv:
  assumes k: "kinv s fr rq sl"
  shows "\<exists>s'. wakeup ev s = Some s' \<and>
    kinv s' fr (rq_woken s ev rq sl) (unwoken (proc s) ev sl) \<and> wake_post ev sl s s'"
proof -
  from k have w: "kwf s fr rq sl" and r: "running s \<notin> set (fr @ rq @ sl)"
    by (simp_all add: kinv_def)
  from wakeup_ok [OF w r] obtain s' where s': "wakeup ev s = Some s'"
    "kwf s' fr (rq_woken s ev rq sl) (unwoken (proc s) ev sl)" "wake_post ev sl s s'" by blast
  with k r have "kinv s' fr (rq_woken s ev rq sl) (unwoken (proc s) ev sl)"
    by (auto simp: kinv_def wake_post_def set_rq_woken woken_def unwoken_def)
  with s' show ?thesis by blast
qed

text \<open>The ready queue has its P0 last; the others all have priority 1.\<close>

lemma kinv_rq_filters:
  assumes "kinv s fr rq sl"
  shows "filter (\<lambda>i. 1 \<le> prios (proc s) i) rq = filter (\<lambda>i. i \<noteq> 0) rq"
    and "filter (\<lambda>i. prios (proc s) i < 1) rq = filter (\<lambda>i. i = 0) rq"
proof -
  have "prios (proc s) i = (if i = 0 then 0 else 1)" if "i \<in> set rq" for i
    using kinv_prio [OF assms] that by simp
  then show "filter (\<lambda>i. 1 \<le> prios (proc s) i) rq = filter (\<lambda>i. i \<noteq> 0) rq"
    "filter (\<lambda>i. prios (proc s) i < 1) rq = filter (\<lambda>i. i = 0) rq"
    by (auto intro!: filter_cong split: if_splits)
qed

lemma kinv_rq_split:
  assumes "kinv s fr rq sl"
  shows "filter (\<lambda>i. i \<noteq> 0) rq @ filter (\<lambda>i. i = 0) rq = rq"
  using fold_pins_same [OF kinv_descending [OF assms], of "[]" 1] kinv_rq_filters [OF assms]
  by simp

lemma kinv_zero_last: "kinv s fr rq sl \<Longrightarrow> zero_last rq"
  unfolding zero_last_def by (rule kinv_rq_split)

text \<open>In closed form: the woken go behind the READY processes and in front of P0.\<close>

lemma rq_woken_eq:
  assumes "kinv s fr rq sl"
  shows "rq_woken s ev rq sl = filter (\<lambda>i. i \<noteq> 0) rq @ woken (proc s) ev sl @ filter (\<lambda>i. i = 0) rq"
proof -
  have "prios (proc s) w = 1" if "w \<in> set (woken (proc s) ev sl)" for w
    using kinv_sl_prio [OF assms] that by (simp add: woken_def)
  then show ?thesis
    unfolding rq_woken_def using fold_pins_same [OF kinv_descending [OF assms], of _ 1]
    by (simp add: kinv_rq_filters [OF assms])
qed

lemma rq_woken_zero_last:
  assumes "kinv s fr rq sl"
  shows "zero_last (rq_woken s ev rq sl)"
proof -
  have "0 \<notin> set sl" using assms by (simp add: kinv_def kwf_def homes_ok_def)
  then have "filter (\<lambda>i. i = 0) (woken (proc s) ev sl) = []"
    "filter (\<lambda>i. i \<noteq> 0) (woken (proc s) ev sl) = woken (proc s) ev sl"
    unfolding woken_def by (induction sl) auto
  then show ?thesis
    by (simp add: rq_woken_eq [OF assms] zero_last_def filter_empty_conv del: neq0_conv)
qed

section \<open>Creating and raising processes\<close>

text \<open>A process \<open>p\<close> outside all queues becomes READY and enters the ready queue.\<close>

lemma kinv_add_ready:
  assumes k: "kinv s fr rq sl" and h: "same_links (proc s) h0"
    and other: "\<And>i. i \<noteq> p \<Longrightarrow> status (h0 i) = status (proc s i) \<and> pid (h0 i) = pid (proc s i)"
    and p: "p \<notin> set (fr @ rq @ sl)" "p < NPROC" "p \<noteq> running s" "status (h0 p) = READY"
      "pid (h0 p) = int p"
  shows "\<exists>h r. enter_ready p (s\<lparr>proc := h0\<rparr>) = Some (s\<lparr>proc := h, readyQueue := r\<rparr>) \<and>
    kinv (s\<lparr>proc := h, readyQueue := r\<rparr>) fr (pins (prios (proc s)) p rq) sl \<and>
    next_frame (insert p (set rq)) h0 h"
proof -
  let ?s0 = "s\<lparr>proc := h0\<rparr>"
  have pr: "prios h0 = prios (proc s)" using h by (simp add: same_links_def)
  have "queues4 (proc ?s0) (freeList s) (readyQueue ?s0) (sleepList s) None fr rq sl []"
    using kinv_queues [OF k] by (simp add: queues4_links [OF h])
  from enter_ready_ok [OF this _ p(2)] p(1) obtain h1 r where
    "enter_ready p ?s0 = Some (?s0\<lparr>proc := h1, readyQueue := r\<rparr>)"
    and "queues4 h1 (freeList s) r (sleepList s) None fr (pins (prios (proc ?s0)) p rq) sl []"
    and "next_frame (insert p (set rq)) (proc ?s0) h1"
    by (metis append_Nil2)
  then have e: "enter_ready p ?s0 = Some (?s0\<lparr>proc := h1, readyQueue := r\<rparr>)"
    and q: "queues4 h1 (freeList s) r (sleepList s) None fr (pins (prios (proc s)) p rq) sl []"
    and f: "next_frame (insert p (set rq)) h0 h1" by (simp_all add: pr)
  have "prios (proc s) i = priority (h0 i)" for i using pr by (metis prios_def)
  then have prio: "priority (h0 i) = priority (proc s i)" for i by (simp add: prios_def)
  have st: "status (h0 i) = (if i = p then READY else status (proc s i))"
    and pd: "i < NPROC \<Longrightarrow> pid (h0 i) = int i" for i
    using other [of i] p(4,5) k by (auto simp: kinv_def kwf_def procs_ok_def)
  have pl: "place fr (pins (prios (proc s)) p rq) sl i = (if i = p then READY else place fr rq sl i)" for i
    using p(1) by (auto simp: place_def set_pins)
  have "procs_ok h1 (running s) fr (pins (prios (proc s)) p rq) sl"
    using k unfolding kinv_def kwf_def procs_ok_def
    by (simp add: st pd pl prio next_frame_fields [OF f])
  moreover have "homes_ok (running s) fr (pins (prios (proc s)) p rq) sl"
    using k unfolding kinv_def kwf_def homes_ok_def by (auto simp: set_pins)
  ultimately have "kinv (s\<lparr>proc := h1, readyQueue := r\<rparr>) fr (pins (prios (proc s)) p rq) sl"
    using k p(3) q
    by (simp add: kinv_def kwf_def queues_ok_def set_pins st next_frame_fields [OF f])
  with e f show ?thesis by auto
qed

lemma kfork_full:
  assumes "kinv s [] rq sl"
  shows "kfork s = Some (s, -1)"
proof -
  from kinv_queues [OF assms] have "freeList s = None" by (simp add: queues4_def)
  then show ?thesis by (simp add: kfork_def dequeue_def)
qed

text \<open>The record a fork leaves in slot \<open>p\<close>, but for its \<^verbatim>\<open>next\<close> field.\<close>

definition forked :: "mt \<Rightarrow> nat \<Rightarrow> PROC" where
  "forked s p = (proc s p)\<lparr>status := READY, priority := 1, ppid := pid (proc s (running s)),
     parent := Some (running s)\<rparr>"

text \<open>Who points at the new child: the first child of the caller, or the caller itself.\<close>

definition fork_heap :: "mt \<Rightarrow> nat \<Rightarrow> heap" where
  "fork_heap s p =
     (let h = (proc s)(p := forked s p)
      in case child (proc s (running s)) of
           Some c \<Rightarrow> h(c := (h c)\<lparr>sibling := Some p\<rparr>)
         | None \<Rightarrow> h(running s := (h (running s))\<lparr>child := Some p\<rparr>))"

text \<open>The ready queue with a new process of priority 1: behind its peers, in front of P0.\<close>

definition add_ready :: "nat \<Rightarrow> nat list \<Rightarrow> nat list" where
  "add_ready p rq = filter (\<lambda>i. i \<noteq> 0) rq @ p # filter (\<lambda>i. i = 0) rq"

lemma pins_add_ready:
  assumes k: "kinv s fr rq sl" and p: "prios (proc s) p = 1"
  shows "pins (prios (proc s)) p rq = add_ready p rq"
  using pins_filter [OF kinv_descending [OF k], of p] p
  by (simp add: add_ready_def kinv_rq_filters [OF k])

lemma add_ready_filters:
  assumes "z \<noteq> 0"
  shows "filter (\<lambda>i. i \<noteq> 0) (add_ready z rq) = filter (\<lambda>i. i \<noteq> 0) rq @ [z]"
    and "filter (\<lambda>i. i = 0) (add_ready z rq) = filter (\<lambda>i. i = 0) rq"
    and "filter ((<) 0) (add_ready z rq) = filter ((<) 0) rq @ [z]"
  using assms by (auto simp: add_ready_def filter_empty_conv)

lemma add_ready_zero_last: "z \<noteq> 0 \<Longrightarrow> zero_last (add_ready z rq)"
  unfolding zero_last_def add_ready_filters by (simp add: add_ready_def)

text \<open>A process other than P0 that gives the processor up goes behind its peers.\<close>

lemma switch_queue:
  "kinv s fr rq sl \<Longrightarrow> running s \<noteq> 0 \<Longrightarrow>
   pins (prios (proc s)) (running s) rq = add_ready (running s) rq"
  by (rule pins_add_ready) (simp_all add: kinv_prio)

lemma fork_heap_links:
  assumes "running s \<noteq> p"
  shows "same_links ((proc s)(p := (proc s p)\<lparr>status := ZOMBIE, priority := 1\<rparr>)) (fork_heap s p)"
  using assms
  by (cases "child (proc s (running s))")
    (auto simp: fork_heap_def forked_def same_links_def nexts_def prios_def fun_eq_iff)

lemma fork_heap_fields:
  "pid (fork_heap s p i) = pid (proc s i)"
  "status (fork_heap s p i) = (if i = p then READY else status (proc s i))"
  by (cases "child (proc s (running s))"; auto simp: fork_heap_def forked_def)+

lemma kfork_eq:
  assumes "running s \<noteq> p" and "dequeue (proc s) (freeList s) = (Some p, u)"
  shows "kfork s = do {
    s4 \<leftarrow> enter_ready p (s\<lparr>freeList := u, ctx := (ctx s)(p := Body), proc := fork_heap s p\<rparr>);
    Some (s4, pid (proc s4 p)) }"
proof -
  have ord: "s\<lparr>freeList := u, ctx := (ctx s)(p := Body), proc := h\<rparr> =
    s\<lparr>freeList := u, proc := h, ctx := (ctx s)(p := Body)\<rparr>" for h by (cases s) simp
  from assms show ?thesis unfolding ord
    by (cases "child (proc s (running s))")
      (simp_all add: kfork_def fork_heap_def forked_def set_proc_def)
qed

lemma kfork_ok:
  assumes k: "kinv s (p # fr) rq sl"
  shows "\<exists>s'. kfork s = Some (s', int p) \<and> kinv s' fr (add_ready p rq) sl \<and>
    next_frame (insert p (set rq)) (fork_heap s p) (proc s') \<and> running s' = running s \<and>
    ctx s' = (ctx s)(p := Body) \<and> proc_base s' = proc_base s"
proof -
  from kinv_queues [OF k] have "chain (nexts (proc s)) (freeList s) (p # fr)"
    by (simp add: queues4_def)
  from pq.deq_law [OF this] obtain u where
    d: "dequeue (proc s) (freeList s) = (Some p, u)" and u: "chain (nexts (proc s)) u fr" by blast
  have p: "p < NPROC" "p \<noteq> 0" "p \<noteq> 1" "p \<noteq> running s" "p \<notin> set (fr @ rq @ sl)"
    using kinv_queues [OF k] k by (auto simp: queues4_def kinv_def kwf_def homes_ok_def)
  let ?z = "(proc s p)\<lparr>status := ZOMBIE, priority := 1\<rparr>"
  let ?s0 = "s\<lparr>freeList := u, ctx := (ctx s)(p := Body), proc := (proc s)(p := ?z)\<rparr>"
  have pr: "prios ((proc s)(p := ?z)) = (prios (proc s))(p := 1)"
    and nx: "nexts ((proc s)(p := ?z)) = nexts (proc s)"
    by (auto simp: prios_def nexts_def fun_eq_iff)
  have desc: "descending ((prios (proc s))(p := 1)) xs = descending (prios (proc s)) xs"
    if "p \<notin> set xs" for xs
    using that by (induction xs) auto
  have "queues_ok ((proc s)(p := ?z)) u (readyQueue s) (sleepList s) fr rq sl"
    using kinv_queues [OF k] u p(5)
    by (auto simp: queues_ok_def queues4_def pr nx desc simp del: fun_upd_apply)
  moreover have "procs_ok ((proc s)(p := ?z)) (running s) fr rq sl"
    using k p by (auto simp: kinv_def kwf_def procs_ok_def place_def)
  ultimately have k0: "kinv ?s0 fr rq sl"
    using k p by (auto simp: kinv_def kwf_def homes_ok_def ctx_ok_def)
  have pid: "pid (fork_heap s p p) = int p"
    using k p by (simp add: fork_heap_fields kinv_def kwf_def procs_ok_def)
  have same: "?s0\<lparr>proc := fork_heap s p\<rparr> =
      s\<lparr>freeList := u, ctx := (ctx s)(p := Body), proc := fork_heap s p\<rparr>" by simp
  have l: "same_links (proc ?s0) (fork_heap s p)" using fork_heap_links [OF p(4) [symmetric]] by simp
  have o: "status (fork_heap s p i) = status (proc ?s0 i) \<and> pid (fork_heap s p i) = pid (proc ?s0 i)"
    if "i \<noteq> p" for i using that by (simp add: fork_heap_fields)
  have pr0: "p \<noteq> running ?s0" "status (fork_heap s p p) = READY"
    using p(4) by (simp_all add: fork_heap_fields)
  from kinv_add_ready [OF k0 l o p(5) p(1) pr0 pid] obtain h r where
    e: "enter_ready p (?s0\<lparr>proc := fork_heap s p\<rparr>) = Some (?s0\<lparr>proc := h, readyQueue := r\<rparr>)"
    and k1: "kinv (?s0\<lparr>proc := h, readyQueue := r\<rparr>) fr (pins (prios (proc ?s0)) p rq) sl"
    and f: "next_frame (insert p (set rq)) (fork_heap s p) h" by blast
  have "pins (prios (proc ?s0)) p rq = add_ready p rq"
    by (rule pins_add_ready [OF k0]) (simp add: pr)
  with k1 have "kinv (?s0\<lparr>proc := h, readyQueue := r\<rparr>) fr (add_ready p rq) sl" by (simp only:)
  moreover have "kfork s = Some (?s0\<lparr>proc := h, readyQueue := r\<rparr>, int p)"
    using kfork_eq [OF p(4) [symmetric] d] e unfolding same by (simp add: next_frame_fields [OF f] pid)
  ultimately show ?thesis using f by auto
qed

end
