(* ===== verification/KernelFamily.thy ===== *)
theory KernelFamily
  imports KernelOps
begin

text \<open>
  The family side of \<^verbatim>\<open>PreLab3/Code/t.c\<close>: child lists threaded through \<^verbatim>\<open>sibling\<close>, and the three
  handlers that walk them. Nothing in the code keeps these lists free of cycles, so the lemmas
  assume of the lists a handler walks that they end, and say what it does then.
\<close>

section \<open>Child lists\<close>

definition sibs :: "heap \<Rightarrow> nat \<Rightarrow> ptr" where
  "sibs h i = sibling (h i)"

definition kids :: "heap \<Rightarrow> nat \<Rightarrow> nat list \<Rightarrow> bool" where
  "kids h i cs \<longleftrightarrow> chain (sibs h) (child (h i)) cs"

lemma sibs_upd [chain_simps]: "sibs (h(p := r)) = (sibs h)(p := sibling r)"
  by (rule ext) (simp add: sibs_def)

lemma sibs_cong: "(\<And>i. sibling (h' i) = sibling (h i)) \<Longrightarrow> sibs h' = sibs h"
  by (rule ext) (simp add: sibs_def)

lemma kids_cong:
  "(\<And>i. sibling (h' i) = sibling (h i)) \<Longrightarrow> (\<And>i. child (h' i) = child (h i)) \<Longrightarrow>
   kids h' i cs = kids h i cs"
  by (simp add: kids_def sibs_cong [of h' h])

lemma last_sibling_ok:
  "chain (sibs h) c xs \<Longrightarrow> last_sibling h c prev = Some (if xs = [] then prev else Some (last xs))"
proof (induction xs arbitrary: c prev)
  case Nil
  then show ?case by (subst last_sibling.simps) simp
next
  case (Cons x xs)
  from Cons.prems have "chain (sibs h) (sibling (h x)) xs" by (simp add: sibs_def [of h x])
  from Cons.IH [OF this] Cons.prems show ?case by (subst last_sibling.simps) simp
qed

lemma adopt_ok:
  "chain (sibs h) c xs \<Longrightarrow> \<exists>h'. adopt h c = Some h' \<and>
     (\<forall>i. h' i = (if i \<in> set xs then (h i)\<lparr>parent := Some 1, ppid := pid (h 1)\<rparr> else h i))"
proof (induction xs arbitrary: h c)
  case Nil
  then show ?case by (subst adopt.simps) simp
next
  case (Cons x xs)
  let ?h = "h(x := (h x)\<lparr>parent := Some 1, ppid := pid (h 1)\<rparr>)"
  from Cons.prems have c: "c = Some x" "chain (sibs h) (sibling (h x)) xs"
    by (simp_all add: sibs_def [of h x])
  have "sibs ?h = sibs h" by (rule sibs_cong) simp
  with c have "chain (sibs ?h) (sibling (?h x)) xs" by simp
  from Cons.IH [OF this] obtain h' where h': "adopt ?h (sibling (?h x)) = Some h'"
    "\<forall>i. h' i = (if i \<in> set xs then (?h i)\<lparr>parent := Some 1, ppid := pid (?h 1)\<rparr> else ?h i)"
    by blast
  let ?h1 = "h(x := (h x)\<lparr>parent := Some 1\<rparr>)"
  have h1: "?h1(x := (?h1 x)\<lparr>ppid := pid (?h1 1)\<rparr>) = ?h" by (auto simp: fun_eq_iff)
  have "adopt h c = adopt ?h (sibling (?h x))"
    by (subst adopt.simps) (simp only: c(1) option.case Let_def h1)
  with h'(1) have "adopt h c = Some h'" by simp
  moreover have "pid (?h 1) = pid (h 1)" by simp
  then have "\<forall>i. h' i = (if i \<in> set (x # xs) then (h i)\<lparr>parent := Some 1, ppid := pid (h 1)\<rparr> else h i)"
    using h'(2) by auto
  ultimately show ?case by blast
qed

lemma findZombieChild_ok:
  "chain (sibs h) c xs \<Longrightarrow> findZombieChild h c = Some (List.find (\<lambda>i. status (h i) = ZOMBIE) xs)"
proof (induction xs arbitrary: c)
  case Nil
  then show ?case by (subst findZombieChild.simps) simp
next
  case (Cons x xs)
  from Cons.prems have "chain (sibs h) (sibling (h x)) xs" by (simp add: sibs_def [of h x])
  from Cons.IH [OF this] Cons.prems show ?case by (subst findZombieChild.simps) simp
qed

lemma find_prev_ok:
  "chain (sibs h) c (ys @ z # zs) \<Longrightarrow> z \<notin> set ys \<Longrightarrow>
   find_prev h z c prev = Some (if ys = [] then prev else Some (last ys))"
proof (induction ys arbitrary: c prev)
  case Nil
  then show ?case by (subst find_prev.simps) simp
next
  case (Cons y ys)
  from Cons.prems have "chain (sibs h) (sibling (h y)) (ys @ z # zs)" by (simp add: sibs_def [of h y])
  from Cons.IH [OF this] Cons.prems show ?case by (subst find_prev.simps) simp
qed

section \<open>Exit\<close>

lemma kinv_heap:
  assumes "kinv s fr rq sl" and "same_links (proc s) h"
    and "\<And>i. status (h i) = status (proc s i)" and "\<And>i. pid (h i) = pid (proc s i)"
  shows "kinv (s\<lparr>proc := h\<rparr>) fr rq sl"
proof -
  have "prios h = prios (proc s)" using assms(2) by (simp add: same_links_def)
  then have "priority (h i) = priority (proc s i)" for i by (metis prios_def)
  with assms show ?thesis by (simp add: kinv_def kwf_def queues_ok_links procs_ok_def)
qed

definition family_same :: "heap \<Rightarrow> heap \<Rightarrow> bool" where
  "family_same h h' \<longleftrightarrow> same_links h h' \<and>
     (\<forall>i. status (h' i) = status (h i) \<and> pid (h' i) = pid (h i) \<and> event (h' i) = event (h i) \<and>
       exitCode (h' i) = exitCode (h i))"

lemma give_away_ok:
  assumes one: "kids (proc s) 1 cs" and own: "kids (proc s) (running s) ds"
    and disj: "set cs \<inter> set ds = {}" and r: "running s \<noteq> 1"
  shows "\<exists>h. give_away s = Some (s\<lparr>proc := h\<rparr>) \<and> kids h 1 (cs @ ds) \<and> family_same (proc s) h \<and>
    (\<forall>i \<in> set ds. parent (h i) = Some 1 \<and> ppid (h i) = pid (proc s 1)) \<and>
    (\<forall>i. i \<notin> set ds \<longrightarrow> parent (h i) = parent (proc s i) \<and> ppid (h i) = ppid (proc s i))"
proof -
  let ?own = "child (proc s (running s))"
  let ?h1 = "if cs = [] then (proc s)(1 := (proc s 1)\<lparr>child := ?own\<rparr>)
    else (proc s)(last cs := (proc s (last cs))\<lparr>sibling := ?own\<rparr>)"
  have l: "last_sibling (proc s) (child (proc s 1)) None =
      Some (if cs = [] then None else Some (last cs))"
    using one by (intro last_sibling_ok) (simp add: kids_def)
  have h1: "give_away s = do { h \<leftarrow> adopt ?h1 (child (?h1 (running s))); Some (s\<lparr>proc := h\<rparr>) }"
    using l by (cases cs) (simp_all add: give_away_def set_proc_def)
  have sib1: "sibs ?h1 = (if cs = [] then sibs (proc s) else (sibs (proc s))(last cs := ?own))"
    by (rule ext) (simp add: sibs_def)
  have child1: "child (?h1 i) = (if cs = [] \<and> i = 1 then ?own else child (proc s i))" for i
    by simp
  have "last cs \<notin> set ds" if "cs \<noteq> []" using disj that last_in_set [OF that] by blast
  then have own1: "chain (sibs ?h1) (child (?h1 (running s))) ds"
    using own r unfolding sib1 child1 kids_def by (auto simp: chain_simps simp del: fun_upd_apply)
  have one1: "chain (sibs ?h1) (child (?h1 1)) (cs @ ds)"
  proof (cases cs rule: rev_cases)
    case Nil
    with own show ?thesis unfolding sib1 child1 by (simp add: kids_def)
  next
    case (snoc ys y)
    have "chain ((sibs (proc s))(y := ?own)) (child (proc s 1)) (ys @ y # ds)"
      using one own disj snoc by (intro chain_append_chain) (auto simp: kids_def)
    with snoc show ?thesis unfolding sib1 child1 by simp
  qed
  from adopt_ok [OF own1] obtain h where h: "adopt ?h1 (child (?h1 (running s))) = Some h"
    "\<forall>i. h i = (if i \<in> set ds then (?h1 i)\<lparr>parent := Some 1, ppid := pid (?h1 1)\<rparr> else ?h1 i)"
    by blast
  have "pid (?h1 1) = pid (proc s 1)" by simp
  note hi = h(2) [rule_format, unfolded this]
  have "sibs h = sibs ?h1" by (rule sibs_cong) (simp add: hi)
  moreover have "child (h 1) = child (?h1 1)" by (simp add: hi)
  ultimately have "kids h 1 (cs @ ds)" using one1 by (simp only: kids_def)
  moreover have "family_same (proc s) h"
    by (auto simp: family_same_def same_links_def nexts_def prios_def fun_eq_iff hi)
  ultimately show ?thesis using h1 h(1) by (auto simp: hi)
qed

text \<open>The event a dying process announces: the address of its parent, or of P1.\<close>

definition exit_event :: "mt \<Rightarrow> int" where
  "exit_event s = (case parent (proc s (running s)) of
     Some a \<Rightarrow> proc_addr s a | None \<Rightarrow> proc_addr s 1)"

lemma woken_events:
  assumes "\<And>i. event (h' i) = event (h i)"
  shows "woken h' ev sl = woken h ev sl" and "unwoken h' ev sl = unwoken h ev sl"
  by (simp_all add: woken_def unwoken_def assms)

lemma proc_addr_proc [simp]: "proc_addr (s\<lparr>proc := h\<rparr>) i = proc_addr s i"
  by (simp add: proc_addr_def)

text \<open>The record of the dying process, once its children are with P1.\<close>

definition died :: "int \<Rightarrow> nat \<Rightarrow> heap \<Rightarrow> heap" where
  "died v r h = h(r := (h r)\<lparr>exitCode := v, status := ZOMBIE\<rparr>)"

text \<open>What \<^verbatim>\<open>kexit\<close> does after the children are given away.\<close>

lemma kexit_given:
  assumes k: "kinv s fr rq sl" and r: "running s \<noteq> 0" "running s \<noteq> 1"
    and g: "give_away s = Some (s\<lparr>proc := h\<rparr>)" and fam: "family_same (proc s) h"
  defines "ev \<equiv> exit_event (s\<lparr>proc := h\<rparr>)"
  shows "\<exists>s'. kexit v s = Some s' \<and> running s' = hd (rq_woken s ev rq sl) \<and>
    kinv s' fr (tl (rq_woken s ev rq sl)) (unwoken (proc s) ev sl) \<and>
    status (proc s' (running s)) = ZOMBIE \<and> same_body (died v (running s) h) (proc s')"
proof -
  let ?r = "running s"
  let ?rq1 = "rq_woken s ev rq sl"
  let ?h2 = "died v ?r h"
  let ?s2 = "s\<lparr>proc := ?h2\<rparr>"
  have k1: "kinv (s\<lparr>proc := h\<rparr>) fr rq sl"
    using fam by (intro kinv_heap [OF k]) (simp_all add: family_same_def)
  have w2: "kwf ?s2 fr rq sl"
    using kinv_set_running [OF k1, of "\<lambda>p. p\<lparr>exitCode := v, status := ZOMBIE\<rparr>"]
    by (simp add: set_proc_def died_def)
  have ev: "(case parent (h ?r) of None \<Rightarrow> proc_addr s 1 | Some a \<Rightarrow> proc_addr s a) = ev"
    by (simp add: ev_def exit_event_def split: option.split)
  have rn: "running ?s2 \<notin> set (fr @ rq @ sl)" using kinv_running [OF k] by simp
  have events: "event (?h2 i) = event (proc s i)" for i
    using fam by (simp add: family_same_def died_def)
  have pr: "prios ?h2 = prios (proc s)"
    using fam by (auto simp: family_same_def same_links_def prios_def fun_eq_iff died_def)
  have rq1: "rq_woken ?s2 ev rq sl = ?rq1"
    by (simp add: rq_woken_def woken_events [of ?h2 "proc s", OF events] pr)
  have wo: "unwoken (proc ?s2) ev sl = unwoken (proc s) ev sl"
    using woken_events(2) [of ?h2 "proc s", OF events] by simp
  from wakeup_ok [OF w2 rn, of ev, unfolded rq1 wo] obtain s3 where
    w: "wakeup ev ?s2 = Some s3" and k3: "kwf s3 fr ?rq1 (unwoken (proc s) ev sl)"
    and p3: "wake_post ev sl ?s2 s3" by blast
  let ?s4 = "s3\<lparr>ctx := (ctx s3)(?r := Body)\<rparr>"
  have r3: "running s3 = ?r" using p3 by (simp add: wake_post_def)
  have k4: "kwf ?s4 fr ?rq1 (unwoken (proc s) ev sl)"
    using r by (intro kwf_ctx [OF k3]) (simp add: good_ctx_def)
  have notin: "?r \<notin> set (woken ?h2 ev sl)" "?r \<notin> set fr" "?r \<notin> set ?rq1"
    "?r \<notin> set (unwoken (proc s) ev sl)"
    using kinv_running [OF k] by (auto simp: woken_def unwoken_def set_rq_woken)
  then have st3: "status (proc s3 ?r) = ZOMBIE" using p3 by (simp add: wake_post_def died_def)
  have "0 \<in> set rq" using k r by (simp add: kinv_def kwf_def homes_ok_def)
  then obtain x xs where x: "?rq1 = x # xs"
    by (cases ?rq1) (auto simp: set_rq_woken dest: arg_cong [of _ _ set])
  have "status (proc ?s4 (running ?s4)) = place fr (x # xs) (unwoken (proc s) ev sl) (running ?s4)"
    using notin kinv_running [OF k] by (simp add: r3 st3 place_def x)
  from scheduler_blocked [OF k4 [unfolded x] this] obtain t where
    t: "scheduler ?s4 = Some (?s4\<lparr>readyQueue := t, running := x\<rparr>)"
      "kinv (?s4\<lparr>readyQueue := t, running := x\<rparr>) fr xs (unwoken (proc s) ev sl)"
    using r by (auto simp: r3 st3)
  have "kexit v s = Some (?s4\<lparr>readyQueue := t, running := x\<rparr>)"
    using g w t(1) r ev by (simp add: kexit_def set_proc_def tswitch_def r3 died_def Let_def cong: option.case_cong)
  moreover have "same_body ?h2 (proc s3)" using p3 by (simp add: wake_post_def)
  ultimately show ?thesis using t(2) x st3 by auto
qed

text \<open>A process that is on its own child list has P1 for a parent by then.\<close>

definition parent_event :: "nat list \<Rightarrow> mt \<Rightarrow> int" where
  "parent_event ds s = (if running s \<in> set ds then proc_addr s 1 else exit_event s)"

lemma kexit_ok:
  assumes k: "kinv s fr rq sl" and r: "running s \<noteq> 0" "running s \<noteq> 1"
    and one: "kids (proc s) 1 cs" and own: "kids (proc s) (running s) ds"
    and disj: "set cs \<inter> set ds = {}"
  defines "rq1 \<equiv> rq_woken s (parent_event ds s) rq sl"
  shows "\<exists>s'. kexit v s = Some s' \<and> running s' = hd rq1 \<and>
    kinv s' fr (tl rq1) (unwoken (proc s) (parent_event ds s) sl) \<and>
    status (proc s' (running s)) = ZOMBIE \<and> exitCode (proc s' (running s)) = v \<and>
    kids (proc s') 1 (cs @ ds) \<and>
    (\<forall>i \<in> set ds. parent (proc s' i) = Some 1 \<and> ppid (proc s' i) = 1)"
proof -
  let ?r = "running s"
  from give_away_ok [OF one own disj r(2)] obtain h where
    g: "give_away s = Some (s\<lparr>proc := h\<rparr>)" and kd: "kids h 1 (cs @ ds)" and
    fam: "family_same (proc s) h" and
    ds: "\<forall>i \<in> set ds. parent (h i) = Some 1 \<and> ppid (h i) = pid (proc s 1)" and
    nds: "\<forall>i. i \<notin> set ds \<longrightarrow> parent (h i) = parent (proc s i) \<and> ppid (h i) = ppid (proc s i)"
    by blast
  have ev: "exit_event (s\<lparr>proc := h\<rparr>) = parent_event ds s"
    using nds ds by (simp add: exit_event_def parent_event_def split: option.split)
  from kexit_given [OF k r g fam, of v] obtain s' where
    s': "kexit v s = Some s'" "running s' = hd rq1"
      "kinv s' fr (tl rq1) (unwoken (proc s) (parent_event ds s) sl)"
      "status (proc s' ?r) = ZOMBIE"
    and b: "same_body (died v ?r h) (proc s')" unfolding ev rq1_def by blast
  have "pid (proc s 1) = 1" using k by (simp add: kinv_def kwf_def procs_ok_def NPROC_def)
  with b ds have "exitCode (proc s' ?r) = v"
    "\<forall>i \<in> set ds. parent (proc s' i) = Some 1 \<and> ppid (proc s' i) = 1"
    by (auto simp: same_body_def died_def)
  moreover from b have "kids (proc s') 1 (cs @ ds)"
    using kd kids_cong [of "proc s'" h 1] by (simp add: same_body_def died_def)
  ultimately show ?thesis using s' by blast
qed

text \<open>The other way round: when the two loops of \<^verbatim>\<open>kexit\<close> end, so do the lists, and they have no process in common.\<close>

lemma last_sibling_ends:
  assumes "last_sibling h c prev = Some r"
  shows "\<exists>xs. chain (sibs h) c xs"
  using assms
proof (induction rule: last_sibling.raw_induct [rotated, consumes 1, case_names step])
  case (step go h c prev r)
  show ?case
  proof (cases c)
    case (Some i)
    with step.hyps have "go h (sibling (h i)) (Some i) = Some r" by simp
    from step.IH [OF this] obtain xs where "chain (sibs h) (sibling (h i)) xs" ..
    with Some have "chain (sibs h) c (i # xs)" by (simp add: sibs_def [of h i])
    then show ?thesis ..
  qed (auto intro: exI [of _ "[]"])
qed

lemma adopt_ends:
  assumes "adopt h c = Some h'"
  shows "\<exists>xs. chain (sibs h) c xs"
  using assms
proof (induction rule: adopt.raw_induct [rotated, consumes 1, case_names step])
  case (step go h c h')
  show ?case
  proof (cases c)
    case (Some i)
    let ?h1 = "h(i := (h i)\<lparr>parent := Some 1\<rparr>)"
    let ?h2 = "?h1(i := (?h1 i)\<lparr>ppid := pid (?h1 1)\<rparr>)"
    have "go ?h2 (sibling (?h2 i)) = Some h'" using step.hyps Some by (simp add: Let_def del: fun_upd_apply)
    from step.IH [OF this] obtain xs where xs: "chain (sibs ?h2) (sibling (?h2 i)) xs" ..
    have "sibs ?h2 = sibs h" by (rule sibs_cong) simp
    then have "chain (sibs h) (sibs h i) xs" using xs by (simp add: sibs_def [of h i])
    with Some have "chain (sibs h) c (i # xs)" by simp
    then show ?thesis ..
  qed (auto intro: exI [of _ "[]"])
qed

lemma give_away_ends:
  assumes "give_away s = Some s1" and r: "running s \<noteq> 1"
  obtains cs ds where "kids (proc s) 1 cs" and "kids (proc s) (running s) ds" and "set cs \<inter> set ds = {}"
proof -
  let ?own = "child (proc s (running s))"
  from assms(1) obtain q where "last_sibling (proc s) (child (proc s 1)) None = Some q"
    unfolding give_away_def bind_eq_Some_conv by blast
  from last_sibling_ends [OF this] obtain cs where cs: "chain (sibs (proc s)) (child (proc s 1)) cs" ..
  let ?h1 = "if cs = [] then (proc s)(1 := (proc s 1)\<lparr>child := ?own\<rparr>)
    else (proc s)(last cs := (proc s (last cs))\<lparr>sibling := ?own\<rparr>)"
  have "\<exists>h. adopt ?h1 (child (?h1 (running s))) = Some h"
    using assms(1) last_sibling_ok [OF cs, of None]
    by (cases cs) (auto simp: give_away_def set_proc_def bind_eq_Some_conv Let_def)
  then obtain ds where ds: "chain (sibs ?h1) (child (?h1 (running s))) ds" using adopt_ends by blast
  have sib1: "sibs ?h1 = (if cs = [] then sibs (proc s) else (sibs (proc s))(last cs := ?own))"
    by (rule ext) (simp add: sibs_def)
  have child1: "child (?h1 (running s)) = ?own" using r by simp
  note ds = ds [unfolded sib1 child1]
  have "kids (proc s) (running s) ds \<and> set cs \<inter> set ds = {}"
  proof (cases "cs = []")
    case False
    let ?l = "last cs"
    from ds False have d: "chain ((sibs (proc s))(?l := ?own)) ?own ds" by simp
    have "?l \<notin> set ds"
    proof
      assume "?l \<in> set ds"
      then obtain us ws where us: "ds = us @ ?l # ws" by (auto simp: in_set_conv_decomp)
      from chain_suffix [OF d [unfolded us]] have "chain ((sibs (proc s))(?l := ?own)) ?own ws" by simp
      from chain_det [OF this d] have "length ws = length ds" by simp
      with us show False by simp
    qed
    with d have own: "chain (sibs (proc s)) ?own ds" by (simp add: chain_upd)
    have "x \<notin> set ds" if x: "x \<in> set cs" for x
    proof
      assume "x \<in> set ds"
      with x obtain us ws vs zs where u: "ds = us @ x # ws" "cs = vs @ x # zs" by (auto simp: in_set_conv_decomp)
      from chain_suffix [OF own [unfolded u(1)]] chain_suffix [OF cs [unfolded u(2)]] have "ws = zs" by (rule chain_det)
      then have "?l \<in> set ds" using u by (cases zs) auto
      with \<open>?l \<notin> set ds\<close> show False ..
    qed
    with own show ?thesis by (auto simp: kids_def)
  qed (use ds in \<open>simp add: kids_def\<close>)
  with that [of cs ds] cs show thesis by (simp add: kids_def)
qed

text \<open>Whatever the lists look like: if the handler returns, the queues are in order.\<close>

lemma family_same_trans: "family_same h h1 \<Longrightarrow> family_same h1 h2 \<Longrightarrow> family_same h h2"
  by (auto simp: family_same_def same_links_def)

lemma family_same_upd:
  "nxt r = nxt (h i) \<Longrightarrow> priority r = priority (h i) \<Longrightarrow> status r = status (h i) \<Longrightarrow>
   pid r = pid (h i) \<Longrightarrow> event r = event (h i) \<Longrightarrow> exitCode r = exitCode (h i) \<Longrightarrow>
   family_same h (h(i := r))"
  by (auto simp: family_same_def)

lemma adopt_family:
  assumes "adopt h c = Some h'"
  shows "family_same h h'"
  using assms
proof (induction rule: adopt.raw_induct [rotated, consumes 1, case_names step])
  case (step adopt h c h')
  show ?case
  proof (cases c)
    case None
    with step show ?thesis by (auto simp: family_same_def)
  next
    case (Some i)
    let ?h1 = "h(i := (h i)\<lparr>parent := Some 1\<rparr>)"
    let ?h2 = "?h1(i := (?h1 i)\<lparr>ppid := pid (?h1 1)\<rparr>)"
    have "adopt ?h2 (sibling (?h2 i)) = Some h'" using step(2) Some by (simp add: Let_def del: fun_upd_apply)
    from step(1) [OF this] have "family_same ?h2 h'" .
    moreover have "family_same h ?h1" by (rule family_same_upd) simp_all
    moreover have "family_same ?h1 ?h2" by (rule family_same_upd) simp_all
    ultimately show ?thesis using family_same_trans by blast
  qed
qed

lemma give_away_family:
  assumes "give_away s = Some s1"
  shows "\<exists>h. s1 = s\<lparr>proc := h\<rparr> \<and> family_same (proc s) h"
proof -
  let ?own = "child (proc s (running s))"
  let ?link = "\<lambda>prev. case prev of
      Some c \<Rightarrow> set_proc c (\<lambda>r. r\<lparr>sibling := ?own\<rparr>) s
    | None \<Rightarrow> set_proc 1 (\<lambda>r. r\<lparr>child := ?own\<rparr>) s"
  from assms obtain prev h where
    h: "adopt (proc (?link prev)) (child (proc (?link prev) (running (?link prev)))) = Some h"
    and s1: "s1 = ?link prev\<lparr>proc := h\<rparr>"
    unfolding give_away_def Let_def bind_eq_Some_conv by auto
  have "family_same (proc s) (proc (?link prev))"
    by (cases prev) (simp_all add: family_same_upd)
  from family_same_trans [OF this adopt_family [OF h]] have "family_same (proc s) h" .
  moreover have "s1 = s\<lparr>proc := h\<rparr>" unfolding s1 by (cases prev) (simp_all add: set_proc_def)
  ultimately show ?thesis by blast
qed

lemma kexit_returns:
  assumes k: "kinv s fr rq sl" and r: "running s \<noteq> 0" and e: "kexit v s = Some s'"
  shows "kafter s'"
proof (cases "running s = 1")
  case True
  with k e r show ?thesis by (auto simp: kexit_def intro: kafter_other)
next
  case False
  with e obtain s1 where "give_away s = Some s1" by (auto simp: kexit_def bind_eq_Some_conv)
  with give_away_family obtain h where g: "give_away s = Some (s\<lparr>proc := h\<rparr>)"
    and "family_same (proc s) h" by blast
  from kexit_given [OF k r False this, of v] e show ?thesis
    by (auto intro: kafter_picked [OF _ _ rq_woken_zero_last [OF k]])
qed

section \<open>Waiting\<close>

text \<open>A ZOMBIE is on no queue, and neither P0 nor P1 is one.\<close>

lemma kinv_zombie:
  assumes k: "kinv s fr rq sl" and z: "status (proc s z) = ZOMBIE"
  shows "z \<notin> set (fr @ rq @ sl)" and "z \<noteq> running s" and "z \<noteq> 0" and "z \<noteq> 1" and "z < NPROC"
proof -
  show zr: "z \<noteq> running s" using k z by (auto simp: kinv_def)
  then have p: "place fr rq sl z = ZOMBIE" using k z by (simp add: kinv_def kwf_def procs_ok_def)
  then show n: "z \<notin> set (fr @ rq @ sl)" by (auto simp: place_def split: if_splits)
  from p show "z < NPROC" by (simp add: place_def split: if_splits)
  have "0 \<in> set rq \<or> running s = 0" "1 \<in> set rq \<or> 1 \<in> set sl \<or> running s = 1"
    using k by (simp_all add: kinv_def kwf_def homes_ok_def)
  with n zr show "z \<noteq> 0" "z \<noteq> 1" by (metis Un_iff set_append)+
qed

definition freed :: "nat \<Rightarrow> heap \<Rightarrow> heap" where
  "freed z h = h(z := (h z)\<lparr>status := FREE\<rparr>)"

definition buried :: "nat \<Rightarrow> mt \<Rightarrow> ptr \<Rightarrow> heap" where
  "buried z s prev = (case prev of
      None \<Rightarrow> (freed z (proc s))(running s := (freed z (proc s) (running s))\<lparr>child := None\<rparr>)
    | Some y \<Rightarrow> (freed z (proc s))(y :=
        (freed z (proc s) y)\<lparr>sibling := sibling (freed z (proc s) z)\<rparr>))"

lemma freed_fields:
  "pid (freed z h i) = pid (h i)" "nxt (freed z h i) = nxt (h i)"
  "priority (freed z h i) = priority (h i)" "sibling (freed z h i) = sibling (h i)"
  "child (freed z h i) = child (h i)"
  "status (freed z h i) = (if i = z then FREE else status (h i))"
  by (simp_all add: freed_def)

lemma buried_fields:
  "pid (buried z s p i) = pid (proc s i)" "nxt (buried z s p i) = nxt (proc s i)"
  "priority (buried z s p i) = priority (proc s i)"
  "status (buried z s p i) = (if i = z then FREE else status (proc s i))"
  by (cases p; simp add: buried_def freed_fields)+

lemma bury_given:
  assumes k: "kinv s fr rq sl" and z: "status (proc s z) = ZOMBIE"
    and p: "find_prev (freed z (proc s)) z (child (proc s (running s))) None = Some prev"
  shows "\<exists>s'. bury z s = Some (s', Returned (int z) (exitCode (proc s z))) \<and>
    kinv s' (pins (prios (proc s)) z fr) rq sl \<and> running s' = running s \<and>
    next_frame (insert z (set fr)) (buried z s prev) (proc s') \<and>
    ctx s' = ctx s \<and> proc_base s' = proc_base s"
proof -
  let ?h2 = "buried z s prev"
  note zz = kinv_zombie [OF k z]
  have l: "same_links (proc s) ?h2"
    by (simp add: same_links_def nexts_def prios_def buried_fields fun_eq_iff)
  have q: "queues4 ?h2 (freeList s) (readyQueue s) (sleepList s) None fr rq sl []"
    using kinv_queues [OF k] by (simp add: queues4_links [OF l])
  have pr: "prios ?h2 = prios (proc s)" using l by (simp add: same_links_def)
  from enqueue_ok [OF q _ zz(5)] zz(1) obtain h f where
    e: "enqueue ?h2 (freeList s) z = Some (h, f)"
    and q2: "queues4 h f (readyQueue s) (sleepList s) None (pins (prios (proc s)) z fr) rq sl []"
    and fr: "next_frame (insert z (set fr)) ?h2 h" unfolding pr by (metis append_Nil2)
  let ?s' = "s\<lparr>proc := h, freeList := f\<rparr>"
  have b: "bury z s = Some (?s', Returned (int z) (exitCode (proc s z)))"
    using p e zz(2,5) k
    by (cases prev)
      (simp_all add: bury_def set_proc_def buried_def freed_def kinv_def kwf_def procs_ok_def)
  have st: "status (h i) = (if i = z then FREE else status (proc s i))" for i
    by (simp add: next_frame_fields [OF fr] buried_fields)
  have pl: "place (pins (prios (proc s)) z fr) rq sl i = (if i = z then FREE else place fr rq sl i)" for i
    by (auto simp: place_def set_pins)
  have "procs_ok h (running s) (pins (prios (proc s)) z fr) rq sl"
    using k unfolding kinv_def kwf_def procs_ok_def
    by (simp add: st pl set_pins next_frame_fields [OF fr] buried_fields)
  moreover have "homes_ok (running s) (pins (prios (proc s)) z fr) rq sl"
    using k zz by (auto simp: kinv_def kwf_def homes_ok_def set_pins)
  moreover have "ctx_ok (ctx s) (pins (prios (proc s)) z fr)"
    using k by (auto simp: kinv_def kwf_def ctx_ok_def set_pins)
  ultimately have "kinv ?s' (pins (prios (proc s)) z fr) rq sl"
    using k q2 zz(2) by (simp add: kinv_def kwf_def queues_ok_def set_pins st)
  with b fr show ?thesis by auto
qed

lemma bury_ok:
  assumes k: "kinv s fr rq sl" and c: "kids (proc s) (running s) (ys @ z # zs)"
    and z: "status (proc s z) = ZOMBIE"
  shows "\<exists>s'. bury z s = Some (s', Returned (int z) (exitCode (proc s z))) \<and>
    kinv s' (pins (prios (proc s)) z fr) rq sl \<and> running s' = running s \<and>
    kids (proc s') (running s) (if ys = [] then [] else ys @ zs) \<and>
    ctx s' = ctx s \<and> proc_base s' = proc_base s"
proof -
  let ?prev = "if ys = [] then None else Some (last ys)"
  let ?h2 = "buried z s ?prev"
  note zz = kinv_zombie [OF k z]
  have d: "z \<notin> set ys" using c chain_distinct [of "sibs (proc s)" _ "ys @ z # zs"] by (auto simp: kids_def)
  have "chain (sibs (freed z (proc s))) (child (proc s (running s))) (ys @ z # zs)"
    using c sibs_cong [of "freed z (proc s)" "proc s"] by (simp add: kids_def freed_fields)
  from bury_given [OF k z find_prev_ok [OF this d]] obtain s' where
    s': "bury z s = Some (s', Returned (int z) (exitCode (proc s z)))"
      "kinv s' (pins (prios (proc s)) z fr) rq sl" "running s' = running s"
      "ctx s' = ctx s" "proc_base s' = proc_base s"
    and fr: "next_frame (insert z (set fr)) ?h2 (proc s')" by blast
  have "kids (proc s') (running s) cs = kids ?h2 (running s) cs" for cs
    by (rule kids_cong) (simp_all add: next_frame_fields [OF fr])
  moreover have "kids ?h2 (running s) (if ys = [] then [] else ys @ zs)"
  proof (cases ys rule: rev_cases)
    case Nil
    then show ?thesis by (simp add: kids_def buried_def)
  next
    case (snoc us y)
    have "sibs ?h2 = (sibs (proc s))(y := sibs (proc s) z)"
      using snoc by (auto simp: buried_def freed_fields sibs_def fun_eq_iff)
    moreover have "child (?h2 (running s)) = child (proc s (running s))"
      using snoc zz(2) by (simp add: buried_def freed_fields)
    moreover have "chain ((sibs (proc s))(y := sibs (proc s) z)) (child (proc s (running s))) (us @ y # zs)"
      using c snoc by (intro chain_unlink) (simp add: kids_def)
    ultimately show ?thesis using snoc by (simp add: kids_def)
  qed
  ultimately show ?thesis using s' by blast
qed

end
