(* ===== verification/KernelSteps.thy ===== *)
theory KernelSteps
  imports KernelFamily
begin

text \<open>
  The remaining handlers of \<^verbatim>\<open>PreLab3/Code\<close> (\<^verbatim>\<open>do_jesus\<close>, \<^verbatim>\<open>kwait\<close>), the step of the running
  process, the states the kernel can reach from its start, and the invariant on all of them.
\<close>

section \<open>Raising the dead\<close>

definition zombies :: "mt \<Rightarrow> nat list \<Rightarrow> nat list" where
  "zombies s = filter (\<lambda>i. status (proc s i) = ZOMBIE)"

lemma fold_add_ready:
  assumes "0 \<notin> set zs" and "filter (\<lambda>i. i \<noteq> 0) rq @ filter (\<lambda>i. i = 0) rq = rq"
  shows "fold add_ready zs rq = filter (\<lambda>i. i \<noteq> 0) rq @ zs @ filter (\<lambda>i. i = 0) rq"
  using assms
proof (induction zs arbitrary: rq)
  case (Cons z zs)
  then have "0 \<notin> set zs" "z \<noteq> 0" by auto
  from Cons.IH [OF this(1), of "add_ready z rq"] this(2) show ?case
    using add_ready_zero_last [OF \<open>z \<noteq> 0\<close>] by (simp add: zero_last_def add_ready_filters)
qed simp

lemma raise_one:
  assumes k: "kinv s fr rq sl" and z: "status (proc s i) = ZOMBIE"
  shows "\<exists>s'. enter_ready i (set_proc i (\<lambda>r. r\<lparr>status := READY\<rparr>) s) = Some s' \<and>
    kinv s' fr (add_ready i rq) sl \<and> same_body (proc s) (proc s') \<and>
    (\<forall>j. status (proc s' j) = (if j = i then READY else status (proc s j))) \<and>
    running s' = running s \<and> ctx s' = ctx s \<and> proc_base s' = proc_base s"
proof -
  let ?h0 = "(proc s)(i := (proc s i)\<lparr>status := READY\<rparr>)"
  note zz = kinv_zombie [OF k z]
  have pid: "pid (?h0 i) = int i" using k zz(5) by (simp add: kinv_def kwf_def procs_ok_def)
  have l: "same_links (proc s) ?h0" by auto
  have o: "status (?h0 j) = status (proc s j) \<and> pid (?h0 j) = pid (proc s j)" if "j \<noteq> i" for j
    using that by simp
  have st: "status (?h0 i) = READY" by simp
  from kinv_add_ready [OF k l o zz(1,5,2) st pid] obtain h r where
    e: "enter_ready i (s\<lparr>proc := ?h0\<rparr>) = Some (s\<lparr>proc := h, readyQueue := r\<rparr>)"
    and k1: "kinv (s\<lparr>proc := h, readyQueue := r\<rparr>) fr (pins (prios (proc s)) i rq) sl"
    and f: "next_frame (insert i (set rq)) ?h0 h" by blast
  have "prios (proc s) i = 1"
    using k zz by (simp add: kinv_def kwf_def procs_ok_def prios_def [of _ i])
  from k1 [unfolded pins_add_ready [OF k this]]
  have "kinv (s\<lparr>proc := h, readyQueue := r\<rparr>) fr (add_ready i rq) sl" .
  moreover have "same_body (proc s) h"
    by (rule same_body_trans [OF same_body_status same_body_frame [OF f]])
  moreover have "status (h j) = (if j = i then READY else status (proc s j))" for j
    by (simp add: next_frame_fields [OF f])
  ultimately show ?thesis using e by (auto simp: set_proc_def)
qed

lemma jesus_loop_ok:
  assumes "kinv s fr rq sl" and "distinct is"
  shows "\<exists>s'. jesus_loop is s = Some s' \<and> kinv s' fr (fold add_ready (zombies s is) rq) sl \<and>
    same_body (proc s) (proc s') \<and>
    (\<forall>i. status (proc s' i) = (if i \<in> set (zombies s is) then READY else status (proc s i))) \<and>
    running s' = running s \<and> ctx s' = ctx s \<and> proc_base s' = proc_base s"
  using assms
proof (induction "is" arbitrary: s rq)
  case Nil
  then show ?case by (simp add: zombies_def)
next
  case (Cons i "is")
  show ?case
  proof (cases "status (proc s i) = ZOMBIE")
    case False
    with Cons.IH [OF Cons.prems(1)] Cons.prems(2) show ?thesis by (simp add: zombies_def)
  next
    case True
    from raise_one [OF Cons.prems(1) True] obtain s1 where
      e: "enter_ready i (set_proc i (\<lambda>r. r\<lparr>status := READY\<rparr>) s) = Some s1"
      and k1: "kinv s1 fr (add_ready i rq) sl" and b: "same_body (proc s) (proc s1)"
      and st: "\<forall>j. status (proc s1 j) = (if j = i then READY else status (proc s j))"
      and o: "running s1 = running s" "ctx s1 = ctx s" "proc_base s1 = proc_base s" by blast
    have d: "distinct is" "i \<notin> set is" using Cons.prems(2) by simp_all
    then have zs: "zombies s (i # is) = i # zombies s1 is"
      using True st by (auto simp: zombies_def intro!: filter_cong)
    from Cons.IH [OF k1 d(1)] obtain s' where
      "jesus_loop is s1 = Some s'" "kinv s' fr (fold add_ready (zombies s (i # is)) rq) sl"
      "same_body (proc s1) (proc s')"
      "\<forall>j. status (proc s' j) = (if j \<in> set (zombies s1 is) then READY else status (proc s1 j))"
      "running s' = running s" "ctx s' = ctx s" "proc_base s' = proc_base s"
      using zs o by auto
    with True e st same_body_trans [OF b] show ?thesis by (auto simp: zs)
  qed
qed

lemma do_jesus_ok:
  assumes k: "kinv s fr rq sl"
  defines "zs \<equiv> zombies s [1..<NPROC]"
  shows "\<exists>s'. do_jesus s = Some s' \<and>
    kinv s' fr (filter (\<lambda>i. i \<noteq> 0) rq @ zs @ filter (\<lambda>i. i = 0) rq) sl \<and>
    same_body (proc s) (proc s') \<and> (\<forall>i. status (proc s' i) \<noteq> ZOMBIE) \<and>
    running s' = running s \<and> ctx s' = ctx s"
proof -
  have "0 \<notin> set zs" by (simp add: zs_def zombies_def)
  from jesus_loop_ok [OF k, of "[1..<NPROC]"] obtain s' where
    s': "do_jesus s = Some s'" "kinv s' fr (fold add_ready zs rq) sl"
      "same_body (proc s) (proc s')" "running s' = running s" "ctx s' = ctx s"
    and st: "\<forall>i. status (proc s' i) = (if i \<in> set zs then READY else status (proc s i))"
    unfolding do_jesus_def zs_def by auto
  have "i \<in> set zs" if "status (proc s i) = ZOMBIE" for i
    using kinv_zombie(3,5) [OF k that] that by (simp add: zs_def zombies_def)
  with st have "\<forall>i. status (proc s' i) \<noteq> ZOMBIE" by auto
  with s' show ?thesis by (auto simp: fold_add_ready [OF \<open>0 \<notin> set zs\<close> kinv_rq_split [OF k]])
qed

section \<open>Waiting\<close>

lemma kwait_none:
  "child (proc s (running s)) = None \<Longrightarrow> kwait s = Some (s, Returned (-1) 0)"
  by (simp add: kwait_def kwait_loop_def)

lemma kwait_zombie:
  assumes c: "kids (proc s) (running s) (ys @ z # zs)"
    and z: "status (proc s z) = ZOMBIE" "\<forall>y \<in> set ys. status (proc s y) \<noteq> ZOMBIE"
  shows "kwait s = bury z s"
proof -
  have "List.find (\<lambda>i. status (proc s i) = ZOMBIE) (ys @ z # zs) = Some z"
    using z by (induction ys) auto
  with findZombieChild_ok [OF c [unfolded kids_def]]
  have f: "findZombieChild (proc s) (child (proc s (running s))) = Some (Some z)" by simp
  from c have "child (proc s (running s)) \<noteq> None" by (cases ys) (auto simp: kids_def)
  with f show ?thesis by (auto simp: kwait_def kwait_loop_def)
qed

lemma kwait_alive:
  assumes c: "kids (proc s) (running s) (y # ys)"
    and z: "\<forall>i \<in> set (y # ys). status (proc s i) \<noteq> ZOMBIE"
  shows "kwait s = map_option (\<lambda>s1. (s1, Asleep)) (sleep (proc_addr s (running s)) (InWait None) s)"
proof -
  have "List.find (\<lambda>i. status (proc s i) = ZOMBIE) (y # ys) = None"
    using z by (simp add: find_None_iff)
  with findZombieChild_ok [OF c [unfolded kids_def]]
  have f: "findZombieChild (proc s) (child (proc s (running s))) = Some None" by simp
  from c have "child (proc s (running s)) = Some y" by (simp add: kids_def)
  with f show ?thesis
    by (cases "sleep (proc_addr s (running s)) (InWait None) s") (simp_all add: kwait_def kwait_loop_def)
qed

lemma findZombieChild_zombie:
  assumes "findZombieChild h p = Some r"
  shows "\<forall>z. r = Some z \<longrightarrow> status (h z) = ZOMBIE"
  using assms
proof (induction rule: findZombieChild.raw_induct [rotated, consumes 1, case_names step])
  case (step find h p r)
  then show ?case by (auto split: option.splits if_splits)
qed

lemma kwait_returns:
  assumes k: "kinv s fr rq sl" and r: "running s \<noteq> 0" and w: "kwait_loop c s = Some (s1, w)"
  shows "if w = Asleep then kafter s1 else kgood s1 \<and> running s1 = running s"
proof (cases c)
  case None
  with k w show ?thesis by (auto simp: kwait_loop_def intro: kgoodI)
next
  case (Some a)
  with w obtain found where f: "findZombieChild (proc s) c = Some found"
    by (auto simp: kwait_loop_def bind_eq_Some_conv)
  show ?thesis
  proof (cases found)
    case None
    have "good_ctx (running s) (InWait None)" using r by (simp add: good_ctx_def)
    from sleep_ok [OF k r this, of "proc_addr s (running s)"] obtain s2 where
      s2: "sleep (proc_addr s (running s)) (InWait None) s = Some s2" "running s2 = hd rq"
      and k2: "kinv s2 fr (tl rq) (sl @ [running s])" by blast
    with w f Some None have "s1 = s2" "w = Asleep" by (simp_all add: kwait_loop_def)
    with kafter_picked [OF k2 s2(2) kinv_zero_last [OF k]] show ?thesis by simp
  next
    case (Some z)
    with findZombieChild_zombie [OF f] have z: "status (proc s z) = ZOMBIE" by simp
    have b: "bury z s = Some (s1, w)" using w f Some \<open>c = Some a\<close> by (simp add: kwait_loop_def)
    then obtain prev where "find_prev (freed z (proc s)) z (child (proc s (running s))) None = Some prev"
      using kinv_zombie(2) [OF k z] by (auto simp: bury_def Let_def bind_eq_Some_conv freed_def)
    from bury_given [OF k z this] b show ?thesis by (auto intro: kgoodI)
  qed
qed

section \<open>Steps and reachable states\<close>

text \<open>Every step that returns keeps the invariant, whatever the command and the child lists.\<close>

lemma kinv_ctx_running: "kinv s fr rq sl \<Longrightarrow> good_ctx (running s) (ctx s (running s))"
  by (auto simp: kinv_def kwf_def ctx_ok_def homes_ok_def good_ctx_def)

lemma kfork_returns:
  assumes k: "kinv s fr rq sl" and f: "kfork s = Some (s', c)"
  shows "kgood s' \<and> running s' = running s"
proof (cases fr)
  case Nil
  with k f show ?thesis by (auto simp: kfork_full intro: kgoodI)
next
  case (Cons p ps)
  with k f kfork_ok [of s p ps rq sl] show ?thesis by (auto intro: kgoodI)
qed

lemma kafter_same: "kgood s' \<Longrightarrow> running s' = running s \<Longrightarrow> running s \<noteq> 0 \<Longrightarrow> kafter s'"
  by (auto simp: kgood_def intro: kafter_other)

lemma tswitch_kafter:
  assumes k: "kinv s fr rq sl" and r: "running s \<noteq> 0" and t: "tswitch Body s = Some s'"
  shows "kafter s'"
proof -
  have "good_ctx (running s) Body" using r by (simp add: good_ctx_def)
  from tswitch_ok [OF k this] t switch_queue [OF k r] show ?thesis
    by (auto intro: kafter_picked [OF _ _ add_ready_zero_last [OF r]])
qed

lemma sleep_kafter:
  assumes k: "kinv s fr rq sl" and r: "running s \<noteq> 0" and t: "sleep ev Body s = Some s'"
  shows "kafter s'"
proof -
  have "good_ctx (running s) Body" using r by (simp add: good_ctx_def)
  from sleep_ok [OF k r this, of ev] t show ?thesis
    by (auto intro: kafter_picked [OF _ _ kinv_zero_last [OF k]])
qed

lemma if_chain_cases:
  "(if b1 then x1 else if b2 then x2 else if b3 then x3 else if b4 then x4 else if b5 then x5
    else if b6 then x6 else if b7 then x7 else x8) \<in> {x1, x2, x3, x4, x5, x6, x7, x8}"
  by simp

lemma body_cmd_cases:
  "body_cmd cmd ev s \<in> {map_option fst (kfork s), tswitch Body s, do_exit s, do_jesus s,
     sleep ev Body s, wakeup ev s, map_option fst (kwait s), Some s}"
  unfolding body_cmd_def by (rule if_chain_cases)

lemma body_cmd_kinv:
  assumes k: "kinv s fr rq sl" and r: "running s \<noteq> 0" and b: "body_cmd cmd ev s = Some s'"
  shows "kafter s'"
proof -
  note same = kafter_same [OF _ _ r]
  from body_cmd_cases [of cmd ev s] show ?thesis unfolding b insert_iff empty_iff
  proof (elim disjE)
    assume "Some s' = map_option fst (kfork s)"
    then obtain c where "kfork s = Some (s', c)" by (cases "kfork s") auto
    with kfork_returns [OF k] same show ?thesis by blast
  next
    assume "Some s' = tswitch Body s"
    with tswitch_kafter [OF k r] show ?thesis by simp
  next
    assume "Some s' = do_exit s"
    then have "kexit (pid (proc s (running s))) s = Some s'" by (simp add: do_exit_def)
    with kexit_returns [OF k r] show ?thesis by blast
  next
    assume "Some s' = do_jesus s"
    with do_jesus_ok [OF k] show ?thesis by (metis kgoodI option.inject same)
  next
    assume "Some s' = sleep ev Body s"
    with sleep_kafter [OF k r] show ?thesis by simp
  next
    assume "Some s' = wakeup ev s"
    with wakeup_kinv [OF k, of ev] show ?thesis by (metis kgoodI option.inject same wake_post_def)
  next
    assume "Some s' = map_option fst (kwait s)"
    then obtain w where "kwait s = Some (s', w)" by (cases "kwait s") auto
    with kwait_returns [OF k r] same show ?thesis unfolding kwait_def by (metis (full_types))
  next
    assume "Some s' = Some s"
    with kafter_other [OF k r] show ?thesis by simp
  qed simp
qed

lemma kstep_kafter:
  assumes k: "kinv s fr rq sl" and s: "kstep cmd ev s = Some s'"
  shows "kafter s'"
proof (cases "ctx s (running s)")
  case Main
  with kinv_ctx_running [OF k] have r: "running s = 0" by (auto simp: good_ctx_def split: if_splits)
  then have "good_ctx (running s) Main" by (simp add: good_ctx_def)
  from tswitch_ok [OF k this] Main s obtain
    h: "running s' = hd (pins (prios (proc s)) 0 rq)"
    and k': "kinv s' fr (tl (pins (prios (proc s)) 0 rq)) sl" and q: "readyQueue s \<noteq> None"
    by (auto simp: kstep_def r split: if_splits)
  have "prios (proc s) 0 \<le> prios (proc s) i" if "i \<in> set rq" for i
    using kinv_prio [OF k, of i] kinv_prio [OF k, of 0] r that by simp
  then have p: "pins (prios (proc s)) 0 rq = rq @ [0]" by (rule pins_last)
  from q kinv_queues [OF k] have "rq \<noteq> []" by (auto simp: queues4_def)
  then have "running s' \<in> set rq" using h p by simp
  moreover have "0 \<notin> set rq" using kinv_running [OF k] r by simp
  ultimately have "running s' \<noteq> 0" by metis
  with k' show ?thesis by (rule kafter_other)
next
  case Body
  with kinv_ctx_running [OF k] have "running s \<noteq> 0" by (auto simp: good_ctx_def split: if_splits)
  with body_cmd_kinv [OF k] Body s show ?thesis by (simp add: kstep_def)
next
  case (InWait c)
  with kinv_ctx_running [OF k] have r: "running s \<noteq> 0" by (auto simp: good_ctx_def split: if_splits)
  from s InWait obtain s1 w where w: "kwait_loop c s = Some (s1, w)"
    and s': "s' = (case w of Returned p e \<Rightarrow> s1\<lparr>ctx := (ctx s1)(running s1 := Body)\<rparr> | Asleep \<Rightarrow> s1)"
    by (cases "kwait_loop c s") (auto simp: kstep_def split: wait_res.splits)
  note w1 = kwait_returns [OF k r w]
  show ?thesis
  proof (cases w)
    case (Returned p e)
    with w1 r have g: "good_ctx (running s1) Body" "running s1 \<noteq> 0" by (simp_all add: good_ctx_def)
    from w1 Returned obtain fr rq sl where k1: "kinv s1 fr rq sl" by (auto simp: kgood_def)
    from kafter_other [OF kinv_ctx [OF k1 g(1)]] g(2) show ?thesis using s' Returned by simp
  next
    case Asleep
    with w1 s' show ?thesis by simp
  qed
qed

text \<open>The start of the kernel: P0 running, P1 READY, the other slots free.\<close>

lemma init_procs_eq: "init_procs n h i = (if i < n then (h i)\<lparr>pid := int i, status := FREE, priority := 0, nxt := Some (i + 1)\<rparr> else h i)"
  by (induction n) (auto simp: Let_def less_Suc_eq)

definition init_heap :: heap where
  "init_heap i = (if i < NPROC
     then zero_PROC\<lparr>pid := int i, nxt := (if i = 8 then None else Some (i + 1)), status := (if i = 0 then READY else FREE)\<rparr>
     else zero_PROC)"

lemma init_eq: "init (zero_mt base) = Some ((zero_mt base)\<lparr>proc := init_heap, freeList := Some 1\<rparr>)"
proof -
  have "(init_procs NPROC (\<lambda>_. zero_PROC))(8 := init_procs NPROC (\<lambda>_. zero_PROC) 8\<lparr>nxt := None\<rparr>,
      0 := (init_procs NPROC (\<lambda>_. zero_PROC) 0)\<lparr>status := READY, priority := 0, ppid := 0\<rparr>) = init_heap"
    by (rule ext) (simp add: init_procs_eq init_heap_def NPROC_def zero_PROC_def)
  then show ?thesis
    by (simp add: init_def zero_mt_def dequeue_def NPROC_def init_procs_eq set_proc_def)
qed

definition boot_heap :: heap where
  "boot_heap = init_heap(0 := (init_heap 0)\<lparr>child := Some 1\<rparr>,
     1 := (init_heap 1)\<lparr>status := READY, priority := 1, ppid := 0, parent := Some 0, nxt := None\<rparr>)"

definition boot_mt :: "int \<Rightarrow> mt" where
  "boot_mt base = (zero_mt base)\<lparr>proc := boot_heap, freeList := Some 2, readyQueue := Some 1,
     ctx := (\<lambda>_. Main)(1 := Body)\<rparr>"

lemma boot_eq: "boot base = Some (boot_mt base)"
proof -
  have "kfork ((zero_mt base)\<lparr>proc := init_heap, freeList := Some 1\<rparr>) = Some (boot_mt base, 1)"
    by (simp add: kfork_def dequeue_def enter_ready_def enqueue_def set_proc_def
      boot_mt_def boot_heap_def zero_mt_def init_heap_def NPROC_def zero_PROC_def Let_def fun_eq_iff)
  then show ?thesis by (simp add: boot_def init_eq)
qed

lemma boot_kinv: "kinv (boot_mt base) [2, 3, 4, 5, 6, 7, 8] [1] []"
  by (simp add: boot_mt_def zero_mt_def kinv_def kwf_def queues_ok_def queues4_def procs_ok_def
     homes_ok_def ctx_ok_def boot_heap_def init_heap_def NPROC_def nexts_def prios_def place_def
     zero_PROC_def)

text \<open>Reachable states: a run of steps with any commands and any typed numbers.\<close>

inductive reach :: "int \<Rightarrow> mt \<Rightarrow> bool" for base where
  reach_boot: "boot base = Some s \<Longrightarrow> reach base s"
| reach_step: "reach base s \<Longrightarrow> kstep cmd ev s = Some s' \<Longrightarrow> reach base s'"

lemma reach_kinv: "reach base s \<Longrightarrow> kgood s"
proof (induction rule: reach.induct)
  case (reach_boot s)
  then have "s = boot_mt base" by (simp add: boot_eq)
  with boot_kinv [of base] show ?case by (auto intro: kgoodI)
next
  case (reach_step s cmd ev s')
  then obtain fr rq sl where "kinv s fr rq sl" by (auto simp: kgood_def)
  from kafter_kgood [OF kstep_kafter [OF this]] reach_step show ?case by blast
qed

lemma kruns_reach: "reach base s \<Longrightarrow> kruns cs s = Some s' \<Longrightarrow> reach base s'"
  by (induction cs s rule: kruns.induct) (auto simp: bind_eq_Some_conv intro: reach_step)

text \<open>The lists of a state are those its queue pointers lead to.\<close>

lemma kinv_lists:
  assumes "kgood s" and "chain (nexts (proc s)) (freeList s) fr"
    and "chain (nexts (proc s)) (readyQueue s) rq" and "chain (nexts (proc s)) (sleepList s) sl"
  shows "kinv s fr rq sl"
proof -
  from assms(1) obtain f r l where k: "kinv s f r l" by (auto simp: kgood_def)
  with chain_det [OF assms(2)] chain_det [OF assms(3)] chain_det [OF assms(4)]
  have "f = fr" "r = rq" "l = sl" by (auto simp: kinv_def kwf_def queues_ok_def queues4_def)
  with k show ?thesis by simp
qed

text \<open>The state after a run from the start, for concrete examples.\<close>

definition after :: "(string \<times> int) list \<Rightarrow> mt" where
  "after cs = (case kruns cs (boot_mt 0) of Some s \<Rightarrow> s | None \<Rightarrow> boot_mt 0)"

lemma after_reach: "reach 0 (after cs)"
proof -
  have "reach 0 (boot_mt 0)" by (rule reach_boot) (rule boot_eq)
  with kruns_reach [OF this, of cs] show ?thesis by (simp add: after_def split: option.split)
qed

lemmas after_kgood = after_reach [THEN reach_kinv]

end
