(* ===== verification/KernelProps.thy ===== *)
theory KernelProps
  imports KernelSteps
begin

text \<open>
  What the kernel of \<^verbatim>\<open>PreLab3/Code\<close> promises: the properties of the queues, of the processes in
  every reachable state, of each command, and the places where the code does not do what it means to.
\<close>

section \<open>Auxiliary facts\<close>

lemma kinv_split_zero:
  assumes k: "kinv s fr rq sl" and r: "running s \<noteq> 0"
  shows "\<exists>xs. rq = xs @ [0] \<and> 0 \<notin> set xs"
proof -
  have z: "0 \<in> set rq" using k r by (simp add: kinv_def kwf_def homes_ok_def)
  have d: "distinct rq" using kinv_queues [OF k] by (simp add: queues4_def)
  obtain ys zs where rq: "rq = ys @ 0 # zs" using z by (auto simp: in_set_conv_decomp)
  have n: "0 \<notin> set ys" "0 \<notin> set zs" using d rq by auto
  have f: "filter (\<lambda>i. i \<noteq> 0) ys = ys" "filter (\<lambda>i. i \<noteq> 0) zs = zs"
    "filter (\<lambda>i. i = 0) ys = []" "filter (\<lambda>i. i = 0) zs = []"
    using n by (simp_all add: filter_zero_free del: neq0_conv)
  have "filter (\<lambda>i. i \<noteq> 0) rq @ filter (\<lambda>i. i = 0) rq = rq" by (rule kinv_rq_split [OF k])
  then have "ys @ zs @ [0] = ys @ 0 # zs" using f by (simp add: rq del: neq0_conv)
  then have "zs = []" using n by (cases zs) auto
  with rq n show ?thesis by auto
qed

lemma switch_step:
  assumes k: "kinv s fr (xs @ [0]) sl" and r: "running s \<noteq> 0" and c: "ctx s (running s) = Body"
  shows "\<exists>s'. kstep ''switch'' ev s = Some s' \<and> running s' = hd (xs @ [running s]) \<and>
    kinv s' fr (tl (xs @ [running s]) @ [0]) sl \<and> ctx s' = ctx s"
proof -
  have g: "good_ctx (running s) Body" using r by (simp add: good_ctx_def)
  have "0 \<notin> set xs" using kinv_queues [OF k] by (auto simp: queues4_def)
  then have a: "add_ready (running s) (xs @ [0]) = (xs @ [running s]) @ [0]"
    by (simp add: add_ready_def filter_zero_free)
  have "hd ((xs @ [running s]) @ [0]) = hd (xs @ [running s])"
    "tl ((xs @ [running s]) @ [0]) = tl (xs @ [running s]) @ [0]" by (cases xs; simp)+
  with tswitch_ok [OF k g, unfolded switch_queue [OF k r] a] obtain s' where
    "tswitch Body s = Some s'" "running s' = hd (xs @ [running s])"
    "kinv s' fr (tl (xs @ [running s]) @ [0]) sl" "ctx s' = (ctx s)(running s := Body)" by auto
  moreover have "(ctx s)(running s := Body) = ctx s" using c by auto
  ultimately show ?thesis using c by (simp add: kstep_def body_cmd_def)
qed

lemma kruns_append: "kruns (xs @ ys) s = kruns xs s \<bind> kruns ys"
  by (induction xs s rule: kruns.induct) (auto simp: bind_assoc split: bind_split)

lemma ready_command:
  assumes k: "kinv s fr rq sl" and r: "running s \<noteq> 0"
  shows "kfork s \<noteq> None" and "tswitch Body s \<noteq> None" and "do_jesus s \<noteq> None"
    and "sleep ev Body s \<noteq> None" and "wakeup ev s \<noteq> None"
proof -
  have g: "good_ctx (running s) Body" using r by (simp add: good_ctx_def)
  show "kfork s \<noteq> None"
  proof (cases fr)
    case Nil
    with k kfork_full show ?thesis by simp
  next
    case (Cons p ps)
    with kfork_ok [of s p ps rq sl] k show ?thesis by auto
  qed
  show "tswitch Body s \<noteq> None" using tswitch_ok [OF k g] by auto
  show "do_jesus s \<noteq> None" using do_jesus_ok [OF k] by auto
  show "sleep ev Body s \<noteq> None" using sleep_ok [OF k r g, of ev] by auto
  show "wakeup ev s \<noteq> None" using wakeup_kinv [OF k, of ev] by auto
qed

lemma chain_hung:
  "chain (f(c := Some p)) (Some c) xs \<longleftrightarrow> (\<exists>zs. xs = c # p # zs \<and> c \<notin> set (p # zs) \<and> chain f (f p) zs)"
proof
  assume a: "chain (f(c := Some p)) (Some c) xs"
  then obtain zs where xs: "xs = c # p # zs" by (auto simp: chain_Some)
  have "c \<notin> set (p # zs)" using chain_distinct [OF a] xs by simp
  moreover from this a xs have "chain f (f p) zs" by (auto simp: chain_upd simp del: fun_upd_apply) (simp add: chain_upd)
  ultimately show "\<exists>zs. xs = c # p # zs \<and> c \<notin> set (p # zs) \<and> chain f (f p) zs" using xs by blast
next
  assume "\<exists>zs. xs = c # p # zs \<and> c \<notin> set (p # zs) \<and> chain f (f p) zs"
  then show "chain (f(c := Some p)) (Some c) xs" by (auto simp: chain_upd simp del: fun_upd_apply) (simp_all add: chain_upd)
qed

lemma kfork_kids:
  assumes k: "kinv s (p # fr) rq sl" and c: "child (proc s (running s)) = Some c"
  shows "\<exists>s'. kfork s = Some (s', int p) \<and> (\<forall>xs. kids (proc s') (running s) xs \<longleftrightarrow>
    (\<exists>zs. xs = c # p # zs \<and> c \<notin> set (p # zs) \<and> chain (sibs (proc s)) (sibling (proc s p)) zs))"
proof -
  have pr: "p \<noteq> running s" using kinv_running [OF k] by auto
  from kfork_ok [OF k] obtain s' where s': "kfork s = Some (s', int p)"
    and fr: "next_frame (insert p (set rq)) (fork_heap s p) (proc s')" by blast
  have "kids (proc s') (running s) xs = kids (fork_heap s p) (running s) xs" for xs
    by (rule kids_cong) (simp_all add: next_frame_fields [OF fr])
  moreover have "sibs (fork_heap s p) = (sibs (proc s))(c := Some p)"
    using c pr by (auto simp: fork_heap_def forked_def sibs_def fun_eq_iff)
  moreover have "child (fork_heap s p (running s)) = Some c"
    using c pr by (auto simp: fork_heap_def forked_def)
  ultimately have "kids (proc s') (running s) xs \<longleftrightarrow> chain ((sibs (proc s))(c := Some p)) (Some c) xs" for xs
    by (simp only: kids_def)
  with chain_hung [of "sibs (proc s)" c p] s' show ?thesis by (simp add: sibs_def)
qed

text \<open>A list whose last cell is the first child of the caller closes to a ring.\<close>

lemma adopt_ring:
  assumes "adopt h c = Some h'"
  shows "c = Some d \<Longrightarrow> sibling (h d) = Some d \<Longrightarrow> False"
  using assms
proof (induction rule: adopt.raw_induct [rotated, consumes 1, case_names step])
  case (step adopt h c h')
  let ?h1 = "h(d := (h d)\<lparr>parent := Some 1\<rparr>)"
  let ?h2 = "?h1(d := (?h1 d)\<lparr>ppid := pid (?h1 1)\<rparr>)"
  have "adopt ?h2 (sibling (?h2 d)) = Some h'"
    using step(2,3) by (simp add: Let_def del: fun_upd_apply)
  from step(1) [OF this] step(4) show False by simp
qed

lemma last_sibling_own:
  assumes "kids (proc s) 1 (cs @ [d])" and "child (proc s (running s)) = Some d"
  shows "give_away s = None"
proof -
  let ?s1 = "set_proc d (\<lambda>r. r\<lparr>sibling := Some d\<rparr>) s"
  have l: "last_sibling (proc s) (child (proc s 1)) None = Some (Some d)"
    using last_sibling_ok [OF assms(1) [unfolded kids_def], of None] by simp
  have "adopt (proc ?s1) (child (proc ?s1 (running ?s1))) = None"
  proof (cases "adopt (proc ?s1) (child (proc ?s1 (running ?s1)))")
    case (Some h)
    from adopt_ring [OF this, of d] assms(2) show ?thesis by auto
  qed simp
  with l assms(2) show ?thesis by (simp add: give_away_def)
qed

section \<open>Properties\<close>

text \<open>C1. In every state the kernel can reach, with any commands and any typed numbers, each of
  the nine processes is in exactly one place: running, on the free list, in the ready queue, on the
  sleep list, or on none as a ZOMBIE, and its status field says which. The queues end, are disjoint,
  the ready queue is ordered by priority; P0 is never freed, asleep or dead, and P1 never dies.\<close>

theorem every_process_in_one_place:
  assumes "reach base s"
  shows "\<exists>fr rq sl. chain (nexts (proc s)) (freeList s) fr \<and> chain (nexts (proc s)) (readyQueue s) rq \<and>
    chain (nexts (proc s)) (sleepList s) sl \<and> distinct (running s # fr @ rq @ sl) \<and>
    descending (prios (proc s)) rq \<and>
    (\<forall>i. i < NPROC \<longrightarrow> status (proc s i) = (if i = running s \<or> i \<in> set rq then READY
       else if i \<in> set fr then FREE else if i \<in> set sl then SLEEP else ZOMBIE)) \<and>
    0 \<in> set (running s # rq) \<and> 1 \<in> set (running s # rq @ sl)"
proof -
  from reach_kinv [OF assms] obtain fr rq sl where k: "kinv s fr rq sl" by (auto simp: kgood_def)
  have "status (proc s i) = (if i = running s \<or> i \<in> set rq then READY
    else if i \<in> set fr then FREE else if i \<in> set sl then SLEEP else ZOMBIE)" if "i < NPROC" for i
  proof -
    have "status (proc s i) = (if i = running s then READY else place fr rq sl i)"
      using k by (simp add: kinv_def kwf_def procs_ok_def)
    moreover have "set fr \<inter> set rq = {}" using kinv_queues [OF k] by (auto simp: queues4_def)
    ultimately show ?thesis using that by (auto simp: place_def)
  qed
  moreover have "0 \<in> set (running s # rq)" "1 \<in> set (running s # rq @ sl)"
    using k by (auto simp: kinv_def kwf_def homes_ok_def)
  ultimately show ?thesis
    using kinv_queues [OF k] kinv_running [OF k] by (auto simp: queues4_def)
qed

theorem every_process_in_one_place_witness:
  "let s = after [('''', 0), (''fork'', 0), (''switch'', 0), (''exit'', 0)] in
   \<exists>fr rq sl. chain (nexts (proc s)) (freeList s) fr \<and> chain (nexts (proc s)) (readyQueue s) rq \<and>
    chain (nexts (proc s)) (sleepList s) sl \<and> distinct (running s # fr @ rq @ sl)"
  using every_process_in_one_place [OF after_reach] unfolding Let_def by blast

text \<open>C2. \<^verbatim>\<open>enqueue\<close> returns, and is stable priority insertion: into a queue ordered by priority, a
  process goes behind all entries of its own or a higher priority and in front of all lower ones;
  nothing but \<^verbatim>\<open>next\<close> fields of the queue's own cells and of the process is written.\<close>

theorem enqueue_stable_priority:
  assumes "chain (nexts h) q xs" and "p \<notin> set xs" and "descending (prios h) xs"
  shows "\<exists>h' q'. enqueue h q p = Some (h', q') \<and>
    chain (nexts h') q' (filter (\<lambda>x. prios h p \<le> prios h x) xs @ p # filter (\<lambda>x. prios h x < prios h p) xs) \<and>
    next_frame (insert p (set xs)) h h'"
  using pq.enq_law [OF assms(1,2)] by (simp only: pins_filter [OF assms(3)])

theorem enqueue_stable_priority_witness:
  "let s = after [('''', 0), (''fork'', 0), (''switch'', 0), (''exit'', 0)] in
   \<exists>h q. enqueue (proc s) (readyQueue s) 2 = Some (h, q) \<and> chain (nexts h) q [2, 0]"
proof -
  let ?s = "after [('''', 0), (''fork'', 0), (''switch'', 0), (''exit'', 0)]"
  have "chain (nexts (proc ?s)) (readyQueue ?s) [0]" by code_simp
  moreover have "descending (prios (proc ?s)) [0]" "2 \<notin> set [0 :: nat]" by simp_all
  moreover have "filter (\<lambda>x. prios (proc ?s) 2 \<le> prios (proc ?s) x) [0] = []"
    "filter (\<lambda>x. prios (proc ?s) x < prios (proc ?s) 2) [0] = [0]" by code_simp+
  ultimately show ?thesis using enqueue_stable_priority [of "proc ?s" "readyQueue ?s" "[0]" 2]
    unfolding Let_def by (metis append_Nil)
qed

text \<open>C3. No command but \<^verbatim>\<open>exit\<close> and \<^verbatim>\<open>wait\<close> can hang or dereference NULL: from every reachable
  state with a process at its prompt, \<^verbatim>\<open>fork\<close>, \<^verbatim>\<open>switch\<close>, \<^verbatim>\<open>jesus\<close>, \<^verbatim>\<open>sleep\<close> and \<^verbatim>\<open>wakeup\<close>
  come back to a prompt, and the scheduler always finds a process to run.\<close>

theorem commands_return:
  assumes "reach base s" and "ctx s (running s) = Body"
    and "cmd = ''fork'' \<or> cmd = ''switch'' \<or> cmd = ''jesus'' \<or> cmd = ''sleep'' \<or> cmd = ''wakeup''"
  shows "\<exists>s'. kstep cmd ev s = Some s' \<and> reach base s'"
proof -
  from reach_kinv [OF assms(1)] obtain fr rq sl where k: "kinv s fr rq sl" by (auto simp: kgood_def)
  from kinv_ctx_running [OF k] assms(2) have "running s \<noteq> 0"
    by (auto simp: good_ctx_def split: if_splits)
  note r = ready_command [OF k this]
  have "kstep cmd ev s = body_cmd cmd ev s" by (simp add: kstep_def assms(2))
  moreover have "body_cmd ''fork'' ev s \<noteq> None" "body_cmd ''switch'' ev s \<noteq> None"
    "body_cmd ''jesus'' ev s \<noteq> None" "body_cmd ''sleep'' ev s \<noteq> None"
    "body_cmd ''wakeup'' ev s \<noteq> None"
    using r by (simp_all add: body_cmd_def)
  ultimately have "kstep cmd ev s \<noteq> None" using assms(3) by auto
  with assms(1) show ?thesis by (auto intro: reach_step)
qed

theorem commands_return_witness:
  "let s = after [('''', 0)] in \<exists>s'. kstep ''sleep'' 5 s = Some s' \<and> reach 0 s'"
proof -
  have "ctx (after [('''', 0)]) (running (after [('''', 0)])) = Body" by code_simp
  from commands_return [OF after_reach this] show ?thesis unfolding Let_def by blast
qed

text \<open>C4. The scheduler is fair among the READY processes: with all of them at their prompts,
  the command \<^verbatim>\<open>switch\<close> runs them in turn, in the order of the ready queue, P0 staying last; after
  \<open>k\<close> switches the list of the running process and the queue is rotated by \<open>k\<close>.\<close>

theorem switch_round_robin:
  assumes "kinv s fr (xs @ [0]) sl" and "running s \<noteq> 0"
    and "\<And>i. i \<in> set (running s # xs) \<Longrightarrow> ctx s i = Body"
  shows "\<exists>s'. kruns (replicate k (''switch'', ev)) s = Some s' \<and>
    running s' = (running s # xs) ! (k mod length (running s # xs)) \<and>
    kinv s' fr (tl (rotate k (running s # xs)) @ [0]) sl"
proof -
  have "\<exists>s'. kruns (replicate k (''switch'', ev)) s = Some s' \<and>
    running s' = hd (rotate k (running s # xs)) \<and>
    kinv s' fr (tl (rotate k (running s # xs)) @ [0]) sl"
    using assms
  proof (induction k arbitrary: s xs)
    case 0
    then show ?case by simp
  next
    case (Suc k)
    from switch_step [OF Suc.prems(1,2), of ev] Suc.prems(3) obtain s1 where
      s1: "kstep ''switch'' ev s = Some s1" "running s1 = hd (xs @ [running s])"
        "kinv s1 fr (tl (xs @ [running s]) @ [0]) sl" "ctx s1 = ctx s" by auto
    have l: "running s1 # tl (xs @ [running s]) = xs @ [running s]" using s1(2) by (cases xs) auto
    then have st: "set (running s1 # tl (xs @ [running s])) = set (running s # xs)" by auto
    have "0 \<notin> set xs" using kinv_queues [OF Suc.prems(1)] by (auto simp: queues4_def)
    then have "running s1 \<noteq> 0" using s1(2) Suc.prems(2) by (cases xs) auto
    moreover have "ctx s1 i = Body" if "i \<in> set (running s1 # tl (xs @ [running s]))" for i
      using Suc.prems(3) [of i] that s1(4) unfolding st by simp
    moreover have "rotate (Suc k) (running s # xs) = rotate k (xs @ [running s])"
      by (simp add: rotate1_rotate_swap)
    ultimately show ?case using Suc.IH [OF s1(3)] s1(1) by (simp add: l)
  qed
  moreover have "hd (rotate k (running s # xs)) = (running s # xs) ! (k mod length (running s # xs))"
    by (rule hd_rotate_conv_nth) simp
  ultimately show ?thesis by simp
qed

theorem switch_round_robin_witness:
  "let s = after [('''', 0), (''fork'', 0), (''fork'', 0)] in
   running s = 1 \<and> (\<exists>s'. kruns (replicate 7 (''switch'', 0)) s = Some s' \<and> running s' = 2)"
proof -
  let ?s = "after [('''', 0), (''fork'', 0), (''fork'', 0)]"
  have "chain (nexts (proc ?s)) (freeList ?s) [4, 5, 6, 7, 8]"
    "chain (nexts (proc ?s)) (readyQueue ?s) ([2, 3] @ [0])"
    "chain (nexts (proc ?s)) (sleepList ?s) []" by code_simp+
  from kinv_lists [OF after_kgood this] have k: "kinv ?s [4, 5, 6, 7, 8] ([2, 3] @ [0]) []" .
  have r: "running ?s = 1" by code_simp
  have "list_all (\<lambda>i. ctx ?s i = Body) (running ?s # [2, 3])" by code_simp
  then have c: "ctx ?s i = Body" if "i \<in> set (running ?s # [2, 3])" for i
    using that by (simp only: list_all_iff)
  have "running ?s \<noteq> 0" using r by simp
  from switch_round_robin [OF k this c, of 7 0] show ?thesis by (auto simp: r)
qed

text \<open>C5. \<^verbatim>\<open>wakeup\<close> returns, and moves exactly the sleepers on the event to the ready queue,
  keeping their order, behind every READY process and in front of P0; the others stay asleep in
  their order, and no process loses or changes anything but its links and its status.\<close>

theorem wakeup_exact:
  assumes "kinv s fr rq sl"
  shows "\<exists>s'. wakeup ev s = Some s' \<and> running s' = running s \<and> same_body (proc s) (proc s') \<and>
    kinv s' fr
      (filter (\<lambda>i. i \<noteq> 0) rq @ filter (\<lambda>i. event (proc s i) = ev) sl @ filter (\<lambda>i. i = 0) rq)
      (filter (\<lambda>i. event (proc s i) \<noteq> ev) sl)"
proof -
  from wakeup_kinv [OF assms, of ev] obtain s' where "wakeup ev s = Some s'"
    "kinv s' fr (rq_woken s ev rq sl) (unwoken (proc s) ev sl)" "wake_post ev sl s s'" by blast
  then show ?thesis
    unfolding rq_woken_eq [OF assms] woken_def unwoken_def by (auto simp: wake_post_def)
qed

definition three_asleep :: mt where
  "three_asleep = after [('''', 0), (''fork'', 0), (''fork'', 0), (''fork'', 0), (''switch'', 0),
     (''sleep'', 7), (''sleep'', 8), (''sleep'', 7)]"

theorem wakeup_exact_witness:
  "\<exists>s'. wakeup 7 three_asleep = Some s' \<and> running s' = 1 \<and> kinv s' [5, 6, 7, 8] [2, 4, 0] [3]"
proof -
  let ?s = three_asleep
  have "chain (nexts (proc ?s)) (freeList ?s) [5, 6, 7, 8]"
    "chain (nexts (proc ?s)) (readyQueue ?s) [0]"
    "chain (nexts (proc ?s)) (sleepList ?s) [2, 3, 4]" by code_simp+
  then have "kinv ?s [5, 6, 7, 8] [0] [2, 3, 4]"
    using after_kgood unfolding three_asleep_def by (intro kinv_lists)
  note w = wakeup_exact [OF this, of 7]
  have "filter (\<lambda>i. event (proc ?s i) = 7) [2, 3, 4] = [2, 4]"
    "filter (\<lambda>i. event (proc ?s i) \<noteq> 7) [2, 3, 4] = [3]" "running ?s = 1" by code_simp+
  with w show ?thesis by auto
qed

text \<open>C6. \<^verbatim>\<open>sleep\<close> returns, puts the running process at the end of the sleep list with the event it
  named, and hands the processor to the head of the ready queue.\<close>

theorem sleep_blocks:
  assumes "kinv s fr rq sl" and "running s \<noteq> 0"
  shows "\<exists>s'. sleep ev Body s = Some s' \<and> running s' = hd rq \<and> kinv s' fr (tl rq) (sl @ [running s]) \<and>
    event (proc s' (running s)) = ev \<and> status (proc s' (running s)) = SLEEP"
proof -
  have "good_ctx (running s) Body" using assms(2) by (simp add: good_ctx_def)
  from sleep_ok [OF assms this, of ev] obtain s' where s': "sleep ev Body s = Some s'"
    "running s' = hd rq" "kinv s' fr (tl rq) (sl @ [running s])" "event (proc s' (running s)) = ev"
    by blast
  have "running s \<notin> set (fr @ tl rq)" "running s \<noteq> running s'"
    using kinv_queues [OF s'(3)] kinv_running [OF s'(3)] by (auto simp: queues4_def)
  with s'(3) have "status (proc s' (running s)) = SLEEP"
    by (simp add: kinv_def kwf_def procs_ok_def place_def)
  with s' show ?thesis by blast
qed

theorem sleep_blocks_witness:
  "let s = after [('''', 0), (''fork'', 0)] in
   \<exists>s'. sleep 9 Body s = Some s' \<and> running s' = 2 \<and> kinv s' [3, 4, 5, 6, 7, 8] [0] [1]"
proof -
  let ?s = "after [('''', 0), (''fork'', 0)]"
  have "chain (nexts (proc ?s)) (freeList ?s) [3, 4, 5, 6, 7, 8]"
    "chain (nexts (proc ?s)) (readyQueue ?s) [2, 0]"
    "chain (nexts (proc ?s)) (sleepList ?s) []" by code_simp+
  from kinv_lists [OF after_kgood this] have k: "kinv ?s [3, 4, 5, 6, 7, 8] [2, 0] []" .
  have "running ?s = 1" by code_simp
  with sleep_blocks [OF k, of 9] show ?thesis by (auto simp: Let_def)
qed

text \<open>C7. \<^verbatim>\<open>exit\<close> of a process other than P1 returns exactly when its child list and P1's end and have no process
  in common; nothing in the code keeps the lists so, and otherwise it walks a ring for ever. When it returns, it
  has recorded the exit value and made the process a ZOMBIE, all its children have gone to the end of P1's child
  list with P1 as their parent, everybody who waits on the address of its parent has been woken, and the
  head of the ready queue runs.\<close>

theorem exit_hands_over:
  assumes "kinv s fr rq sl" and "running s \<noteq> 0" and "running s \<noteq> 1"
  shows "((\<exists>s'. kexit v s = Some s') \<longleftrightarrow>
      (\<exists>cs ds. kids (proc s) 1 cs \<and> kids (proc s) (running s) ds \<and> set cs \<inter> set ds = {}))
    \<and> (\<forall>cs ds. kids (proc s) 1 cs \<and> kids (proc s) (running s) ds \<and> set cs \<inter> set ds = {} \<longrightarrow>
      (\<exists>s'. kexit v s = Some s' \<and> running s' = hd (rq_woken s (parent_event ds s) rq sl) \<and>
        kinv s' fr (tl (rq_woken s (parent_event ds s) rq sl)) (unwoken (proc s) (parent_event ds s) sl) \<and>
        status (proc s' (running s)) = ZOMBIE \<and> exitCode (proc s' (running s)) = v \<and>
        kids (proc s') 1 (cs @ ds) \<and>
        (\<forall>i \<in> set ds. parent (proc s' i) = Some 1 \<and> ppid (proc s' i) = 1)))"
proof -
  have "\<exists>cs ds. kids (proc s) 1 cs \<and> kids (proc s) (running s) ds \<and> set cs \<inter> set ds = {}"
    if "kexit v s = Some s'" for s'
  proof -
    from that assms(3) obtain s1 where "give_away s = Some s1" by (auto simp: kexit_def bind_eq_Some_conv)
    then show ?thesis using give_away_ends [OF _ assms(3)] by metis
  qed
  with kexit_ok [OF assms] show ?thesis by blast
qed

text \<open>P1 forks 2 and 3, then 2 runs and forks 4.\<close>

definition grandchild :: mt where
  "grandchild = after [('''', 0), (''fork'', 0), (''fork'', 0), (''switch'', 0), (''fork'', 0)]"

lemma grandchild_kinv: "kinv grandchild [5, 6, 7, 8] [3, 1, 4, 0] []"
proof -
  have "chain (nexts (proc grandchild)) (freeList grandchild) [5, 6, 7, 8]"
    "chain (nexts (proc grandchild)) (readyQueue grandchild) [3, 1, 4, 0]"
    "chain (nexts (proc grandchild)) (sleepList grandchild) []" by code_simp+
  then show ?thesis using after_kgood unfolding grandchild_def by (intro kinv_lists)
qed

theorem exit_hands_over_witness:
  "running grandchild = 2 \<and> (\<exists>s'. kexit 2 grandchild = Some s' \<and> kids (proc s') 1 [2, 3, 4] \<and>
     status (proc s' 2) = ZOMBIE \<and> exitCode (proc s' 2) = 2 \<and> running s' = 3)"
proof -
  have r: "running grandchild = 2" by code_simp
  have "kids (proc grandchild) 1 [2, 3]" by code_simp
  moreover have "kids (proc grandchild) (running grandchild) [4]" by code_simp
  moreover have "rq_woken grandchild (parent_event [4] grandchild) [3, 1, 4, 0] [] = [3, 1, 4, 0]"
    by (simp add: rq_woken_def woken_def)
  ultimately show ?thesis
    using exit_hands_over [OF grandchild_kinv, of 2, THEN conjunct2, THEN spec, of "[2, 3]", THEN spec, of "[4]"]
    by (auto simp: r)
qed

text \<open>C8. \<^verbatim>\<open>wait\<close> with a dead child buries the first ZOMBIE of the child list: it returns that
  child's pid and exit code, and puts the child on the free list as FREE. The child is unlinked
  from the list when it has an older sibling; a ZOMBIE that heads the list takes the whole list with
  it, for the code sets \<^verbatim>\<open>running->child\<close> to NULL then.\<close>

theorem wait_buries_first_zombie:
  assumes "kinv s fr rq sl" and "kids (proc s) (running s) (ys @ z # zs)"
    and "status (proc s z) = ZOMBIE" and "\<forall>y \<in> set ys. status (proc s y) \<noteq> ZOMBIE"
  shows "\<exists>s'. kwait s = Some (s', Returned (int z) (exitCode (proc s z))) \<and>
    kinv s' (pins (prios (proc s)) z fr) rq sl \<and> running s' = running s \<and>
    kids (proc s') (running s) (if ys = [] then [] else ys @ zs)"
  using bury_ok [OF assms(1-3)] kwait_zombie [OF assms(2-4)] by auto

text \<open>P1 with the children 2, dead, and 3, alive.\<close>

definition first_dead :: mt where
  "first_dead = after [('''', 0), (''fork'', 0), (''fork'', 0), (''switch'', 0), (''exit'', 0), (''switch'', 0)]"

lemma first_dead_kinv: "kinv first_dead [4, 5, 6, 7, 8] [3, 0] []"
proof -
  have "chain (nexts (proc first_dead)) (freeList first_dead) [4, 5, 6, 7, 8]"
    "chain (nexts (proc first_dead)) (readyQueue first_dead) [3, 0]"
    "chain (nexts (proc first_dead)) (sleepList first_dead) []" by code_simp+
  then show ?thesis using after_kgood unfolding first_dead_def by (intro kinv_lists)
qed

theorem wait_buries_first_zombie_witness:
  "running first_dead = 1 \<and> kids (proc first_dead) 1 [2, 3] \<and> status (proc first_dead 3) = READY \<and>
   (\<exists>s'. kwait first_dead = Some (s', Returned 2 2) \<and> kids (proc s') 1 [])"
proof -
  have r: "running first_dead = 1" by code_simp
  have k: "kids (proc first_dead) (running first_dead) ([] @ 2 # [3])" by code_simp
  have z: "status (proc first_dead 2) = ZOMBIE" "\<forall>y \<in> set []. status (proc first_dead y) \<noteq> ZOMBIE"
    "status (proc first_dead 3) = READY" "exitCode (proc first_dead 2) = 2" by code_simp+
  from wait_buries_first_zombie [OF first_dead_kinv k z(1,2)] k show ?thesis by (auto simp: r z(3,4))
qed

text \<open>C9. \<^verbatim>\<open>jesus\<close> returns, leaves no ZOMBIE, and puts the raised processes into the ready queue in
  the order of their pids, behind the READY ones and in front of P0.\<close>

theorem jesus_raises_all:
  assumes "kinv s fr rq sl"
  shows "\<exists>s'. do_jesus s = Some s' \<and>
    kinv s' fr (filter (\<lambda>i. i \<noteq> 0) rq @ filter (\<lambda>i. status (proc s i) = ZOMBIE) [1..<NPROC] @
      filter (\<lambda>i. i = 0) rq) sl \<and>
    (\<forall>i. status (proc s' i) \<noteq> ZOMBIE) \<and> same_body (proc s) (proc s')"
  using do_jesus_ok [OF assms] by (auto simp: zombies_def)

theorem jesus_raises_all_witness:
  "\<exists>s'. do_jesus first_dead = Some s' \<and> kinv s' [4, 5, 6, 7, 8] [3, 2, 0] []"
proof -
  have "filter (\<lambda>i. status (proc first_dead i) = ZOMBIE) [1..<NPROC] = [2]" by code_simp
  with jesus_raises_all [OF first_dead_kinv] show ?thesis by auto
qed

text \<open>C11. \<^verbatim>\<open>fork\<close> walks only one cell of the child list and never clears the \<^verbatim>\<open>sibling\<close> of the process it takes: of
  a parent with a first child \<open>c\<close> the list afterwards is \<open>c\<close>, the new process, and whatever is behind the
  \<^verbatim>\<open>sibling\<close> pointer that the new process has from its former life, and it has no end when that leads back to \<open>c\<close>.
  The children that were behind \<open>c\<close> are not on it any more, unless they are reached so, and \<^verbatim>\<open>wait\<close> will never
  bury them.\<close>

theorem fork_drops_younger_children:
  assumes "kinv s (p # fr) rq sl" and "child (proc s (running s)) = Some c"
  shows "\<exists>s'. kfork s = Some (s', int p) \<and>
    (\<forall>xs. kids (proc s') (running s) xs \<longleftrightarrow>
      (\<exists>zs. xs = c # p # zs \<and> c \<notin> set (p # zs) \<and> chain (sibs (proc s)) (sibling (proc s p)) zs)) \<and>
    (sibling (proc s p) = None \<and> c \<noteq> p \<longrightarrow> kids (proc s') (running s) [c, p])"
  using kfork_kids [OF assms] by auto

theorem fork_drops_younger_children_witness:
  "let s = after [('''', 0), (''fork'', 0), (''fork'', 0)] in
   kids (proc s) 1 [2, 3] \<and> (\<exists>s'. kfork s = Some (s', 4) \<and> kids (proc s') 1 [2, 4])"
proof -
  let ?s = "after [('''', 0), (''fork'', 0), (''fork'', 0)]"
  have "chain (nexts (proc ?s)) (freeList ?s) [4, 5, 6, 7, 8]"
    "chain (nexts (proc ?s)) (readyQueue ?s) [2, 3, 0]"
    "chain (nexts (proc ?s)) (sleepList ?s) []" by code_simp+
  from kinv_lists [OF after_kgood this] have k: "kinv ?s [4, 5, 6, 7, 8] [2, 3, 0] []" .
  have r: "running ?s = 1" "sibling (proc ?s 4) = None" by code_simp+
  have c: "kids (proc ?s) (running ?s) [2, 3]" by code_simp
  from c have "child (proc ?s (running ?s)) = Some 2" by (simp add: kids_def)
  from fork_drops_younger_children [OF k this] c show ?thesis by (auto simp: r)
qed

text \<open>A process whose first child ends P1's child list cannot exit: \<^verbatim>\<open>kexit\<close> links that child
  to itself and then walks the ring for ever. A process that died, was raised by \<^verbatim>\<open>jesus\<close> (which
  keeps its \<^verbatim>\<open>child\<close> pointer) and exits again gets there.\<close>

theorem exit_after_resurrection_hangs:
  assumes "running s \<noteq> 1" and "kids (proc s) 1 (cs @ [d])"
    and "child (proc s (running s)) = Some d"
  shows "kexit v s = None"
  using last_sibling_own [OF assms(2,3)] assms(1) by (simp add: kexit_def)

theorem exit_after_resurrection_hangs_witness:
  "let s = after [('''', 0), (''fork'', 0), (''switch'', 0), (''fork'', 0), (''exit'', 0), (''jesus'', 0),
     (''switch'', 0), (''switch'', 0)] in
   running s = 2 \<and> kids (proc s) 1 [2, 3] \<and> kexit 2 s = None"
proof -
  let ?s = "after [('''', 0), (''fork'', 0), (''switch'', 0), (''fork'', 0), (''exit'', 0), (''jesus'', 0),
     (''switch'', 0), (''switch'', 0)]"
  have r: "running ?s = 2" "child (proc ?s 2) = Some 3" by code_simp+
  have k: "kids (proc ?s) 1 ([2] @ [3])" by code_simp
  from exit_after_resurrection_hangs [OF _ k, of 2] k show ?thesis by (auto simp: r)
qed

text \<open>P0 gets the processor only when no other process is READY, and after the start that is
  the end: \<^verbatim>\<open>main\<close> spins on the empty ready queue and no command can be typed any more.\<close>

theorem idle_kernel_hangs:
  assumes "reach base s" and "running s = 0" and "s \<noteq> boot_mt base"
  shows "readyQueue s = None \<and> kstep cmd ev s = None"
  using assms
proof cases
  case reach_boot
  with assms(3) show ?thesis by (simp add: boot_eq)
next
  case (reach_step s0 cmd ev)
  from reach_kinv [OF reach_step(1)] obtain fr rq sl where "kinv s0 fr rq sl" by (auto simp: kgood_def)
  from kstep_kafter [OF this reach_step(2)] assms(2) obtain fr' sl' where
    k: "kinv s fr' [] sl'" by (auto simp: kafter_def)
  then have "readyQueue s = None" "ctx s 0 = Main"
    using kinv_queues [OF k] by (auto simp: queues4_def kinv_def kwf_def ctx_ok_def)
  with assms(2) show ?thesis by (simp add: kstep_def)
qed

theorem idle_kernel_hangs_witness:
  "let s = after [('''', 0), (''sleep'', 5)] in
   reach 0 s \<and> running s = 0 \<and> sleepList s = Some 1 \<and> kstep ''wakeup'' 5 s = None"
proof -
  let ?s = "after [('''', 0), (''sleep'', 5)]"
  have r: "running ?s = 0" "sleepList ?s = Some 1" "sleepList (boot_mt 0) = None" by code_simp+
  then have "?s \<noteq> boot_mt 0" by auto
  from idle_kernel_hangs [OF after_reach r(1) this] r show ?thesis by (simp add: after_reach)
qed

end
