(* ===== verification/Text.thy ===== *)
theory Text
  imports Prelude
begin

text \<open>
  The text side of C: characters and strings, the decimal and octal forms \<^verbatim>\<open>printf\<close> writes, and the
  word splitting of \<^verbatim>\<open>strtok\<close>, which every shell-like program of the repository uses.
\<close>

section \<open>Characters and numbers\<close>

abbreviation newline :: char where
  "newline \<equiv> CHR 0x0A"

definition digit :: "nat \<Rightarrow> char" where
  "digit d = (if d < 10 then char_of (48 + d) else char_of (87 + d))"

text \<open>The digits of a number in a base, most significant first.\<close>

fun numeral_text :: "nat \<Rightarrow> nat \<Rightarrow> string" where
  "numeral_text b n = (if b < 2 \<or> n < b then [digit n] else numeral_text b (n div b) @ [digit (n mod b)])"

declare numeral_text.simps [simp del]

definition dec :: "int \<Rightarrow> string" where
  "dec i = (if i < 0 then CHR 0x2D # numeral_text 10 (nat (- i)) else numeral_text 10 (nat i))"

lemma numeral_text_not_Nil [simp]: "numeral_text b n \<noteq> []"
  by (subst numeral_text.simps) simp

text \<open>\<^verbatim>\<open>strstr(s, p)\<close>: the rest of \<open>s\<close> from the first occurrence.\<close>

fun strstr :: "string \<Rightarrow> string \<Rightarrow> string option" where
  "strstr [] p = (if p = [] then Some [] else None)"
| "strstr (c # cs) p = (if take (length p) (c # cs) = p then Some (c # cs) else strstr cs p)"

section \<open>Words of a line\<close>

text \<open>
  \<^verbatim>\<open>strtok(line, delim)\<close> called until it returns NULL: the maximal runs of characters that are not
  delimiters. The second argument is the word under construction.
\<close>

fun split_words :: "string \<Rightarrow> string \<Rightarrow> string \<Rightarrow> string list" where
  "split_words D w [] = (if w = [] then [] else [w])"
| "split_words D w (c # cs) =
     (if c \<in> set D then (if w = [] then split_words D [] cs else w # split_words D [] cs)
      else split_words D (w @ [c]) cs)"

definition strtok_all :: "string \<Rightarrow> string \<Rightarrow> string list" where
  "strtok_all D s = split_words D [] s"

text \<open>Words joined by one separator, and the words read back.\<close>

fun join :: "string \<Rightarrow> string list \<Rightarrow> string" where
  "join sep [] = []"
| "join sep [w] = w"
| "join sep (w # ws) = w @ sep @ join sep ws"

definition word_ok :: "string \<Rightarrow> string \<Rightarrow> bool" where
  "word_ok D w \<longleftrightarrow> w \<noteq> [] \<and> set w \<inter> set D = {}"

lemma split_words_ok: "v \<in> set (split_words D w s) \<Longrightarrow> set w \<inter> set D = {} \<Longrightarrow> word_ok D v"
proof (induction s arbitrary: w)
  case Nil
  then show ?case by (auto simp: word_ok_def split: if_splits)
next
  case (Cons c s)
  have e: "set [] \<inter> set D = {}" "set w \<inter> set D = {}" using Cons.prems by auto
  show ?case
  proof (cases "c \<in> set D")
    case True
    then have "v = w \<and> w \<noteq> [] \<or> v \<in> set (split_words D [] s)"
      using Cons.prems(1) by (auto split: if_splits)
    with Cons.IH [of "[]"] e show ?thesis by (auto simp: word_ok_def)
  next
    case False
    with Cons.prems e have "v \<in> set (split_words D (w @ [c]) s)" "set (w @ [c]) \<inter> set D = {}" by auto
    from Cons.IH [OF this] show ?thesis .
  qed
qed

lemma split_words_word:
  "set v \<inter> set D = {} \<Longrightarrow> split_words D w (v @ s) = split_words D (w @ v) s"
  by (induction v arbitrary: w) auto

lemma split_words_join:
  assumes "\<forall>w \<in> set ws. word_ok D w" and "d \<in> set D"
  shows "split_words D [] (join [d] ws) = ws"
  using assms
proof (induction "[d]" ws rule: join.induct)
  case (3 w v vs)
  then have "split_words D [] (w @ d # join [d] (v # vs)) = w # v # vs"
    by (simp add: word_ok_def split_words_word)
  then show ?case by simp
qed (simp_all add: word_ok_def split_words_word [where s = "[]", simplified])

lemma strtok_all_join: "\<forall>w \<in> set ws. word_ok D w \<Longrightarrow> d \<in> set D \<Longrightarrow> strtok_all D (join [d] ws) = ws"
  by (simp add: strtok_all_def split_words_join)

lemma strtok_all_ok: "w \<in> set (strtok_all D s) \<Longrightarrow> word_ok D w"
  using split_words_ok [of w D "[]" s] by (simp add: strtok_all_def)

section \<open>Numbers read from a text\<close>

definition digit_of :: "char \<Rightarrow> nat" where
  "digit_of c = of_char c - 48"

definition is_digit :: "char \<Rightarrow> bool" where
  "is_digit c \<longleftrightarrow> 48 \<le> (of_char c :: nat) \<and> (of_char c :: nat) \<le> 57"

fun digits_read :: "nat \<Rightarrow> string \<Rightarrow> nat" where
  "digits_read v [] = v"
| "digits_read v (c # cs) = (if is_digit c then digits_read (10 * v + digit_of c) cs else v)"

text \<open>\<^verbatim>\<open>scanf("%d", &n)\<close>: the number and what is left; without a number, or for one that is no \<^verbatim>\<open>int\<close>, the variable
  has no defined value.\<close>

definition scan_int :: "string \<Rightarrow> (int \<times> string) option" where
  "scan_int input =
     (let t = dropWhile (\<lambda>c. c = CHR '' '' \<or> c \<in> set [CHR 0x09, newline, CHR 0x0B, CHR 0x0C, CHR 0x0D]) input;
          u = (if take 1 t = ''-'' \<or> take 1 t = ''+'' then tl t else t);
          v = int (digits_read 0 u);
          n = (if take 1 t = ''-'' then - v else v)
      in if takeWhile is_digit u = [] \<or> n < - (2 ^ 31) \<or> 2 ^ 31 \<le> n then None
         else Some (n, dropWhile is_digit u))"

lemma digit_char: "d < 10 \<Longrightarrow> is_digit (digit d) \<and> digit_of (digit d) = d"
  by (simp add: is_digit_def digit_of_def digit_def of_char_of)

lemma digits_read_append: "\<forall>c \<in> set xs. is_digit c \<Longrightarrow> digits_read v (xs @ ys) = digits_read (digits_read v xs) ys"
  by (induction xs arbitrary: v) auto

lemma numeral_digits: "\<forall>c \<in> set (numeral_text 10 n). is_digit c"
proof (induction n rule: less_induct)
  case (less n)
  show ?case using less [of "n div 10"] digit_char by (subst numeral_text.simps) auto
qed

lemma digits_read_numeral: "digits_read 0 (numeral_text 10 n) = n"
proof (induction n rule: less_induct)
  case (less n)
  show ?case
  proof (cases "n < 10")
    case True
    then show ?thesis using digit_char [of n] by (subst numeral_text.simps) simp
  next
    case False
    then have "numeral_text 10 n = numeral_text 10 (n div 10) @ [digit (n mod 10)]" by (subst numeral_text.simps) simp
    then show ?thesis
      using False less [of "n div 10"] digit_char [of "n mod 10"] digits_read_append [OF numeral_digits]
      by simp
  qed
qed

lemma digits_read_stop: "\<forall>c \<in> set xs. is_digit c \<Longrightarrow> \<not> is_digit y \<Longrightarrow> digits_read 0 (xs @ y # ys) = digits_read 0 xs"
  by (simp add: digits_read_append)

text \<open>A number that is typed is read.\<close>

lemma scan_int_dec:
  assumes "- (2 ^ 31) \<le> i" and "i < 2 ^ 31"
  shows "scan_int (dec i @ newline # rest) = Some (i, newline # rest)"
proof -
  have nl: "\<not> is_digit newline" by (simp add: is_digit_def)
  have head: "\<exists>c cs. numeral_text 10 n = c # cs \<and> is_digit c \<and> c \<notin> {CHR '' '', CHR 0x09, newline, CHR 0x0B, CHR 0x0C, CHR 0x0D, CHR ''-'', CHR ''+''}" for n
  proof -
    obtain c cs where c: "numeral_text 10 n = c # cs" by (cases "numeral_text 10 n") auto
    with numeral_digits [of n] have "is_digit c" by simp
    with c show ?thesis by (auto simp: is_digit_def)
  qed
  have tw: "takeWhile is_digit (numeral_text 10 n @ newline # rest) = numeral_text 10 n"
    "dropWhile is_digit (numeral_text 10 n @ newline # rest) = newline # rest"
    "digits_read 0 (numeral_text 10 n @ newline # rest) = n" for n
    using numeral_digits [of n] nl digits_read_stop [OF numeral_digits nl, of n rest] digits_read_numeral [of n]
    by (simp_all add: takeWhile_append dropWhile_append2)
  show ?thesis
  proof (cases "i < 0")
    case True
    have "is_digit (CHR ''-'') = False" by (simp add: is_digit_def)
    with True assms tw [of "nat (- i)"] head [of "nat (- i)"] show ?thesis
      by (auto simp: scan_int_def dec_def Let_def)
  next
    case False
    from head [of "nat i"] obtain c cs where c: "numeral_text 10 (nat i) = c # cs" "is_digit c"
      "c \<notin> {CHR '' '', CHR 0x09, newline, CHR 0x0B, CHR 0x0C, CHR 0x0D, CHR ''-'', CHR ''+''}" by blast
    with False assms tw [of "nat i"] show ?thesis
      by (simp add: scan_int_def dec_def Let_def)
  qed
qed

section \<open>Lines typed at the terminal\<close>

text \<open>\<^verbatim>\<open>fgets(line, n, stdin)\<close>: at most \<open>n - 1\<close> characters, up to and with the newline; at the end of the
  input the array keeps what it held.\<close>

definition fgets :: "nat \<Rightarrow> string \<Rightarrow> string \<Rightarrow> string \<times> string" where
  "fgets n held input =
     (if input = [] then (held, [])
      else let got = take (n - 1) input
           in if newline \<in> set got
              then (takeWhile (\<lambda>c. c \<noteq> newline) got @ [newline], tl (dropWhile (\<lambda>c. c \<noteq> newline) input))
              else (got, drop (n - 1) input))"

text \<open>\<^verbatim>\<open>line[strlen(line)-1] = 0\<close> behind it, which takes the last character off, whatever it is; of an empty
  line it writes in front of the array.\<close>

definition typed_line :: "nat \<Rightarrow> string \<Rightarrow> string \<Rightarrow> (string \<times> string) option" where
  "typed_line n held input =
     (case fgets n held input of (got, rest) \<Rightarrow>
        let line = takeWhile (\<lambda>c. c \<noteq> CHR 0x00) got
        in if line = [] then None else Some (butlast line, rest))"

definition plain :: "string \<Rightarrow> bool" where
  "plain l \<longleftrightarrow> newline \<notin> set l \<and> CHR 0x00 \<notin> set l"

lemma plain_takeWhile: "plain l \<Longrightarrow> takeWhile (\<lambda>c. c \<noteq> CHR 0x00) (l @ newline # x) = l @ newline # takeWhile (\<lambda>c. c \<noteq> CHR 0x00) x"
  by (subst takeWhile_append2) (auto simp: plain_def)

text \<open>A line that fits, with its newline, is read back; a longer one is cut and a character of it is lost.\<close>

lemma typed_line_short:
  assumes "plain l" and "length l + 1 < n"
  shows "typed_line n held (l @ newline # rest) = Some (l, rest)"
proof -
  from assms(2) obtain k where n: "n = Suc (Suc (length l + k))" using less_natE [OF assms(2)] by auto
  have nl: "newline \<notin> set l" using assms(1) by (simp add: plain_def)
  then have "takeWhile (\<lambda>c. c \<noteq> newline) (l @ newline # x) = l" "dropWhile (\<lambda>c. c \<noteq> newline) (l @ newline # x) = newline # x"
    for x by (auto simp: takeWhile_append dropWhile_append)
  then have "fgets n held (l @ newline # rest) = (l @ [newline], rest)"
    by (simp add: fgets_def n Let_def)
  then show ?thesis using plain_takeWhile [OF assms(1), of "[]"] by (simp add: typed_line_def butlast_append)
qed

lemma typed_line_long:
  assumes "plain l" and "n \<le> length l + 1" and "2 \<le> n"
  shows "typed_line n held (l @ newline # rest) = Some (take (n - 2) l, drop (n - 1) l @ newline # rest)"
proof -
  from assms(3) obtain m where n: "n = Suc (Suc m)" using le_Suc_ex [OF assms(3)] by auto
  define a b where "a = take (Suc m) l" and "b = drop (Suc m) l"
  have l: "l = a @ b" "length a = Suc m" using assms(2) by (simp_all add: a_def b_def n)
  with assms(1) have nl: "newline \<notin> set a" and tw: "takeWhile (\<lambda>c. c \<noteq> CHR 0x00) a = a"
    by (auto simp: plain_def takeWhile_eq_all_conv)
  from l have "a \<noteq> []" "butlast a = take m l" by (auto simp: butlast_conv_take)
  then show ?thesis
    using nl l by (simp add: typed_line_def fgets_def n Let_def tw)
qed

lemma typed_line_end [simp]: "typed_line n [] [] = None"
  by (simp add: typed_line_def fgets_def)

lemma typed_line_less:
  assumes "typed_line n [] input = Some (l, rest)" and "2 \<le> n"
  shows "length rest < length input"
proof -
  have tl: "length (tl (dropWhile P x)) < length x" if "x \<noteq> []" for P and x :: string
  proof -
    have "length (tl (dropWhile P x)) = length (dropWhile P x) - 1" "0 < length x" using that by simp_all
    with length_dropWhile_le [of P x] show ?thesis by linarith
  qed
  have "0 < length input \<and> (rest = tl (dropWhile (\<lambda>c. c \<noteq> newline) input) \<or> rest = drop (n - 1) input)"
    using assms(1) by (auto simp: typed_line_def fgets_def Let_def split: if_splits)
  moreover from this assms(2) have "length (drop (n - 1) input) < length input" unfolding length_drop by linarith
  ultimately show ?thesis using tl [of input] by auto
qed

lemma typed_line_plain: "typed_line n held input = Some (l, rest) \<Longrightarrow> CHR 0x00 \<notin> set l"
  by (auto simp: typed_line_def Let_def split: if_splits prod.splits dest!: in_set_butlastD set_takeWhileD)


section \<open>Loops over typed lines\<close>

text \<open>The main loop of a program that reads a line and does a step, until a step ends it. Without an end of
  its own it does not return: at the end of the input it writes in front of its array.\<close>

partial_function (option) read_loop :: "nat \<Rightarrow> (string \<Rightarrow> 's \<Rightarrow> ('r + 's) option) \<Rightarrow> string \<Rightarrow> 's \<Rightarrow> 'r option" where
  "read_loop n step input s = do {
     (line, rest) \<leftarrow> typed_line n [] input;
     r \<leftarrow> step line s;
     (case r of Inl x \<Rightarrow> Some x | Inr s' \<Rightarrow> read_loop n step rest s')
   }"

declare read_loop.simps [code]

text \<open>The same steps on lines that have been read.\<close>

fun run_lines :: "(string \<Rightarrow> 's \<Rightarrow> ('r + 's) option) \<Rightarrow> string list \<Rightarrow> 's \<Rightarrow> ('r + 's) option" where
  "run_lines step [] s = Some (Inr s)"
| "run_lines step (l # lines) s =
     (case step l s of None \<Rightarrow> None | Some (Inl x) \<Rightarrow> Some (Inl x) | Some (Inr s') \<Rightarrow> run_lines step lines s')"

definition typing :: "string list \<Rightarrow> string" where
  "typing lines = concat (map (\<lambda>l. l @ [newline]) lines)"

lemma typing_simps [simp]: "typing [] = []" "typing (l # lines) = l @ newline # typing lines"
  by (simp_all add: typing_def)

lemma typing_append [simp]: "typing (xs @ ys) = typing xs @ typing ys"
  by (simp add: typing_def)

lemma read_loop_end [simp]: "read_loop n step [] s = None"
  by (subst read_loop.simps) simp

lemma read_loop_lines:
  "\<forall>l \<in> set lines. plain l \<and> length l + 1 < n \<Longrightarrow>
   read_loop n step (typing lines @ rest) s =
     (case run_lines step lines s of
        None \<Rightarrow> None | Some (Inl x) \<Rightarrow> Some x | Some (Inr s') \<Rightarrow> read_loop n step rest s')"
proof (induction lines arbitrary: s)
  case (Cons l lines)
  then have "typed_line n [] (l @ newline # typing lines @ rest) = Some (l, typing lines @ rest)"
    by (intro typed_line_short) simp_all
  with Cons show ?case by (subst read_loop.simps) (simp split: option.split sum.split)
qed simp

text \<open>A line that is too long runs as two, without the character at the cut.\<close>

lemma read_loop_cut:
  assumes "plain l" and "n \<le> length l + 1" and "2 \<le> n"
  shows "read_loop n step (l @ newline # rest) s
    = read_loop n step (take (n - 2) l @ newline # drop (n - 1) l @ newline # rest) s"
proof -
  have "plain (take (n - 2) l)" using assms(1) in_set_takeD unfolding plain_def by fast
  then have "typed_line n [] (take (n - 2) l @ newline # drop (n - 1) l @ newline # rest)
      = Some (take (n - 2) l, drop (n - 1) l @ newline # rest)"
    using assms(2,3) by (intro typed_line_short) simp_all
  with typed_line_long [OF assms] show ?thesis
    using read_loop.simps [of n step] by simp
qed

end
