(* ===== verification/KernelShow.thy ===== *)
theory KernelShow
  imports KernelSteps Text
begin

text \<open>
  What the kernel of \<^verbatim>\<open>PreLab3/Code\<close> prints: the queue printers of \<^verbatim>\<open>queue.c\<close> and the process
  table, as functions from the state to the text. A printer that walks a ring does not return.
\<close>

section \<open>Printers\<close>

definition show_status :: "pstatus \<Rightarrow> string" where
  "show_status st = (case st of FREE \<Rightarrow> ''FREE'' | READY \<Rightarrow> ''READY'' | SLEEP \<Rightarrow> ''SLEEP'' | ZOMBIE \<Rightarrow> ''ZOMBIE'')"

definition NULL_line :: string where
  "NULL_line = ''NULL'' @ [newline]"

partial_function (option) print_cells :: "(nat \<Rightarrow> string) \<Rightarrow> (nat \<Rightarrow> ptr) \<Rightarrow> ptr \<Rightarrow> string option" where
  "print_cells cell next p =
     (case p of
        None \<Rightarrow> Some NULL_line
      | Some i \<Rightarrow> do { rest \<leftarrow> print_cells cell next (next i); Some (cell i @ rest) })"

declare print_cells.simps [code]

definition printList :: "string \<Rightarrow> heap \<Rightarrow> ptr \<Rightarrow> string option" where
  "printList name h p = map_option (\<lambda>t. name @ '' = '' @ t)
     (print_cells (\<lambda>i. ''['' @ dec (pid (h i)) @ '' '' @ dec (priority (h i)) @ '']->'') (\<lambda>i. nxt (h i)) p)"

definition printChild :: "string \<Rightarrow> heap \<Rightarrow> ptr \<Rightarrow> string option" where
  "printChild name h p = map_option (\<lambda>t. name @ '' = '' @ t)
     (print_cells (\<lambda>i. ''['' @ dec (pid (h i)) @ '' '' @ show_status (status (h i)) @ '']->'')
        (\<lambda>i. sibling (h i)) p)"

definition printSleep :: "string \<Rightarrow> heap \<Rightarrow> ptr \<Rightarrow> string option" where
  "printSleep name h p = map_option (\<lambda>t. name @ '' = '' @ t)
     (print_cells (\<lambda>i. ''['' @ dec (pid (h i)) @ '' event='' @ dec (event (h i)) @ '']->'')
        (\<lambda>i. nxt (h i)) p)"

definition do_ps :: "mt \<Rightarrow> string" where
  "do_ps s = ''PID  PPID  status'' @ [newline] @ ''---  ----  ------'' @ [newline] @
     concat (map (\<lambda>i. '' '' @ dec (pid (proc s i)) @ ''    '' @ dec (ppid (proc s i)) @ ''    '' @
       (if i = running s then ''RUNNING'' else show_status (status (proc s i))) @ [newline]) [0..<NPROC])"

text \<open>
  \<^verbatim>\<open>DisplayBinaryTree\<close>: a line per running or READY process, and a row of stars under it that
  grows in an array of 100 characters; \<open>None\<close> also stands for an overflow of the array.
\<close>

partial_function (option) tree_line :: "heap \<Rightarrow> ptr \<Rightarrow> string \<Rightarrow> string \<Rightarrow> (string \<times> string) option" where
  "tree_line h c line stars =
     (case c of
        None \<Rightarrow> Some (line @ ''NULL |'' @ [newline], stars @ ''****'')
      | Some i \<Rightarrow>
          if length stars + 6 < 100
          then tree_line h (sibling (h i)) (line @ ''P'' @ dec (pid (h i)) @ '' -> '') (stars @ ''******'')
          else None)"

declare tree_line.simps [code]

fun DisplayBinaryTree :: "mt \<Rightarrow> nat list \<Rightarrow> string option" where
  "DisplayBinaryTree s [] = Some []"
| "DisplayBinaryTree s (i # is) =
     (if i = running s \<or> status (proc s i) = READY
      then do {
        (line, stars) \<leftarrow> tree_line (proc s) (child (proc s i))
          (''| parent = P'' @ dec (pid (proc s i)) @ '' | children = '') (replicate 29 (CHR ''*''));
        rest \<leftarrow> DisplayBinaryTree s is;
        Some (line @ stars @ [newline] @ rest)
      }
      else DisplayBinaryTree s is)"

section \<open>What they show\<close>

lemma print_cells_chain:
  "chain next p xs \<Longrightarrow> print_cells cell next p = Some (concat (map cell xs) @ NULL_line)"
proof (induction xs arbitrary: p)
  case Nil
  then show ?case by (subst print_cells.simps) simp
next
  case (Cons x xs)
  then have "print_cells cell next (next x) = Some (concat (map cell xs) @ NULL_line)" by simp
  with Cons.prems show ?case by (subst print_cells.simps) simp
qed

lemma tree_line_chain:
  "chain (\<lambda>i. sibling (h i)) c xs \<Longrightarrow> length stars + 6 * length xs < 100 \<Longrightarrow>
   tree_line h c line stars = Some (line @ concat (map (\<lambda>i. ''P'' @ dec (pid (h i)) @ '' -> '') xs) @
     ''NULL |'' @ [newline], stars @ replicate (6 * length xs + 4) (CHR ''*''))"
proof (induction xs arbitrary: c line stars)
  case Nil
  then show ?case by (subst tree_line.simps) (simp add: numeral_eq_Suc)
next
  case (Cons x xs)
  have "stars @ ''******'' @ replicate (6 * length xs + 4) (CHR ''*'') =
    stars @ replicate (6 * length (x # xs) + 4) (CHR ''*'')" by (simp add: numeral_eq_Suc)
  with Cons.prems Cons.IH [of "sibling (h x)" "stars @ ''******''"
    "line @ ''P'' @ dec (pid (h x)) @ '' -> ''"] show ?case
    by (subst tree_line.simps) simp
qed

text \<open>The printers show the whole queue: on lists that end, \<^verbatim>\<open>printList\<close>, \<^verbatim>\<open>printSleep\<close>
  and \<^verbatim>\<open>printChild\<close> return, with the name, one cell per process in the order of the list, and \<^verbatim>\<open>NULL\<close>.\<close>

theorem printers_show_the_list:
  assumes "chain (\<lambda>i. nxt (h i)) q xs" and "chain (\<lambda>i. sibling (h i)) c ys"
  shows "printList name h q = Some (name @ '' = '' @
      concat (map (\<lambda>i. ''['' @ dec (pid (h i)) @ '' '' @ dec (priority (h i)) @ '']->'') xs) @ NULL_line) \<and>
    printSleep name h q = Some (name @ '' = '' @
      concat (map (\<lambda>i. ''['' @ dec (pid (h i)) @ '' event='' @ dec (event (h i)) @ '']->'') xs) @ NULL_line) \<and>
    printChild name h c = Some (name @ '' = '' @
      concat (map (\<lambda>i. ''['' @ dec (pid (h i)) @ '' '' @ show_status (status (h i)) @ '']->'') ys) @ NULL_line)"
  by (simp add: printList_def printSleep_def printChild_def
    print_cells_chain [OF assms(1)] print_cells_chain [OF assms(2)])

theorem printers_show_the_list_witness:
  "let s = after [('''', 0), (''fork'', 0), (''fork'', 0)] in
   printList ''readyQueue'' (proc s) (readyQueue s) =
     Some (''readyQueue = [2 1]->[3 1]->[0 0]->NULL'' @ [newline]) \<and>
   printChild ''childList'' (proc s) (child (proc s 1)) =
     Some (''childList = [2 READY]->[3 READY]->NULL'' @ [newline])"
proof -
  let ?s = "after [('''', 0), (''fork'', 0), (''fork'', 0)]"
  have "chain (\<lambda>i. nxt (proc ?s i)) (readyQueue ?s) [2, 3, 0]"
    "chain (\<lambda>i. sibling (proc ?s i)) (child (proc ?s 1)) [2, 3]" by code_simp+
  from printers_show_the_list [OF this]
  have "printList ''readyQueue'' (proc ?s) (readyQueue ?s) = Some (''readyQueue'' @ '' = '' @
      concat (map (\<lambda>i. ''['' @ dec (pid (proc ?s i)) @ '' '' @ dec (priority (proc ?s i)) @ '']->'') [2, 3, 0]) @ NULL_line)"
    "printChild ''childList'' (proc ?s) (child (proc ?s 1)) = Some (''childList'' @ '' = '' @
      concat (map (\<lambda>i. ''['' @ dec (pid (proc ?s i)) @ '' '' @ show_status (status (proc ?s i)) @ '']->'') [2, 3]) @ NULL_line)"
    by blast+
  moreover have "concat (map (\<lambda>i. ''['' @ dec (pid (proc ?s i)) @ '' '' @ dec (priority (proc ?s i)) @ '']->'') [2, 3, 0])
      = ''[2 1]->[3 1]->[0 0]->''" by code_simp
  moreover have "concat (map (\<lambda>i. ''['' @ dec (pid (proc ?s i)) @ '' '' @ show_status (status (proc ?s i)) @ '']->'') [2, 3])
      = ''[2 READY]->[3 READY]->''" by code_simp
  ultimately show ?thesis by (simp add: Let_def NULL_line_def)
qed

end
