(* ===== verification/KernelTrace.thy ===== *)
theory KernelTrace
  imports KernelShow
begin

text \<open>
  What the handlers of \<^verbatim>\<open>PreLab3/Code/t.c\<close> and \<^verbatim>\<open>wait.c\<close> print on their way: the prompt of a process and the
  trace of each command, as texts computed from the state the handler starts in. \<open>None\<close> is a handler that does
  not return or prints a list that does not end. What a process prints after it has been switched to is its own.
\<close>

section \<open>The prompt\<close>

definition kmenu :: string where
  "kmenu = replicate 47 (CHR ''*'') @ [newline] @
     ''* ps fork switch exit jesus sleep wakeup wait * '' @ [newline] @
     replicate 47 (CHR ''*'') @ [newline]"

definition prompt_text :: "mt \<Rightarrow> string option" where
  "prompt_text s = do {
     children \<leftarrow> printChild ''childList'' (proc s) (child (proc s (running s)));
     ready \<leftarrow> printList ''readyQueue'' (proc s) (readyQueue s);
     asleep \<leftarrow> printSleep ''sleepList '' (proc s) (sleepList s);
     Some (replicate 39 (CHR ''*'') @ [newline] @
       ''proc '' @ dec (pid (proc s (running s))) @ '' running: parent='' @ dec (ppid (proc s (running s))) @ ''  '' @
       children @ ready @ asleep @ kmenu @ ''enter a command : '')
   }"

text \<open>The line typed at it: an array of 64, which keeps the last command when there is no more input.\<close>

definition read_cmd :: "string \<Rightarrow> string \<Rightarrow> (string \<times> string) option" where
  "read_cmd held input = typed_line 64 held input"

section \<open>Switching, sleeping, waking\<close>

definition scheduler_text :: "mt \<Rightarrow> string option" where
  "scheduler_text s = do {
     s1 \<leftarrow> (if status (proc s (running s)) = READY then enter_ready (running s) s else Some s);
     ready \<leftarrow> printList ''readyQueue'' (proc s1) (readyQueue s1);
     s2 \<leftarrow> scheduler s;
     Some (''proc '' @ dec (pid (proc s (running s))) @ '' in scheduler()'' @ [newline] @ ready @
       ''next running = '' @ dec (pid (proc s2 (running s2))) @ [newline])
   }"

definition sleep_text :: "int \<Rightarrow> mt \<Rightarrow> string option" where
  "sleep_text ev s = do {
     let s1 = set_proc (running s) (\<lambda>p. p\<lparr>event := ev, status := SLEEP\<rparr>) s;
     (h, q) \<leftarrow> enqueue (proc s1) (sleepList s1) (running s1);
     asleep \<leftarrow> printList ''sleepList'' h q;
     rest \<leftarrow> scheduler_text (s1\<lparr>proc := h, sleepList := q\<rparr>);
     Some (''proc '' @ dec (pid (proc s (running s))) @ '' going to sleep on event='' @ dec ev @ [newline] @ asleep @ rest)
   }"

partial_function (option) wakeup_lines :: "int \<Rightarrow> mt \<Rightarrow> ptr \<Rightarrow> string option" where
  "wakeup_lines ev s temp =
     (case dequeue (proc s) (sleepList s) of
        (None, q) \<Rightarrow> Some []
      | (Some p, q) \<Rightarrow>
          if event (proc s p) = ev
          then do {
            s1 \<leftarrow> enter_ready p (set_proc p (\<lambda>r. r\<lparr>status := READY\<rparr>) (s\<lparr>sleepList := q\<rparr>));
            rest \<leftarrow> wakeup_lines ev s1 temp;
            Some (''wakeup '' @ dec (pid (proc s p)) @ [newline] @ rest)
          }
          else do {
            (h, t) \<leftarrow> enqueue (proc s) temp p;
            wakeup_lines ev (s\<lparr>sleepList := q, proc := h\<rparr>) t
          })"

declare wakeup_lines.simps [code]

definition wakeup_text :: "int \<Rightarrow> mt \<Rightarrow> string option" where
  "wakeup_text ev s = do {
     before \<leftarrow> printList ''sleepList'' (proc s) (sleepList s);
     lines \<leftarrow> wakeup_lines ev s None;
     s1 \<leftarrow> wakeup ev s;
     behind \<leftarrow> printList ''sleepList'' (proc s1) (sleepList s1);
     Some (before @ lines @ behind)
   }"

section \<open>Forking, ending, waiting\<close>

definition do_kfork_text :: "mt \<Rightarrow> string option" where
  "do_kfork_text s = do {
     (s1, c) \<leftarrow> kfork s;
     if c < 0 then Some (''no more proc'' @ [newline] @ ''kfork failed'' @ [newline])
     else do {
       ready \<leftarrow> printList ''readyQueue'' (proc s1) (readyQueue s1);
       Some (''proc '' @ dec (pid (proc s1 (running s1))) @ '' kforked a child = '' @ dec c @ [newline] @ ready)
     }
   }"

definition kexit_text :: "int \<Rightarrow> mt \<Rightarrow> string option" where
  "kexit_text v s =
     (if running s \<noteq> 1
      then do {
        s1 \<leftarrow> give_away s;
        let s2 = set_proc (running s1) (\<lambda>r. r\<lparr>exitCode := v, status := ZOMBIE\<rparr>) s1;
        let ppa = (case parent (proc s2 (running s2)) of
                     Some a \<Rightarrow> proc_addr s2 a
                   | None \<Rightarrow> proc_addr s2 1);
        waking \<leftarrow> wakeup_text ppa s2;
        s3 \<leftarrow> wakeup ppa s2;
        switching \<leftarrow> scheduler_text s3;
        Some (''proc '' @ dec (pid (proc s (running s))) @ '' in kexit(), value='' @ dec v @ [newline] @ waking @ switching)
      }
      else Some (''P1 Never Dies'' @ [newline]))"

definition wait_result :: "mt \<Rightarrow> int \<Rightarrow> int \<Rightarrow> string" where
  "wait_result s c code =
     (if c \<noteq> - 1
      then ''proc'' @ dec (pid (proc s (running s))) @ '' buried a ZOMBIE child = '' @ dec c @ '' status = ''
        @ dec code @ [newline]
      else ''wait error: no child'' @ [newline])"

definition do_wait_text :: "mt \<Rightarrow> string option" where
  "do_wait_text s = do {
     (s1, r) \<leftarrow> kwait s;
     let waits = ''proc '' @ dec (pid (proc s (running s))) @ '' waits for a ZOMBIE child'' @ [newline];
     (case r of
        Returned c code \<Rightarrow>
          Some (waits @ wait_result s1 c code)
      | Asleep \<Rightarrow> map_option (\<lambda>t. waits @ t) (sleep_text (proc_addr s (running s)) s))
   }"

fun jesus_lines :: "nat list \<Rightarrow> mt \<Rightarrow> string" where
  "jesus_lines [] s = []"
| "jesus_lines (i # is) s =
     (if status (proc s i) = ZOMBIE
      then ''raised a ZOMBIE '' @ dec (pid (proc s i)) @ '' to live again'' @ [newline] @ jesus_lines is s
      else jesus_lines is s)"

definition do_jesus_text :: "mt \<Rightarrow> string option" where
  "do_jesus_text s = do {
     s1 \<leftarrow> do_jesus s;
     ready \<leftarrow> printList ''readyQueue'' (proc s1) (readyQueue s1);
     Some (''Jesus perfroms miracles here'' @ [newline] @ jesus_lines [1..<NPROC] s @ ready)
   }"

section \<open>The commands\<close>

text \<open>The number of the event is the one that is typed behind the question.\<close>

definition do_sleep_text :: "int \<Rightarrow> mt \<Rightarrow> string option" where
  "do_sleep_text ev s = map_option (\<lambda>t. ''enter an event value to sleep on : '' @ t) (sleep_text ev s)"

definition do_wakeup_text :: "int \<Rightarrow> mt \<Rightarrow> string option" where
  "do_wakeup_text ev s = map_option (\<lambda>t. ''enter an event value to wakeup with : '' @ t) (wakeup_text ev s)"

text \<open>What a command prints before the process that runs next goes on; unknown words print nothing.\<close>

definition command_text :: "string \<Rightarrow> int \<Rightarrow> mt \<Rightarrow> string option" where
  "command_text cmd ev s =
     (if cmd = ''ps'' then Some (do_ps s)
      else if cmd = ''fork'' then do_kfork_text s
      else if cmd = ''switch'' then scheduler_text s
      else if cmd = ''exit'' then kexit_text (pid (proc s (running s))) s
      else if cmd = ''jesus'' then do_jesus_text s
      else if cmd = ''sleep'' then do_sleep_text ev s
      else if cmd = ''wakeup'' then do_wakeup_text ev s
      else if cmd = ''wait'' then do_wait_text s
      else Some [])"

text \<open>From the start of \<^verbatim>\<open>main\<close> to the first switch, and the first line of a process.\<close>

definition start_text :: "int \<Rightarrow> string option" where
  "start_text base = do {
     s \<leftarrow> init (zero_mt base);
     free \<leftarrow> printList ''freeList'' (proc s) (freeList s);
     (s1, c) \<leftarrow> kfork s;
     Some (''Welcome to the MT Multitasking System'' @ [newline] @ free @ ''init complete: P0 running'' @ [newline] @
       (if c < 0 then ''no more proc'' @ [newline] else []))
   }"

definition body_start_text :: "mt \<Rightarrow> string" where
  "body_start_text s = ''proc '' @ dec (pid (proc s (running s))) @ '' starts from body(): myname = Austin Marino'' @ [newline]"

section \<open>What they show\<close>

text \<open>The cells of the ready queue: P0 has priority 0, every other process 1.\<close>

definition ready_cells :: "nat list \<Rightarrow> string" where
  "ready_cells rq = concat (map (\<lambda>i. ''['' @ dec (int i) @ '' '' @ (if i = 0 then ''0'' else ''1'') @ '']->'') rq) @ NULL_line"

lemma dec_01: "dec 0 = ''0''" "dec 1 = ''1''"
  by code_simp+

lemma cell_text:
  assumes "procs_ok h run fr rq sl" and "i < NPROC" and "i \<notin> set fr"
  shows "''['' @ dec (pid (h i)) @ '' '' @ dec (priority (h i)) @ '']->'' =
    ''['' @ dec (int i) @ '' '' @ (if i = 0 then ''0'' else ''1'') @ '']->''"
  using assms dec_01 by (simp add: procs_ok_def)

lemma printList_ready:
  assumes "chain (nexts h) q xs" and "\<forall>i \<in> set xs. pid (h i) = int i \<and> priority (h i) = (if i = 0 then 0 else 1)"
  shows "printList name h q = Some (name @ '' = '' @ ready_cells xs)"
proof -
  have "(\<lambda>i. nxt (h i)) = nexts h" by (rule ext) (simp add: nexts_def)
  moreover have "map (\<lambda>i. ''['' @ dec (pid (h i)) @ '' '' @ dec (priority (h i)) @ '']->'') xs
    = map (\<lambda>i. ''['' @ dec (int i) @ '' '' @ (if i = 0 then ''0'' else ''1'') @ '']->'') xs"
    using assms(2) dec_01 by simp
  ultimately show ?thesis
    using print_cells_chain [OF assms(1)] by (simp only: printList_def ready_cells_def option.map)
qed

lemma kinv_prints:
  assumes "kinv s fr rq sl"
  shows "printList name (proc s) (readyQueue s) = Some (name @ '' = '' @ ready_cells rq)"
    and "printList name (proc s) (sleepList s) = Some (name @ '' = '' @ ready_cells sl)"
proof -
  have q: "chain (nexts (proc s)) (readyQueue s) rq" "chain (nexts (proc s)) (sleepList s) sl"
    "\<forall>i \<in> set rq \<union> set sl. i < NPROC \<and> i \<notin> set fr"
    using kinv_queues [OF assms] by (auto simp: queues4_def)
  have p: "\<forall>i<NPROC. pid (proc s i) = int i" "\<forall>i<NPROC. i \<notin> set fr \<longrightarrow> priority (proc s i) = (if i = 0 then 0 else 1)"
    using assms by (simp_all add: kinv_def kwf_def procs_ok_def)
  show "printList name (proc s) (readyQueue s) = Some (name @ '' = '' @ ready_cells rq)"
    by (rule printList_ready [OF q(1)]) (use p q(3) in auto)
  show "printList name (proc s) (sleepList s) = Some (name @ '' = '' @ ready_cells sl)"
    by (rule printList_ready [OF q(2)]) (use p q(3) in auto)
qed

lemma scheduler_text_ready:
  assumes k: "kinv s fr rq sl" and r0: "running s \<noteq> 0"
  shows "scheduler_text s = Some (''proc '' @ dec (int (running s)) @ '' in scheduler()'' @ [newline] @
    ''readyQueue = '' @ ready_cells (add_ready (running s) rq) @
    ''next running = '' @ dec (int (hd (add_ready (running s) rq))) @ [newline])"
proof -
  note rq1 = switch_queue [OF k r0]
  from kinv_running [OF k] have r: "running s \<notin> set (fr @ rq @ sl @ [])" "running s < NPROC" by simp_all
  from enter_ready_ok [OF kinv_queues [OF k] r] obtain h t where
    e: "enter_ready (running s) s = Some (s\<lparr>proc := h, readyQueue := t\<rparr>)"
    and q: "queues4 h (freeList s) t (sleepList s) None fr (add_ready (running s) rq) sl []"
    and f: "next_frame (insert (running s) (set rq)) (proc s) h"
    unfolding rq1 by blast
  have p: "\<forall>i<NPROC. pid (proc s i) = int i" "\<forall>i<NPROC. i \<notin> set fr \<longrightarrow> priority (proc s i) = (if i = 0 then 0 else 1)"
    and st: "status (proc s (running s)) = READY"
    using k by (simp_all add: kinv_def kwf_def procs_ok_def)
  have c: "chain (nexts h) t (add_ready (running s) rq)" "\<forall>i \<in> set (add_ready (running s) rq). i < NPROC \<and> i \<notin> set fr"
    using q by (auto simp: queues4_def)
  with p have "\<forall>i \<in> set (add_ready (running s) rq). pid (h i) = int i \<and> priority (h i) = (if i = 0 then 0 else 1)"
    by (simp add: next_frame_fields [OF f])
  from printList_ready [OF c(1) this] have
    pl: "printList ''readyQueue'' h t = Some (''readyQueue = '' @ ready_cells (add_ready (running s) rq))" by simp
  from scheduler_ready [OF k, unfolded rq1] obtain s' where
    s': "scheduler s = Some s'" "running s' = hd (add_ready (running s) rq)" "kinv s' fr (tl (add_ready (running s) rq)) sl" by blast
  have "pid (proc s' (running s')) = int (running s')"
    using s'(3) kinv_running [OF s'(3)] by (simp add: kinv_def kwf_def procs_ok_def)
  with e pl s' st p(1) r(2) show ?thesis by (simp add: scheduler_text_def)
qed

lemma do_kfork_text_ok:
  assumes k: "kinv s (p # fr) rq sl"
  shows "do_kfork_text s = Some (''proc '' @ dec (int (running s)) @ '' kforked a child = '' @ dec (int p) @ [newline] @
    ''readyQueue = '' @ ready_cells (add_ready p rq))"
proof -
  from kfork_ok [OF k] obtain s' where s': "kfork s = Some (s', int p)" "kinv s' fr (add_ready p rq) sl" "running s' = running s" by blast
  have "pid (proc s' (running s')) = int (running s')"
    using s'(2) kinv_running [OF s'(2)] by (simp add: kinv_def kwf_def procs_ok_def)
  with s' kinv_prints(1) [OF s'(2)] show ?thesis by (simp add: do_kfork_text_def)
qed

lemma print_cells_ends:
  assumes "print_cells cell next p = Some t"
  shows "\<exists>xs. chain next p xs"
  using assms
proof (induction rule: print_cells.raw_induct [rotated, consumes 1, case_names step])
  case (step go cell nx p t)
  show ?case
  proof (cases p)
    case (Some i)
    with step.hyps obtain r where "go cell nx (nx i) = Some r" by (auto simp: bind_eq_Some_conv)
    from step.IH [OF this] obtain xs where "chain nx (nx i) xs" ..
    with Some have "chain nx p (i # xs)" by simp
    then show ?thesis ..
  qed (auto intro: exI [of _ "[]"])
qed

lemma prompt_text_ends: "prompt_text s = Some t \<Longrightarrow> \<exists>cs. kids (proc s) (running s) cs"
  using print_cells_ends by (fastforce simp: prompt_text_def printChild_def kids_def sibs_def [abs_def] bind_eq_Some_conv)

lemma prompt_text_kids:
  assumes "kinv s fr rq sl" and "kids (proc s) (running s) cs"
  shows "prompt_text s = Some (replicate 39 (CHR ''*'') @ [newline] @
      ''proc '' @ dec (int (running s)) @ '' running: parent='' @ dec (ppid (proc s (running s))) @ ''  '' @
      ''childList = '' @ concat (map (\<lambda>i. ''['' @ dec (pid (proc s i)) @ '' '' @ show_status (status (proc s i)) @ '']->'') cs) @ NULL_line @
      ''readyQueue = '' @ ready_cells rq @
      ''sleepList  = '' @ concat (map (\<lambda>i. ''['' @ dec (int i) @ '' event='' @ dec (event (proc s i)) @ '']->'') sl) @ NULL_line @
      kmenu @ ''enter a command : '')"
proof -
  have pids: "\<forall>i<NPROC. pid (proc s i) = int i" using assms(1) by (simp add: kinv_def kwf_def procs_ok_def)
  have n: "(\<lambda>i. nxt (proc s i)) = nexts (proc s)" "(\<lambda>i. sibling (proc s i)) = sibs (proc s)"
    by (rule ext, simp add: nexts_def sibs_def)+
  have sl: "chain (nexts (proc s)) (sleepList s) sl" "\<forall>i \<in> set sl. i < NPROC"
    using kinv_queues [OF assms(1)] by (auto simp: queues4_def)
  have ps: "concat (map (\<lambda>i. ''['' @ dec (pid (proc s i)) @ '' event='' @ dec (event (proc s i)) @ '']->'') sl)
    = concat (map (\<lambda>i. ''['' @ dec (int i) @ '' event='' @ dec (event (proc s i)) @ '']->'') sl)"
    using sl(2) pids by (intro arg_cong [where f = concat] map_cong) simp_all
  show ?thesis
    using print_cells_chain [OF assms(2) [unfolded kids_def]] print_cells_chain [OF sl(1)] kinv_prints(1) [OF assms(1)]
      kinv_running [OF assms(1)] pids ps
    by (simp add: prompt_text_def printChild_def printSleep_def n)
qed



end
