(* ===== verification/KernelConsole.thy ===== *)
theory KernelConsole
  imports KernelTrace
begin

text \<open>
  The kernel of \<^verbatim>\<open>PreLab3/Code\<close> with its keyboard and screen: a turn of the running process reads its command
  and the number a command asks for, runs the handler and prints what the process prints on its way. Each
  process has the array of its last command on its own stack.
\<close>

section \<open>Keyboard and screen\<close>

record console =
  kernel :: mt
  in_body :: "nat \<Rightarrow> bool"
  cmd_array :: "nat \<Rightarrow> string"
  keys :: string
  printed :: string

text \<open>\<^verbatim>\<open>scanf("%d", &event); getchar()\<close>.\<close>

definition read_event :: "string \<Rightarrow> (int \<times> string) option" where
  "read_event input = map_option (\<lambda>(n, rest). (n, tl rest)) (scan_int input)"

definition asks_event :: "string \<Rightarrow> bool" where
  "asks_event cmd \<longleftrightarrow> cmd = ''sleep'' \<or> cmd = ''wakeup''"

text \<open>P0 switches; a process at its prompt does what is typed; one that wakes up in \<^verbatim>\<open>kwait\<close> ends its command.\<close>

definition body_turn :: "console \<Rightarrow> console option" where
  "body_turn c = do {
     let s = kernel c;
     let r = running s;
     prompt \<leftarrow> prompt_text s;
     (cmd, rest) \<leftarrow> read_cmd (cmd_array c r) (keys c);
     (ev, rest') \<leftarrow> (if asks_event cmd then read_event rest else Some (0, rest));
     t \<leftarrow> command_text cmd ev s;
     s1 \<leftarrow> body_cmd cmd ev s;
     let inside = (in_body c)(r := True);
     Some \<lparr>kernel = s1,
       in_body = (case freeList s of Some p \<Rightarrow> if cmd = ''fork'' then inside(p := False) else inside | None \<Rightarrow> inside),
       cmd_array = (cmd_array c)(r := cmd), keys = rest',
       printed = printed c @ (if in_body c r then [] else body_start_text s) @ prompt @ t\<rparr>
   }"

definition console_turn :: "console \<Rightarrow> console option" where
  "console_turn c =
     (let s = kernel c
      in case ctx s (running s) of
           Main \<Rightarrow>
             if readyQueue s = None then None
             else do {
               t \<leftarrow> scheduler_text s;
               s1 \<leftarrow> tswitch Main s;
               Some (c\<lparr>kernel := s1, printed := printed c @ ''P0: switch process'' @ [newline] @ t\<rparr>)
             }
         | Body \<Rightarrow> body_turn c
         | InWait cp \<Rightarrow> do {
             (s1, r) \<leftarrow> kwait_loop cp s;
             (case r of
                Returned p code \<Rightarrow>
                  Some (c\<lparr>kernel := s1\<lparr>ctx := (ctx s1)(running s1 := Body)\<rparr>, printed := printed c @ wait_result s1 p code\<rparr>)
              | Asleep \<Rightarrow> do {
                  t \<leftarrow> sleep_text (proc_addr s (running s)) s;
                  Some (c\<lparr>kernel := s1, printed := printed c @ t\<rparr>)
                })
           })"

primrec console_turns :: "nat \<Rightarrow> console \<Rightarrow> console option" where
  "console_turns 0 c = Some c"
| "console_turns (Suc n) c = Option.bind (console_turn c) (console_turns n)"

text \<open>The start: what \<^verbatim>\<open>main\<close> prints before its loop, and the arrays of the processes empty.\<close>

definition console_start :: "int \<Rightarrow> string \<Rightarrow> console option" where
  "console_start base input = do {
     s \<leftarrow> boot base;
     t \<leftarrow> start_text base;
     Some \<lparr>kernel = s, in_body = (\<lambda>_. False), cmd_array = (\<lambda>_. []), keys = input, printed = t\<rparr>
   }"

section \<open>The console drives the kernel\<close>

text \<open>Every turn is a step of the kernel on the command that was read, so what holds in its reachable states
  holds at the console.\<close>

lemma body_turn_body:
  assumes "body_turn c = Some c'"
  obtains cmd ev where "body_cmd cmd ev (kernel c) = Some (kernel c')"
  using assms by (auto simp: body_turn_def Let_def split: Option.bind_split_asm prod.split_asm)

lemma console_turn_kstep:
  assumes "console_turn c = Some c'"
  obtains cmd ev where "kstep cmd ev (kernel c) = Some (kernel c')"
proof (cases "ctx (kernel c) (running (kernel c))")
  case Main
  with assms have "kstep [] 0 (kernel c) = Some (kernel c')"
    by (auto simp: console_turn_def kstep_def Let_def split: if_split_asm Option.bind_split_asm)
  then show thesis by (rule that)
next
  case Body
  with assms have "body_turn c = Some c'" by (simp add: console_turn_def)
  then obtain cmd ev where "body_cmd cmd ev (kernel c) = Some (kernel c')" by (rule body_turn_body)
  with Body have "kstep cmd ev (kernel c) = Some (kernel c')" by (simp add: kstep_def)
  then show thesis by (rule that)
next
  case (InWait cp)
  with assms have "kstep [] 0 (kernel c) = Some (kernel c')"
    by (auto simp: console_turn_def kstep_def Let_def split: Option.bind_split_asm prod.split_asm wait_res.split_asm)
  then show thesis by (rule that)
qed

lemma console_turns_reach: "console_turns n c = Some c' \<Longrightarrow> reach base (kernel c) \<Longrightarrow> reach base (kernel c')"
proof (induction n arbitrary: c)
  case (Suc n)
  then obtain d where d: "console_turn c = Some d" "console_turns n d = Some c'" by (auto simp: bind_eq_Some_conv)
  from d(1) obtain cmd ev where "kstep cmd ev (kernel c) = Some (kernel d)" by (rule console_turn_kstep)
  with Suc.IH [OF d(2)] Suc.prems(2) show ?case by (auto intro: reach_step)
qed simp

theorem console_reaches:
  "console_start base input = Some c \<Longrightarrow> console_turns n c = Some c' \<Longrightarrow> reach base (kernel c') \<and> kgood (kernel c')"
proof -
  assume "console_start base input = Some c" and t: "console_turns n c = Some c'"
  then have "reach base (kernel c)" by (auto simp: console_start_def bind_eq_Some_conv intro: reach_boot)
  then have "reach base (kernel c')" by (rule console_turns_reach [OF t])
  with reach_kinv [OF this] show ?thesis by simp
qed

section \<open>What is typed is what runs\<close>

text \<open>A list of commands as it is typed, with the numbers they ask for.\<close>

definition typed_command :: "string \<times> int \<Rightarrow> string" where
  "typed_command = (\<lambda>(cmd, ev). cmd @ [newline] @ (if asks_event cmd then dec ev @ [newline] else []))"

definition script :: "(string \<times> int) list \<Rightarrow> string" where
  "script cs = concat (map typed_command cs)"

definition command_ok :: "string \<times> int \<Rightarrow> bool" where
  "command_ok = (\<lambda>(cmd, ev). plain cmd \<and> length cmd < 63 \<and> - (2 ^ 31) \<le> ev \<and> ev < 2 ^ 31)"

lemma read_event_typed: "- (2 ^ 31) \<le> ev \<Longrightarrow> ev < 2 ^ 31 \<Longrightarrow> read_event (dec ev @ newline # rest) = Some (ev, rest)"
  by (simp add: read_event_def scan_int_dec)

lemma body_cmd_event: "\<not> asks_event cmd \<Longrightarrow> body_cmd cmd ev s = body_cmd cmd 0 s \<and> command_text cmd ev s = command_text cmd 0 s"
  by (simp add: asks_event_def body_cmd_def command_text_def)

theorem typed_command_runs:
  assumes "ctx (kernel c) (running (kernel c)) = Body" and "keys c = script ((cmd, ev) # cs)" and "command_ok (cmd, ev)"
    and "prompt_text (kernel c) = Some prompt" and "command_text cmd ev (kernel c) = Some t"
    and "kstep cmd ev (kernel c) = Some s1"
  shows "\<exists>c'. console_turn c = Some c' \<and> kernel c' = s1 \<and> keys c' = script cs
    \<and> printed c' = printed c @ (if in_body c (running (kernel c)) then [] else body_start_text (kernel c)) @ prompt @ t"
proof -
  let ?r = "running (kernel c)"
  have ok: "plain cmd" "length cmd + 1 < 64" "- (2 ^ 31) \<le> ev" "ev < 2 ^ 31" using assms(3) by (simp_all add: command_ok_def)
  let ?rest = "(if asks_event cmd then dec ev @ [newline] else []) @ script cs"
  have "keys c = cmd @ newline # ?rest" using assms(2) by (simp add: script_def typed_command_def)
  then have l: "read_cmd (cmd_array c ?r) (keys c) = Some (cmd, ?rest)"
    using typed_line_short [OF ok(1,2)] by (simp add: read_cmd_def)
  have e: "(if asks_event cmd then read_event ?rest else Some (0, ?rest)) = Some (if asks_event cmd then ev else 0, script cs)"
    using read_event_typed [OF ok(3,4), of "script cs"] by simp
  have b: "body_cmd cmd (if asks_event cmd then ev else 0) (kernel c) = Some s1"
    "command_text cmd (if asks_event cmd then ev else 0) (kernel c) = Some t"
    using assms(1,5,6) body_cmd_event [of cmd ev "kernel c"] by (auto simp: kstep_def)
  from assms(1,4) l b show ?thesis
    unfolding console_turn_def body_turn_def Let_def by (simp add: e del: if_True if_False split del: if_split)
qed

section \<open>Waiting at the console\<close>

text \<open>C10. A process that finds no dead child goes to sleep on its own address, and when it resumes,
  whatever has happened meanwhile, \<^verbatim>\<open>kwait\<close> returns -1 without looking again, and its \<^verbatim>\<open>wait\<close> command prints
  ``no child'' and changes nothing: the assignment in the condition has cleared \<^verbatim>\<open>childProc\<close>.\<close>

theorem wait_after_sleep_fails:
  assumes "kinv s fr rq sl" and "running s \<noteq> 0" and "kids (proc s) (running s) (y # ys)"
    and "\<forall>i \<in> set (y # ys). status (proc s i) \<noteq> ZOMBIE"
  shows "\<exists>s1 cp. kwait s = Some (s1, Asleep) \<and> event (proc s1 (running s)) = proc_addr s (running s) \<and>
    kinv s1 fr (tl rq) (sl @ [running s]) \<and> ctx s1 (running s) = InWait cp \<and>
    (\<forall>t. kwait_loop cp t = Some (t, Returned (- 1) 0)) \<and>
    (\<forall>c. ctx (kernel c) (running (kernel c)) = InWait cp \<longrightarrow>
       console_turn c = Some (c\<lparr>kernel := (kernel c)\<lparr>ctx := (ctx (kernel c))(running (kernel c) := Body)\<rparr>,
         printed := printed c @ ''wait error: no child'' @ [newline]\<rparr>))"
proof -
  have "good_ctx (running s) (InWait None)" using assms(2) by (simp add: good_ctx_def)
  from sleep_ok [OF assms(1,2) this, of "proc_addr s (running s)"] obtain s1 where
    "sleep (proc_addr s (running s)) (InWait None) s = Some s1" "kinv s1 fr (tl rq) (sl @ [running s])"
    "event (proc s1 (running s)) = proc_addr s (running s)" "ctx s1 (running s) = InWait None" by auto
  with kwait_alive [OF assms(3,4)] show ?thesis
    by (intro exI [of _ s1] exI [of _ None]) (auto simp: console_turn_def kwait_loop_def wait_result_def Let_def)
qed

theorem wait_after_sleep_fails_witness:
  "let s = after [('''', 0), (''fork'', 0)] in
   \<exists>s1. kwait s = Some (s1, Asleep) \<and> kinv s1 [3, 4, 5, 6, 7, 8] [0] [1]"
proof -
  let ?s = "after [('''', 0), (''fork'', 0)]"
  have "chain (nexts (proc ?s)) (freeList ?s) [3, 4, 5, 6, 7, 8]"
    "chain (nexts (proc ?s)) (readyQueue ?s) [2, 0]"
    "chain (nexts (proc ?s)) (sleepList ?s) []" by code_simp+
  from kinv_lists [OF after_kgood this] have k: "kinv ?s [3, 4, 5, 6, 7, 8] [2, 0] []" .
  have r: "running ?s = 1" by code_simp
  have c: "kids (proc ?s) (running ?s) [2]" "status (proc ?s 2) = READY" by code_simp+
  from wait_after_sleep_fails [OF k _ c(1)] show ?thesis by (auto simp: r c(2))
qed

text \<open>At the end of the input \<^verbatim>\<open>fgets\<close> leaves the array as it is, and its last character is cut off all the same: the
  last command of the process is run again, one character shorter each time, until the program writes in front
  of the array.\<close>

theorem end_of_input_repeats:
  assumes "CHR 0x00 \<notin> set l"
  shows "read_cmd l [] = (if l = [] then None else Some (butlast l, []))"
proof -
  have tw: "takeWhile (\<lambda>c. c \<noteq> CHR 0x00) l = l" using assms by (auto simp: takeWhile_eq_all_conv)
  show ?thesis by (simp add: read_cmd_def typed_line_def fgets_def Let_def tw)
qed

end
