(* ===== verification/KStack.thy ===== *)
theory KStack
  imports Kernel "HOL-Library.Word"
begin

text \<open>
  The machine side of a context switch: \<^verbatim>\<open>PreLab3/Code/ts.s\<close>, which saves the registers of one
  process on its stack and restores those of another, and the stack \<^verbatim>\<open>kfork\<close> builds so that the
  first resume of a process looks like a call of \<^verbatim>\<open>body\<close>. The stack grows towards lower indices
  of \<^verbatim>\<open>kstack\<close>; \<open>None\<close> is a push below the array, which would overwrite the PROC itself.
\<close>

definition SSIZE :: nat where
  "SSIZE = 1024"

type_synonym cell = "32 word"

record regs =
  eax :: cell
  ebx :: cell
  ecx :: cell
  edx :: cell
  ebp :: cell
  esi :: cell
  edi :: cell
  eflag :: cell

type_synonym stack = "cell list \<times> nat"

definition push :: "cell \<Rightarrow> stack \<Rightarrow> stack option" where
  "push w s = (case s of (st, sp) \<Rightarrow> if sp = 0 then None else Some (st[sp - 1 := w], sp - 1))"

definition pop :: "stack \<Rightarrow> cell \<times> stack" where
  "pop s = (case s of (st, sp) \<Rightarrow> (st ! sp, (st, sp + 1)))"

text \<open>The call of \<^verbatim>\<open>tswitch\<close> pushes the return address, the code up to FIND the registers.\<close>

definition SAVE :: "cell \<Rightarrow> regs \<Rightarrow> stack \<Rightarrow> stack option" where
  "SAVE retPC r s = do {
     s1 \<leftarrow> push retPC s;
     s2 \<leftarrow> push (eax r) s1;
     s3 \<leftarrow> push (ebx r) s2;
     s4 \<leftarrow> push (ecx r) s3;
     s5 \<leftarrow> push (edx r) s4;
     s6 \<leftarrow> push (ebp r) s5;
     s7 \<leftarrow> push (esi r) s6;
     s8 \<leftarrow> push (edi r) s7;
     push (eflag r) s8
   }"

definition RESUME :: "stack \<Rightarrow> cell \<times> regs \<times> stack" where
  "RESUME s =
     (let (fl, s1) = pop s;
          (di, s2) = pop s1;
          (si, s3) = pop s2;
          (bp, s4) = pop s3;
          (dx, s5) = pop s4;
          (cx, s6) = pop s5;
          (bx, s7) = pop s6;
          (ax, s8) = pop s7;
          (pc, s9) = pop s8
      in (pc, \<lparr>eax = ax, ebx = bx, ecx = cx, edx = dx, ebp = bp, esi = si, edi = di, eflag = fl\<rparr>, s9))"

text \<open>
  The stack of a new process: eleven cells zeroed, the name as the argument of \<^verbatim>\<open>body\<close>, and the
  address of \<^verbatim>\<open>body\<close> as the return address of \<^verbatim>\<open>tswitch\<close>.
\<close>

definition kfork_stack :: "cell \<Rightarrow> cell \<Rightarrow> cell list \<Rightarrow> stack" where
  "kfork_stack name body st =
     (let st1 = foldl (\<lambda>k i. k[SSIZE - i := 0]) st [1..<12];
          st2 = st1[SSIZE - 1 := name];
          st3 = st2[SSIZE - 3 := body]
      in (st3, SSIZE - 11))"

section \<open>A switch loses nothing\<close>

lemma push_pop:
  assumes "push w (st, sp) = Some (st', sp')" and "sp \<le> length st"
  shows "pop (st', sp') = (w, (st', sp))" and "sp = Suc sp'" and "length st' = length st"
    and "\<And>i. i \<noteq> sp' \<Longrightarrow> st' ! i = st ! i"
  using assms by (auto simp: push_def pop_def split: if_splits)

lemma push_some: "0 < sp \<Longrightarrow> push w (st, sp) = Some (st[sp - 1 := w], sp - 1)"
  by (simp add: push_def)

lemma SAVE_some:
  assumes "9 \<le> sp"
  shows "SAVE pc r (st, sp) = Some (st[sp - 1 := pc, sp - 2 := eax r, sp - 3 := ebx r, sp - 4 := ecx r,
    sp - 5 := edx r, sp - 6 := ebp r, sp - 7 := esi r, sp - 8 := edi r, sp - 9 := eflag r], sp - 9)"
proof -
  obtain n where "sp = n + 9" using assms le_Suc_ex by (metis add.commute)
  then show ?thesis by (simp add: SAVE_def push_some numeral_eq_Suc)
qed

text \<open>C13. What SAVE pushes, RESUME pops: a process that gave the processor up continues at its own
  return address with all its registers and flags, its stack pointer is where it was before the call,
  and the part of the stack in use is unchanged. Nine free cells are enough.\<close>

theorem save_resume:
  assumes "9 \<le> sp" and "sp \<le> length st"
  shows "\<exists>st'. SAVE pc r (st, sp) = Some (st', sp - 9) \<and> RESUME (st', sp - 9) = (pc, r, (st', sp)) \<and>
    length st' = length st \<and> (\<forall>i. sp \<le> i \<longrightarrow> st' ! i = st ! i)"
proof -
  obtain n where n: "sp = n + 9" using assms(1) le_Suc_ex by (metis add.commute)
  with assms(2) have l: "n + 9 \<le> length st" by simp
  show ?thesis
    unfolding SAVE_some [OF assms(1)] using l
    by (simp add: n RESUME_def pop_def Let_def nth_list_update)
qed

theorem save_resume_witness:
  "let st = replicate SSIZE 0; r = \<lparr>eax = 1, ebx = 2, ecx = 3, edx = 4, ebp = 5, esi = 6, edi = 7, eflag = 8\<rparr>
   in \<exists>st'. SAVE 99 r (st, 1000) = Some (st', 991) \<and> RESUME (st', 991) = (99, r, (st', 1000))"
  using save_resume [of 1000 "replicate SSIZE 0" 99] by (auto simp: Let_def SSIZE_def)

text \<open>The first resume of a forked process enters \<^verbatim>\<open>body\<close> with all registers zero, as if it
  had been called: above the stack pointer there are a zero return address and the name as argument.\<close>

theorem first_resume_calls_body:
  assumes "length st = SSIZE"
  shows "\<exists>st'. RESUME (kfork_stack name body st) =
      (body, \<lparr>eax = 0, ebx = 0, ecx = 0, edx = 0, ebp = 0, esi = 0, edi = 0, eflag = 0\<rparr>, (st', SSIZE - 2)) \<and>
    st' ! (SSIZE - 2) = 0 \<and> st' ! (SSIZE - 1) = name \<and> (\<forall>i < SSIZE - 11. st' ! i = st ! i)"
proof -
  have "[1..<12] = [1, 2, 3, 4, 5, 6, 7, 8, 9, 10, 11 :: nat]" by code_simp
  with assms show ?thesis
    by (simp add: kfork_stack_def RESUME_def pop_def Let_def SSIZE_def nth_list_update)
qed

theorem first_resume_calls_body_witness:
  "\<exists>r st'. RESUME (kfork_stack 17 42 (replicate SSIZE 5)) = (42, r, (st', 1022)) \<and> st' ! 1023 = 17"
  using first_resume_calls_body [of "replicate SSIZE 5" 17 42] by (auto simp: SSIZE_def)

end
