(* ===== verification/DirTree.thy ===== *)
theory DirTree
  imports Text
begin

text \<open>
  \<^verbatim>\<open>Lab2/Lab2.c\<close>: a simulated file system, a tree of heap nodes linked by \<^verbatim>\<open>Child\<close>, \<^verbatim>\<open>Sibling\<close>
  and \<^verbatim>\<open>Parent\<close> pointers, with a command interpreter. The memory is a partial map from addresses to
  nodes: reading an address that is not allocated, a NULL pointer, or writing past the end of one of
  the fixed arrays of characters is \<open>None\<close>. The printed text is collected in \<open>out\<close>.
\<close>

section \<open>State\<close>

definition PATH :: nat where "PATH = 64"
definition LINE_TREE :: nat where "LINE_TREE = 128"
definition CMD :: nat where "CMD = 16"

definition ROOT :: string where "ROOT = ''~''"
definition ABSPATH :: string where "ABSPATH = ''/''"

type_synonym ptr = "nat option"

record NODE =
  Name :: string
  Type :: char
  Child :: ptr
  Sibling :: ptr
  Parent :: ptr

type_synonym memory = "nat \<Rightarrow> NODE option"

record fs =
  mem :: memory
  brk :: nat
  root :: nat
  start :: nat
  cwd :: ptr
  pathname :: string
  cwPath :: string
  dname :: string
  bname :: string
  disk :: "string \<Rightarrow> string list option"
  out :: string

text \<open>
  What the program leaves to its surroundings: the \<^verbatim>\<open>Child\<close> field of the node \<^verbatim>\<open>initialize\<close>
  allocates, which it never sets; the value of a function that ends without \<^verbatim>\<open>return\<close>; the names
  under which a file can be created.
\<close>

record host =
  junk_child :: ptr
  junk_ret :: int
  can_create :: "string \<Rightarrow> bool"

definition quoted :: "string \<Rightarrow> string" where
  "quoted t = [CHR 0x27] @ t @ [CHR 0x27]"

definition say :: "string \<Rightarrow> fs \<Rightarrow> fs" where
  "say t s = s\<lparr>out := out s @ t\<rparr>"

text \<open>\<^verbatim>\<open>strcpy\<close> and \<^verbatim>\<open>strcat\<close> into an array of \<open>n\<close> characters.\<close>

definition fit :: "nat \<Rightarrow> string \<Rightarrow> string option" where
  "fit n t = (if length t < n then Some t else None)"

definition modify :: "nat \<Rightarrow> (NODE \<Rightarrow> NODE) \<Rightarrow> fs \<Rightarrow> fs option" where
  "modify a f s = do { n \<leftarrow> mem s a; Some (s\<lparr>mem := (mem s)(a \<mapsto> f n)\<rparr>) }"

section \<open>Nodes\<close>

definition initialize :: "host \<Rightarrow> fs \<Rightarrow> fs" where
  "initialize hs s =
     (let a = brk s
      in s\<lparr>mem := (mem s)(a \<mapsto> \<lparr>Name = pathname s, Type = CHR ''D'', Child = junk_child hs,
                                Sibling = None, Parent = None\<rparr>),
           brk := a + 1, root := a, start := a, cwd := Some a\<rparr>)"

definition createNode :: "string \<Rightarrow> char \<Rightarrow> fs \<Rightarrow> (fs \<times> nat) option" where
  "createNode name ty s = do {
     nm \<leftarrow> fit PATH name;
     let a = brk s;
     Some (s\<lparr>mem := (mem s)(a \<mapsto> \<lparr>Name = nm, Type = ty, Child = None, Sibling = None, Parent = None\<rparr>),
             brk := a + 1\<rparr>, a)
   }"

definition resetToRoot :: "bool \<Rightarrow> fs \<Rightarrow> fs" where
  "resetToRoot isWorking s =
     (if isWorking then s\<lparr>cwd := Some (root s), cwPath := ROOT\<rparr>
      else s\<lparr>start := root s, pathname := ROOT\<rparr>)"

text \<open>\<^verbatim>\<open>displayNode\<close>.\<close>

definition name_or_none :: "memory \<Rightarrow> ptr \<Rightarrow> string option" where
  "name_or_none h p = (case p of None \<Rightarrow> Some ''N/A'' | Some a \<Rightarrow> map_option Name (h a))"

definition displayNode :: "memory \<Rightarrow> nat \<Rightarrow> string option" where
  "displayNode h node = do {
     n \<leftarrow> h node;
     parent \<leftarrow> name_or_none h (Parent n);
     sibling \<leftarrow> name_or_none h (Sibling n);
     child \<leftarrow> name_or_none h (Child n);
     Some (''***** Node *****'' @ [newline] @ ''Name: '' @ Name n @ [newline] @ ''Type: '' @ [Type n] @ [newline]
       @ ''Parent: '' @ parent @ [newline] @ ''Sibling: '' @ sibling @ [newline] @ ''Child: '' @ child @ [newline])
   }"

section \<open>Finding directories\<close>

text \<open>The loop of \<^verbatim>\<open>traverseDir\<close>.\<close>

partial_function (option) find_dir :: "memory \<Rightarrow> ptr \<Rightarrow> string \<Rightarrow> ptr option" where
  "find_dir h child name =
     (case child of
        None \<Rightarrow> Some None
      | Some a \<Rightarrow> do {
          n \<leftarrow> h a;
          if Type n = CHR ''D'' \<and> Name n = name then Some (Some a) else find_dir h (Sibling n) name
        })"

declare find_dir.simps [code]

definition traverseDir :: "string \<Rightarrow> fs \<Rightarrow> ptr option" where
  "traverseDir name s = do { c \<leftarrow> cwd s; n \<leftarrow> mem s c; find_dir (mem s) (Child n) name }"

text \<open>\<^verbatim>\<open>strrchr\<close> and the cut: the text before the last slash.\<close>

definition cut_last :: "string \<Rightarrow> string option" where
  "cut_last t = (if CHR ''/'' \<in> set t
     then Some (rev (tl (dropWhile (\<lambda>c. c \<noteq> CHR ''/'') (rev t)))) else None)"

text \<open>One round of the loop over the components of a path; the flag says whether it goes on.\<close>

definition locate_step :: "string \<Rightarrow> fs \<Rightarrow> (fs \<times> bool) option" where
  "locate_step token s =
     (if token = ''..'' \<and> cwd s \<noteq> Some (root s)
      then do {
        c \<leftarrow> cwd s;
        n \<leftarrow> mem s c;
        p \<leftarrow> cut_last (cwPath s);
        Some (s\<lparr>cwd := Parent n, cwPath := p\<rparr>, True)
      }
      else do {
        d \<leftarrow> traverseDir token s;
        (case d of
           None \<Rightarrow> Some (s\<lparr>cwd := None\<rparr>, False)
         | Some a \<Rightarrow> do {
             n \<leftarrow> mem s a;
             p \<leftarrow> fit PATH (cwPath s @ ''/'' @ Name n);
             Some (s\<lparr>cwd := Some a, cwPath := p\<rparr>, True)
           })
      })"

fun locate_tokens :: "string list \<Rightarrow> fs \<Rightarrow> fs option" where
  "locate_tokens [] s = Some s"
| "locate_tokens (t # ts) s = do {
     (s1, go) \<leftarrow> locate_step t s;
     if go then locate_tokens ts s1 else Some s1
   }"

definition locateDir :: "string \<Rightarrow> fs \<Rightarrow> fs option" where
  "locateDir path s = locate_tokens (strtok_all ''/'' path) s"

section \<open>Splitting a path\<close>

definition strip_slashes :: "string \<Rightarrow> string" where
  "strip_slashes t = rev (dropWhile (\<lambda>c. c = CHR ''/'') (rev t))"

definition basename :: "string \<Rightarrow> string" where
  "basename t =
     (if t = [] then ''.''
      else if strip_slashes t = [] then ''/''
      else rev (takeWhile (\<lambda>c. c \<noteq> CHR ''/'') (rev (strip_slashes t))))"

definition dirname :: "string \<Rightarrow> string" where
  "dirname t =
     (let u = strip_slashes t;
          v = rev (dropWhile (\<lambda>c. c \<noteq> CHR ''/'') (rev u))
      in if u = [] then (if t = [] then ''.'' else ''/'')
         else if v = [] then ''.''
         else if strip_slashes v = [] then ''/'' else strip_slashes v)"

text \<open>\<^verbatim>\<open>dbname\<close> also writes the two parts back into its argument, for the messages. They may be longer
  than what was there: \<^verbatim>\<open>/a\<close> becomes \<^verbatim>\<open>//a\<close>.\<close>

definition dbname_path :: "string \<Rightarrow> string" where
  "dbname_path path =
     (if dirname path = ''.'' then [] else dirname path @ ''/'') @
     (if basename path = ''.'' then [] else basename path)"

definition dbname :: "string \<Rightarrow> fs \<Rightarrow> fs" where
  "dbname path s =
     (let d = dirname path; b = basename path
      in s\<lparr>dname := (if d = ''.'' then [] else d), bname := (if b = ''.'' then [] else b)\<rparr>)"

section \<open>Commands on the entries of the current directory\<close>


text \<open>
  The loop that \<^verbatim>\<open>mkdir\<close>, \<^verbatim>\<open>rmdir\<close>, \<^verbatim>\<open>creat\<close> and \<^verbatim>\<open>rm\<close> share, each with its type letter:
  the entry found, or NULL, and the entry before it.
\<close>

partial_function (option) scan :: "memory \<Rightarrow> char \<Rightarrow> string \<Rightarrow> ptr \<Rightarrow> ptr \<Rightarrow> (ptr \<times> ptr) option" where
  "scan h ty name cur prev =
     (case cur of
        None \<Rightarrow> Some (None, prev)
      | Some a \<Rightarrow> do {
          n \<leftarrow> h a;
          if Type n = ty \<and> Name n = name then Some (Some a, prev) else scan h ty name (Sibling n) (Some a)
        })"

declare scan.simps [code]

definition mkdir :: "string \<Rightarrow> fs \<Rightarrow> (fs \<times> int) option" where
  "mkdir name s = do {
     c \<leftarrow> cwd s;
     d \<leftarrow> mem s c;
     (cur, prev) \<leftarrow> scan (mem s) (CHR ''D'') name (Child d) None;
     (case cur of
        Some a \<Rightarrow> Some (say (''mkdir: cannot create directory '' @ quoted name @ '': Directory exists'' @ [newline]) s, 0)
      | None \<Rightarrow> do {
          (s1, a) \<leftarrow> createNode name (CHR ''D'') s;
          s2 \<leftarrow> modify a (\<lambda>n. n\<lparr>Parent := cwd s1\<rparr>) s1;
          s3 \<leftarrow> (case prev of
                  Some p \<Rightarrow> modify p (\<lambda>n. n\<lparr>Sibling := Some a\<rparr>) s2
                | None \<Rightarrow> modify c (\<lambda>n. n\<lparr>Child := Some a\<rparr>) s2);
          Some (s3, 1)
        })
   }"

definition creat :: "string \<Rightarrow> fs \<Rightarrow> (fs \<times> int) option" where
  "creat name s = do {
     c \<leftarrow> cwd s;
     d \<leftarrow> mem s c;
     (cur, prev) \<leftarrow> scan (mem s) (CHR ''F'') name (Child d) None;
     (case cur of
        Some a \<Rightarrow> Some (say (''creat: cannot create file '' @ quoted name @ '': File exists'' @ [newline]) s, 0)
      | None \<Rightarrow> do {
          (s1, a) \<leftarrow> createNode name (CHR ''F'') s;
          s2 \<leftarrow> modify a (\<lambda>n. n\<lparr>Parent := cwd s1\<rparr>) s1;
          s3 \<leftarrow> (case prev of
                  Some p \<Rightarrow> modify p (\<lambda>n. n\<lparr>Sibling := Some a\<rparr>) s2
                | None \<Rightarrow> modify c (\<lambda>n. n\<lparr>Child := Some a\<rparr>) s2);
          Some (s3, 1)
        })
   }"

text \<open>\<^verbatim>\<open>free(cur)\<close>.\<close>

definition free_node :: "nat \<Rightarrow> fs \<Rightarrow> fs" where
  "free_node a s = s\<lparr>mem := (mem s)(a := None)\<rparr>"

definition rmdir :: "string \<Rightarrow> fs \<Rightarrow> (fs \<times> int) option" where
  "rmdir name s = do {
     c \<leftarrow> cwd s;
     d \<leftarrow> mem s c;
     (cur, prev) \<leftarrow> scan (mem s) (CHR ''D'') name (Child d) None;
     (case cur of
        Some a \<Rightarrow> do {
          n \<leftarrow> mem s a;
          if Child n \<noteq> None
          then Some (say (''rmdir: failed to remove '' @ quoted name @ '': Directory not empty'' @ [newline]) s, 0)
          else do {
            s1 \<leftarrow> (if Some a = Child d then modify c (\<lambda>x. x\<lparr>Child := Sibling n\<rparr>) s
                   else (case prev of
                           Some p \<Rightarrow> modify p (\<lambda>x. x\<lparr>Sibling := Sibling n\<rparr>) s
                         | None \<Rightarrow> Some s));
            Some (free_node a s1, 1)
          }
        }
      | None \<Rightarrow> Some (say (''rmdir: failed to remove '' @ quoted name @ '': No such directory exist'' @ [newline]) s, 0))
   }"

definition rm :: "string \<Rightarrow> fs \<Rightarrow> (fs \<times> int) option" where
  "rm name s = do {
     c \<leftarrow> cwd s;
     d \<leftarrow> mem s c;
     (cur, prev) \<leftarrow> scan (mem s) (CHR ''F'') name (Child d) None;
     (case cur of
        Some a \<Rightarrow> do {
          n \<leftarrow> mem s a;
          s1 \<leftarrow> (if Some a = Child d then modify c (\<lambda>x. x\<lparr>Child := Sibling n\<rparr>) s
                 else (case prev of
                         Some p \<Rightarrow> modify p (\<lambda>x. x\<lparr>Sibling := Sibling n\<rparr>) s
                       | None \<Rightarrow> Some s));
          Some (free_node a s1, 1)
        }
      | None \<Rightarrow> Some (say (''rm: failed to remove '' @ quoted name @ '': No such file'' @ [newline]) s, 0))
   }"

section \<open>Listing and moving\<close>

text \<open>The loop of \<^verbatim>\<open>ls\<close>: the fifth entry starts a new line.\<close>

partial_function (option) ls_loop :: "memory \<Rightarrow> ptr \<Rightarrow> nat \<Rightarrow> string option" where
  "ls_loop h cur i =
     (case cur of
        None \<Rightarrow> Some [newline]
      | Some a \<Rightarrow> do {
          n \<leftarrow> h a;
          rest \<leftarrow> ls_loop h (Sibling n) (i + 1);
          Some ((if i \<noteq> 5 then Name n @ '' ('' @ [Type n] @ '')'' @ [CHR 0x09]
                 else [newline] @ Name n @ '' ('' @ [Type n] @ '')'') @ rest)
        })"

declare ls_loop.simps [code]

definition ls :: "string \<Rightarrow> fs \<Rightarrow> (fs \<times> int) option" where
  "ls name s = do {
     s1 \<leftarrow> locateDir name s;
     (case cwd s1 of
        None \<Rightarrow> Some (say (''ls: cannot access '' @ quoted name @ '': No such file or directory'' @ [newline]) s1, 0)
      | Some c \<Rightarrow> do {
          d \<leftarrow> mem s1 c;
          t \<leftarrow> (if Type d = CHR ''D'' then ls_loop (mem s1) (Child d) 1
                else Some (Name d @ '' ('' @ [Type d] @ '')'' @ [newline]));
          Some (say t s1, 1)
        })
   }"

definition cd :: "string \<Rightarrow> fs \<Rightarrow> (fs \<times> int) option" where
  "cd name s =
     (if name = [] then Some (resetToRoot False s, 1)
      else do {
        s1 \<leftarrow> locateDir (bname s) s;
        (case cwd s1 of
           Some a \<Rightarrow> Some (s1\<lparr>pathname := cwPath s1, start := a\<rparr>, 1)
         | None \<Rightarrow> do {
             p \<leftarrow> fit PATH (cwPath s1 @ ''/'' @ name);
             Some (say (''bash: cd: '' @ p @ '': No such file or directory'' @ [newline]) (s1\<lparr>cwPath := p\<rparr>), 0)
           })
      })"

partial_function (option) getPath :: "memory \<Rightarrow> ptr \<Rightarrow> nat \<Rightarrow> string option" where
  "getPath h c node = do {
     n \<leftarrow> h node;
     (case Parent n of
        None \<Rightarrow> Some ABSPATH
      | Some p \<Rightarrow> do {
          parentPath \<leftarrow> getPath h c p;
          fit PATH (parentPath @ Name n @ (if Some node \<noteq> c then ''/'' else []))
        })
   }"

declare getPath.simps [code]

definition pwd :: "string \<Rightarrow> fs \<Rightarrow> (fs \<times> int) option" where
  "pwd name s = do {
     c \<leftarrow> cwd s;
     t \<leftarrow> getPath (mem s) (cwd s) c;
     Some (say (t @ [newline]) s, 1)
   }"

section \<open>Saving and reloading\<close>

partial_function (option) saveTree :: "memory \<Rightarrow> ptr \<Rightarrow> string \<Rightarrow> string list option" where
  "saveTree h node path =
     (case node of
        None \<Rightarrow> Some []
      | Some a \<Rightarrow> do {
          n \<leftarrow> h a;
          currPath \<leftarrow> fit PATH (path @ ''/'' @ Name n);
          below \<leftarrow> saveTree h (Child n) currPath;
          beside \<leftarrow> saveTree h (Sibling n) path;
          Some (([Type n] @ '' '' @ currPath) # below @ beside)
        })"

declare saveTree.simps [code]

definition save :: "host \<Rightarrow> string \<Rightarrow> fs \<Rightarrow> (fs \<times> int) option" where
  "save hs name s =
     (if can_create hs name
      then do {
        r \<leftarrow> mem s (root s);
        lines \<leftarrow> saveTree (mem s) (Child r) [];
        Some (s\<lparr>disk := (disk s)(name \<mapsto> lines)\<rparr>, 1)
      }
      else Some (say (''save: failed to create '' @ quoted name @ '': Invalid file name'' @ [newline]) s, 0))"

definition quit :: "host \<Rightarrow> string \<Rightarrow> fs \<Rightarrow> (fs \<times> int) option" where
  "quit hs name s = do {
     (s1, r) \<leftarrow> save hs ''quit.txt'' s;
     if r \<noteq> 0
     then Some (say (''Directory Tree has been saved under the file '' @ [CHR 0x22] @ ''quit.txt'' @ [CHR 0x22, newline]) s1, 1)
     else Some (s1, 0)
   }"

text \<open>
  \<^verbatim>\<open>runCommand\<close>, over the table of commands. \<^verbatim>\<open>strtok\<close> cuts \<^verbatim>\<open>dname\<close> behind its first component.
\<close>

definition strtok_cut :: "string \<Rightarrow> string" where
  "strtok_cut t = takeWhile (\<lambda>c. c = CHR ''/'') t @
     takeWhile (\<lambda>c. c \<noteq> CHR ''/'') (dropWhile (\<lambda>c. c = CHR ''/'') t)"

type_synonym table = "string \<Rightarrow> (string \<Rightarrow> fs \<Rightarrow> (fs \<times> int) option) option"

definition run_table :: "host \<Rightarrow> table \<Rightarrow> string \<Rightarrow> string \<Rightarrow> fs \<Rightarrow> (fs \<times> int) option" where
  "run_table hs tab command path s =
     (let absolute = (path \<noteq> [] \<and> hd path = CHR ''/'');
          s1 = (if absolute then resetToRoot True s else s);
          p = (if absolute then tl path else path);
          s2 = (if p \<noteq> [] then dbname p s1 else s1);
          p' = (if p \<noteq> [] then dbname_path p else p)
      in if PATH \<le> (if absolute then 1 else 0) + length p' then None
         else if command = ''quit''
         then do { (s3, r) \<leftarrow> quit hs [] s2; Some (s3, -1) }
         else (case tab command of
             None \<Rightarrow> Some (say (command @ '': command not found'' @ [newline]) s2, 0)
           | Some f \<Rightarrow> do {
               s3 \<leftarrow> locateDir (dname s2) s2;
               let s4 = s3\<lparr>dname := strtok_cut (dname s3)\<rparr>;
               (case cwd s4 of
                  None \<Rightarrow> Some (say (''bash: '' @ command @ '': '' @ p' @ '': No such file or directory'' @ [newline]) s4, 0)
                | Some c \<Rightarrow> f (bname s4) s4)
             }))"

text \<open>\<^verbatim>\<open>reload\<close> calls \<^verbatim>\<open>runCommand\<close> with two commands only.\<close>

definition entry_table :: table where
  "entry_table command =
     (if command = ''mkdir'' then Some mkdir else if command = ''creat'' then Some creat else None)"

text \<open>\<^verbatim>\<open>sscanf(line, "%s %s", a, b)\<close> into arrays of the two sizes; \<open>b0\<close> is what \<open>b\<close> held before.\<close>

definition white :: string where
  "white = [CHR '' '', CHR 0x09, newline, CHR 0x0B, CHR 0x0C, CHR 0x0D]"

definition scan_two :: "nat \<Rightarrow> nat \<Rightarrow> string option \<Rightarrow> string option \<Rightarrow> string \<Rightarrow> (string \<times> string) option" where
  "scan_two m n a0 b0 line =
     (case strtok_all white line of
        [] \<Rightarrow> do { a \<leftarrow> a0; b \<leftarrow> b0; Some (a, b) }
      | [a] \<Rightarrow> do { a1 \<leftarrow> fit m a; b \<leftarrow> b0; Some (a1, b) }
      | a # b # _ \<Rightarrow> do { a1 \<leftarrow> fit m a; b1 \<leftarrow> fit n b; Some (a1, b1) })"

text \<open>A line of a file as \<^verbatim>\<open>fgets\<close> gives it to the loop: one that does not fit comes in pieces, of which each but
  the last loses a character for its newline.\<close>

function fgets_pieces :: "string \<Rightarrow> string list" where
  "fgets_pieces l =
     (if length l < LINE_TREE - 1 then [l] else butlast (take (LINE_TREE - 1) l) # fgets_pieces (drop (LINE_TREE - 1) l))"
  by pat_completeness auto
termination by (relation "measure length") (auto simp: LINE_TREE_def)

declare fgets_pieces.simps [simp del]

fun reload_lines :: "host \<Rightarrow> string list \<Rightarrow> fs \<Rightarrow> fs option" where
  "reload_lines hs [] s = Some s"
| "reload_lines hs (l # lines) s = do {
     (ty, path) \<leftarrow> scan_two 2 PATH None None l;
     (s1, r) \<leftarrow> run_table hs entry_table (if ty = ''F'' then ''creat'' else ''mkdir'') path s;
     reload_lines hs lines (s1\<lparr>cwd := Some (root s1)\<rparr>)
   }"

definition reload :: "host \<Rightarrow> string \<Rightarrow> fs \<Rightarrow> (fs \<times> int) option" where
  "reload hs name s =
     (case disk s name of
        None \<Rightarrow> Some (say (''reload: failed to locate '' @ quoted name @ '': No such file exist'' @ [newline]) s, 0)
      | Some lines \<Rightarrow> do {
          s1 \<leftarrow> reload_lines hs (concat (map fgets_pieces lines)) (initialize hs s);
          Some (s1, 1)
        })"

section \<open>The interpreter\<close>

definition menu_text :: string where
  "menu_text = concat (map (\<lambda>l. l @ [newline])
     [''mkdir  <pathname> : makes a new directory for a given pathname.'',
      ''rmdir  <pathname> : removes the directory, if it is empty.'',
      ''ls     <pathname> : lists the directory contents of pathname or CWD.'',
      ''cd     <pathname> : changes CWD to pathname, or to / if no pathname.'',
      ''creat  <pathname> : creates a FILE node.'',
      ''rm     <pathname> : removes the FILE node.'',
      ''save   <filename> : saves the current file system tree as a file.'',
      ''reload <filename> : constructs a file system tree from a file.'',
      ''pwd  : prints the (absolute) pathname of CWD.'',
      ''quit : saves the file system tree, then terminate the program.'',
      ''menu : shows a menu of valid commands.''])"

definition menu :: "host \<Rightarrow> string \<Rightarrow> fs \<Rightarrow> (fs \<times> int) option" where
  "menu hs name s = Some (say menu_text s, junk_ret hs)"

definition cmd_names :: "string list" where
  "cmd_names = [''mkdir'', ''rmdir'', ''ls'', ''cd'', ''pwd'', ''creat'', ''rm'', ''reload'', ''save'', ''menu'', ''quit'']"

definition fptr :: "host \<Rightarrow> (string \<Rightarrow> fs \<Rightarrow> (fs \<times> int) option) list" where
  "fptr hs = [mkdir, rmdir, ls, cd, pwd, creat, rm, reload hs, save hs, menu hs, quit hs]"

fun findCmd_from :: "string \<Rightarrow> string list \<Rightarrow> int \<Rightarrow> int" where
  "findCmd_from command [] i = - 1"
| "findCmd_from command (c # cs) i = (if command = c then i else findCmd_from command cs (i + 1))"

definition findCmd :: "string \<Rightarrow> int" where
  "findCmd command = findCmd_from command cmd_names 0"

definition cmd :: "host \<Rightarrow> table" where
  "cmd hs command = (let index = findCmd command in if index = - 1 then None else Some (fptr hs ! nat index))"

lemma cmd_cases:
  "cmd hs command =
     (if command = ''mkdir'' then Some mkdir
      else if command = ''rmdir'' then Some rmdir
      else if command = ''ls'' then Some ls
      else if command = ''cd'' then Some cd
      else if command = ''pwd'' then Some pwd
      else if command = ''creat'' then Some creat
      else if command = ''rm'' then Some rm
      else if command = ''reload'' then Some (reload hs)
      else if command = ''save'' then Some (save hs)
      else if command = ''menu'' then Some (menu hs)
      else if command = ''quit'' then Some (quit hs) else None)"
  by (simp add: cmd_def findCmd_def cmd_names_def fptr_def)

definition runCommand :: "host \<Rightarrow> string \<Rightarrow> string \<Rightarrow> fs \<Rightarrow> (fs \<times> int) option" where
  "runCommand hs = run_table hs (cmd hs)"

text \<open>One turn of the loop in \<^verbatim>\<open>main\<close>, on a line typed without its newline; the flag says whether it goes on.\<close>

definition main_step :: "host \<Rightarrow> string \<Rightarrow> fs \<Rightarrow> (fs \<times> bool) option" where
  "main_step hs line s = do {
     let s1 = say (pathname s @ ''$ '') (s\<lparr>cwd := Some (start s), cwPath := pathname s, dname := [], bname := []\<rparr>);
     (command, path) \<leftarrow> scan_two CMD PATH (Some []) (Some []) line;
     (s2, r) \<leftarrow> runCommand hs command path s1;
     Some (s2, r \<noteq> -1)
   }"

definition zero_fs :: "fs" where
  "zero_fs = \<lparr>mem = (\<lambda>_. None), brk = 0, root = 0, start = 0, cwd = None, pathname = ROOT, cwPath = [],
     dname = [], bname = [], disk = (\<lambda>_. None), out = []\<rparr>"

text \<open>\<^verbatim>\<open>main\<close> on all that is typed: it returns when a line quits.\<close>

definition turn_fs :: "host \<Rightarrow> string \<Rightarrow> fs \<Rightarrow> (fs + fs) option" where
  "turn_fs hs line s = map_option (\<lambda>(s1, go). if go then Inr s1 else Inl s1) (main_step hs line s)"

definition main_fs :: "host \<Rightarrow> string \<Rightarrow> fs option" where
  "main_fs hs input = read_loop LINE_TREE (turn_fs hs) input (initialize hs zero_fs)"

text \<open>The lines of a session.\<close>

fun session :: "host \<Rightarrow> string list \<Rightarrow> fs \<Rightarrow> fs option" where
  "session hs [] s = Some s"
| "session hs (l # lines) s = do {
     (s1, go) \<leftarrow> main_step hs l s;
     if go then session hs lines s1 else Some s1
   }"

end
