(* ===== verification/DirForest.thy ===== *)
theory DirForest
  imports DirTree
begin

text \<open>
  The tree a memory of \<^verbatim>\<open>Lab2/Lab2.c\<close> holds: a forest of nodes with their addresses, related to the
  \<^verbatim>\<open>Child\<close>, \<^verbatim>\<open>Sibling\<close> and \<^verbatim>\<open>Parent\<close> pointers; paths of names in it; and how a change of the entries
  of one directory changes the whole.
\<close>

section \<open>Forests\<close>

datatype ftree = Nd (adr: nat) (nm: string) (ty: char) (sub: "ftree list")

fun forest_at :: "memory \<Rightarrow> ptr \<Rightarrow> ptr \<Rightarrow> ftree list \<Rightarrow> bool" where
  "forest_at h par p [] \<longleftrightarrow> p = None"
| "forest_at h par p (Nd a n t cs # ts) \<longleftrightarrow> p = Some a \<and>
     (case h a of None \<Rightarrow> False
      | Some x \<Rightarrow> Name x = n \<and> Type x = t \<and> Parent x = par \<and>
          forest_at h (Some a) (Child x) cs \<and> forest_at h par (Sibling x) ts)"

fun addrs :: "ftree list \<Rightarrow> nat list" where
  "addrs [] = []"
| "addrs (Nd a n t cs # ts) = a # addrs cs @ addrs ts"

lemma forest_Cons [simp]:
  "forest_at h par p (t # ts) \<longleftrightarrow> p = Some (adr t) \<and>
     (\<exists>x. h (adr t) = Some x \<and> Name x = nm t \<and> Type x = ty t \<and> Parent x = par \<and>
        forest_at h (Some (adr t)) (Child x) (sub t) \<and> forest_at h par (Sibling x) ts)"
  by (cases t) (auto split: option.splits)

lemma addrs_Cons [simp]: "addrs (t # ts) = adr t # addrs (sub t) @ addrs ts"
  by (cases t) simp

declare forest_at.simps(2) [simp del] addrs.simps(2) [simp del]

lemma addrs_append [simp]: "addrs (us @ vs) = addrs us @ addrs vs"
  by (induction us) auto

lemma forest_induct [case_names Nil Cons]:
  assumes "P []" and "\<And>t ts. P (sub t) \<Longrightarrow> P ts \<Longrightarrow> P (t # ts)"
  shows "P ts"
proof (induction ts rule: addrs.induct)
  case (2 a n t cs ts)
  then show ?case using assms(2) [of "Nd a n t cs" ts] by simp
qed (rule assms(1))

lemma adr_in_addrs: "t \<in> set ts \<Longrightarrow> adr t \<in> set (addrs ts) \<and> set (addrs (sub t)) \<subseteq> set (addrs ts)"
  by (induction ts) auto

lemma forest_cong:
  "(\<And>x. x \<in> set (addrs ts) \<Longrightarrow> h' x = h x) \<Longrightarrow> forest_at h' par p ts = forest_at h par p ts"
proof (induction ts arbitrary: par p rule: forest_induct)
  case (Cons t ts)
  have "forest_at h' (Some (adr t)) q (sub t) = forest_at h (Some (adr t)) q (sub t)" for q
    by (rule Cons.IH(1)) (simp add: Cons.prems)
  moreover have "forest_at h' par q ts = forest_at h par q ts" for q
    by (rule Cons.IH(2)) (simp add: Cons.prems)
  ultimately show ?case using Cons.prems [of "adr t"] by simp
qed simp

lemma forest_suffix: "forest_at h par p (us @ vs) \<Longrightarrow> \<exists>q. forest_at h par q vs"
  by (induction us arbitrary: p) auto

text \<open>A list of siblings cut behind one of them and continued with another list.\<close>

lemma forest_join:
  assumes "forest_at h par p (us @ u # ws)" and "\<And>x. x \<in> set (addrs us) \<union> set (addrs (sub u)) \<Longrightarrow> h' x = h x"
    and "h (adr u) = Some y" and "h' (adr u) = Some (y\<lparr>Sibling := q\<rparr>)" and "forest_at h' par q vs"
  shows "forest_at h' par p (us @ u # vs)"
  using assms
proof (induction us arbitrary: p)
  case Nil
  then show ?case using forest_cong [of "sub u" h' h] by auto
next
  case (Cons t us)
  from Cons.prems(1) obtain x where x: "p = Some (adr t)" "h (adr t) = Some x" "Name x = nm t"
    "Type x = ty t" "Parent x = par" "forest_at h (Some (adr t)) (Child x) (sub t)"
    "forest_at h par (Sibling x) (us @ u # ws)" by auto
  have "forest_at h' par (Sibling x) (us @ u # vs)"
    by (rule Cons.IH [OF x(7)]) (use Cons.prems in auto)
  moreover have "forest_at h' (Some (adr t)) (Child x) (sub t)"
    using x(6) forest_cong [of "sub t" h' h] Cons.prems(2) by auto
  ultimately show ?case using x Cons.prems(2) by auto
qed

text \<open>The children of one node of a list of siblings replaced.\<close>

definition same_but_child :: "NODE \<Rightarrow> NODE \<Rightarrow> bool" where
  "same_but_child y y' \<longleftrightarrow> y' = y\<lparr>Child := Child y'\<rparr>"

lemma same_but_child_fields:
  assumes "same_but_child y y'"
  shows "Name y' = Name y" "Type y' = Type y" "Parent y' = Parent y" "Sibling y' = Sibling y"
proof -
  from assms have "y' = y\<lparr>Child := Child y'\<rparr>" by (simp add: same_but_child_def)
  then show "Name y' = Name y" "Type y' = Type y" "Parent y' = Parent y" "Sibling y' = Sibling y"
    by (metis NODE.select_convs NODE.surjective NODE.update_convs)+
qed

lemma same_but_child_refl [simp]: "same_but_child y y"
  by (simp add: same_but_child_def)

lemma same_but_child_upd [simp]: "same_but_child y (y\<lparr>Child := q\<rparr>)"
  by (simp add: same_but_child_def)

lemma forest_replace:
  assumes "forest_at h par p (us @ t # vs)"
    and "\<And>x. x \<in> set (addrs us) \<union> set (addrs vs) \<Longrightarrow> h' x = h x"
    and "h (adr t) = Some y" "h' (adr t) = Some y'" "same_but_child y y'"
    and "forest_at h' (Some (adr t)) (Child y') ks"
  shows "forest_at h' par p (us @ Nd (adr t) (nm t) (ty t) ks # vs)"
  using assms
proof (induction us arbitrary: p)
  case Nil
  then have "forest_at h' par (Sibling y) vs" using forest_cong [of vs h' h] by auto
  with Nil show ?case by (auto simp: same_but_child_fields)
next
  case (Cons u us)
  from Cons.prems(1) obtain x where x: "p = Some (adr u)" "h (adr u) = Some x" "Name x = nm u"
    "Type x = ty u" "Parent x = par" "forest_at h (Some (adr u)) (Child x) (sub u)"
    "forest_at h par (Sibling x) (us @ t # vs)" by auto
  have "forest_at h' par (Sibling x) (us @ Nd (adr t) (nm t) (ty t) ks # vs)"
    by (rule Cons.IH [OF x(7)]) (use Cons.prems in auto)
  moreover have "forest_at h' (Some (adr u)) (Child x) (sub u)"
    using x(6) forest_cong [of "sub u" h' h] Cons.prems(2) by auto
  ultimately show ?case using x Cons.prems(2) by auto
qed

section \<open>Entries and paths\<close>

definition is_entry :: "char \<Rightarrow> string \<Rightarrow> ftree \<Rightarrow> bool" where
  "is_entry T m t \<longleftrightarrow> ty t = T \<and> nm t = m"

text \<open>A directory node and its entries.\<close>

definition dirnode :: "memory \<Rightarrow> nat \<Rightarrow> ftree list \<Rightarrow> bool" where
  "dirnode h r cs \<longleftrightarrow> (\<exists>x. h r = Some x \<and> forest_at h (Some r) (Child x) cs)"

text \<open>The directory a list of names leads to: its address and its entries.\<close>

fun goto :: "nat \<Rightarrow> ftree list \<Rightarrow> string list \<Rightarrow> (nat \<times> ftree list) option" where
  "goto r cs [] = Some (r, cs)"
| "goto r cs (m # ms) =
     (case List.find (is_entry (CHR ''D'') m) cs of
        None \<Rightarrow> None
      | Some t \<Rightarrow> goto (adr t) (sub t) ms)"

fun upd_first :: "('a \<Rightarrow> bool) \<Rightarrow> ('a \<Rightarrow> 'a) \<Rightarrow> 'a list \<Rightarrow> 'a list" where
  "upd_first P f [] = []"
| "upd_first P f (x # xs) = (if P x then f x # xs else x # upd_first P f xs)"

primrec upd_dir :: "string list \<Rightarrow> (ftree list \<Rightarrow> ftree list) \<Rightarrow> ftree list \<Rightarrow> ftree list" where
  "upd_dir [] f cs = f cs"
| "upd_dir (m # ms) f cs =
     upd_first (is_entry (CHR ''D'') m) (\<lambda>t. Nd (adr t) (nm t) (ty t) (upd_dir ms f (sub t))) cs"

lemma find_split: "List.find P xs = Some x \<Longrightarrow> \<exists>us vs. xs = us @ x # vs \<and> P x \<and> (\<forall>u \<in> set us. \<not> P u)"
proof (induction xs)
  case (Cons y xs)
  show ?case
  proof (cases "P y")
    case True
    with Cons.prems show ?thesis by (intro exI [of _ "[]"] exI [of _ xs]) auto
  next
    case False
    with Cons obtain us vs where "xs = us @ x # vs" "P x" "\<forall>u \<in> set us. \<not> P u" by auto
    with False show ?thesis by (intro exI [of _ "y # us"] exI [of _ vs]) auto
  qed
qed simp

lemma find_append_Cons: "P x \<Longrightarrow> \<forall>u \<in> set us. \<not> P u \<Longrightarrow> List.find P (us @ x # vs) = Some x"
  by (induction us) auto

lemma upd_first_split: "P x \<Longrightarrow> \<forall>u \<in> set us. \<not> P u \<Longrightarrow> upd_first P f (us @ x # vs) = us @ f x # vs"
  by (induction us) auto

lemma goto_append: "goto r cs (ns @ ms) = goto r cs ns \<bind> (\<lambda>(a, ks). goto a ks ms)"
  by (induction ns arbitrary: r cs) (auto split: option.split)

lemma forest_mem:
  "forest_at h par p ts \<Longrightarrow> t \<in> set ts \<Longrightarrow>
   \<exists>x. h (adr t) = Some x \<and> Name x = nm t \<and> Type x = ty t \<and> Parent x = par \<and>
     forest_at h (Some (adr t)) (Child x) (sub t)"
  by (induction ts arbitrary: p) auto

lemma goto_dirnode: "dirnode h r cs \<Longrightarrow> goto r cs ns = Some (a, ks) \<Longrightarrow> dirnode h a ks"
proof (induction ns arbitrary: r cs)
  case (Cons m ms)
  then obtain t where t: "List.find (is_entry (CHR ''D'') m) cs = Some t" "goto (adr t) (sub t) ms = Some (a, ks)"
    by (auto split: option.splits)
  then have "t \<in> set cs" by (auto dest: find_split)
  with Cons.prems(1) have "dirnode h (adr t) (sub t)" by (auto simp: dirnode_def dest: forest_mem)
  from Cons.IH [OF this t(2)] show ?case .
qed auto

text \<open>The addresses below a directory are a contiguous part of the whole.\<close>

lemma goto_addrs:
  "goto r cs ns = Some (a, ks) \<Longrightarrow>
   \<exists>A B. addrs cs = A @ addrs ks @ B \<and> (\<forall>f. addrs (upd_dir ns f cs) = A @ addrs (f ks) @ B) \<and>
     (if ns = [] then a = r else a \<in> set A)"
proof (induction ns arbitrary: r cs)
  case Nil
  then show ?case by (intro exI [of _ "[]"]) auto
next
  case (Cons m ms)
  then obtain t where t: "List.find (is_entry (CHR ''D'') m) cs = Some t" "goto (adr t) (sub t) ms = Some (a, ks)"
    by (auto split: option.splits)
  obtain us vs where s: "cs = us @ t # vs" "is_entry (CHR ''D'') m t" "\<forall>u \<in> set us. \<not> is_entry (CHR ''D'') m u"
    using find_split [OF t(1)] by blast
  from Cons.IH [OF t(2)] obtain A B where "addrs (sub t) = A @ addrs ks @ B"
    "\<forall>f. addrs (upd_dir ms f (sub t)) = A @ addrs (f ks) @ B" "if ms = [] then a = adr t else a \<in> set A"
    by blast
  then show ?case
    by (intro exI [of _ "addrs us @ adr t # A"] exI [of _ "B @ addrs vs"])
      (auto simp: s(1) upd_first_split [OF s(2,3)] split: if_splits)
qed

lemma goto_in:
  assumes "goto r cs ns = Some (a, ks)"
  shows "a \<in> set (r # addrs cs)" and "set (addrs ks) \<subseteq> set (addrs cs)"
    and "distinct (r # addrs cs) \<Longrightarrow> distinct (a # addrs ks)"
    and "distinct (r # addrs cs) \<Longrightarrow> ns \<noteq> [] \<longleftrightarrow> a \<noteq> r"
proof -
  from goto_addrs [OF assms] obtain A B where
    "addrs cs = A @ addrs ks @ B" "if ns = [] then a = r else a \<in> set A" by blast
  then show "a \<in> set (r # addrs cs)" "set (addrs ks) \<subseteq> set (addrs cs)"
    "distinct (r # addrs cs) \<Longrightarrow> distinct (a # addrs ks)"
    "distinct (r # addrs cs) \<Longrightarrow> ns \<noteq> [] \<longleftrightarrow> a \<noteq> r"
    by (auto split: if_splits)
qed

text \<open>Replacing the entries of one directory in the memory replaces them in the tree.\<close>

lemma dir_update:
  assumes "dirnode h r cs" and "goto r cs ns = Some (a, ks)" and "distinct (r # addrs cs)"
    and "h a = Some y" and "h' a = Some y'" and "same_but_child y y'"
    and "forest_at h' (Some a) (Child y') ks'"
    and "\<And>x. x \<in> set (r # addrs cs) \<Longrightarrow> x \<noteq> a \<Longrightarrow> x \<notin> set (addrs ks) \<Longrightarrow> h' x = h x"
  shows "dirnode h' r (upd_dir ns (\<lambda>_. ks') cs) \<and>
    (\<exists>z z'. h r = Some z \<and> h' r = Some z' \<and> same_but_child z z')"
  using assms
proof (induction ns arbitrary: r cs)
  case Nil
  then show ?case by (auto simp: dirnode_def)
next
  case (Cons m ms)
  then obtain t where t: "List.find (is_entry (CHR ''D'') m) cs = Some t" "goto (adr t) (sub t) ms = Some (a, ks)"
    by (auto split: option.splits)
  obtain us vs where s: "cs = us @ t # vs" "is_entry (CHR ''D'') m t" "\<forall>u \<in> set us. \<not> is_entry (CHR ''D'') m u"
    using find_split [OF t(1)] by blast
  from Cons.prems(1) obtain x where x: "h r = Some x" "forest_at h (Some r) (Child x) cs"
    by (auto simp: dirnode_def)
  have dt: "dirnode h (adr t) (sub t)"
    using forest_mem [OF x(2), of t] s(1) by (auto simp: dirnode_def)
  have in_t: "a \<in> set (adr t # addrs (sub t))" "set (addrs ks) \<subseteq> set (addrs (sub t))"
    using goto_in [OF t(2)] by auto
  have "distinct (adr t # addrs (sub t))" using Cons.prems(3) s(1) by auto
  from Cons.IH [OF dt t(2) this Cons.prems(4-7)] Cons.prems(8) s(1)
  have IH: "dirnode h' (adr t) (upd_dir ms (\<lambda>_. ks') (sub t))"
    "\<exists>z z'. h (adr t) = Some z \<and> h' (adr t) = Some z' \<and> same_but_child z z'" by auto
  then obtain z z' where z: "h (adr t) = Some z" "h' (adr t) = Some z'" "same_but_child z z'"
    "forest_at h' (Some (adr t)) (Child z') (upd_dir ms (\<lambda>_. ks') (sub t))" by (auto simp: dirnode_def)
  have out: "h' w = h w" if "w \<in> insert r (set (addrs us) \<union> set (addrs vs))" for w
    using that Cons.prems(3) in_t s(1) by (intro Cons.prems(8)) auto
  have "forest_at h' (Some r) (Child x) (us @ Nd (adr t) (nm t) (ty t) (upd_dir ms (\<lambda>_. ks') (sub t)) # vs)"
    by (rule forest_replace [where h = h and y = z and y' = z']) (use x(2) s(1) out z in auto)
  moreover have "upd_dir (m # ms) (\<lambda>_. ks') cs = us @ Nd (adr t) (nm t) (ty t) (upd_dir ms (\<lambda>_. ks') (sub t)) # vs"
    by (simp add: s(1) upd_first_split [OF s(2,3)])
  ultimately show ?case using x(1) out [of r] by (auto simp: dirnode_def)
qed

end
