(* ===== verification/DirOps.thy ===== *)
theory DirOps
  imports DirForest
begin

text \<open>
  The operations of \<^verbatim>\<open>Lab2/Lab2.c\<close> on a memory that holds a tree: where \<^verbatim>\<open>locateDir\<close> goes, what the
  entry commands do to the entries of the current directory, and the invariant of the whole state.
\<close>

section \<open>The invariant\<close>

definition key :: "ftree \<Rightarrow> char \<times> string" where
  "key t = (ty t, nm t)"

text \<open>Files have no entries, and no directory has two entries of the same type and name.\<close>

fun all_nodes :: "(ftree \<Rightarrow> bool) \<Rightarrow> ftree list \<Rightarrow> bool" where
  "all_nodes P [] \<longleftrightarrow> True"
| "all_nodes P (Nd a n t cs # ts) \<longleftrightarrow> P (Nd a n t cs) \<and> all_nodes P cs \<and> all_nodes P ts"

lemma all_nodes_Cons [simp]: "all_nodes P (t # ts) \<longleftrightarrow> P t \<and> all_nodes P (sub t) \<and> all_nodes P ts"
  by (cases t) simp

declare all_nodes.simps(2) [simp del]

lemma all_nodes_append [simp]: "all_nodes P (us @ vs) \<longleftrightarrow> all_nodes P us \<and> all_nodes P vs"
  by (induction us) auto

definition node_ok :: "ftree \<Rightarrow> bool" where
  "node_ok t \<longleftrightarrow> (ty t \<noteq> CHR ''D'' \<longrightarrow> sub t = []) \<and> distinct (map key (sub t))"

definition tidy :: "ftree list \<Rightarrow> bool" where
  "tidy cs \<longleftrightarrow> distinct (map key cs) \<and> all_nodes node_ok cs"

definition fsok :: "fs \<Rightarrow> ftree list \<Rightarrow> bool" where
  "fsok s cs \<longleftrightarrow>
     (\<exists>x. mem s (root s) = Some x \<and> Parent x = None \<and> Type x = CHR ''D'' \<and>
        forest_at (mem s) (Some (root s)) (Child x) cs) \<and>
     distinct (root s # addrs cs) \<and> (\<forall>x \<in> set (root s # addrs cs). x < brk s) \<and> tidy cs"

text \<open>The text of a path, as the prompt shows it, and the directory a pair of fields describes.\<close>

definition path_text :: "string list \<Rightarrow> string" where
  "path_text ns = ROOT @ concat (map (\<lambda>n. ''/'' @ n) ns)"

definition slashfree :: "string \<Rightarrow> bool" where
  "slashfree n \<longleftrightarrow> CHR ''/'' \<notin> set n"

definition at_dir :: "fs \<Rightarrow> ftree list \<Rightarrow> string list \<Rightarrow> nat \<Rightarrow> ftree list \<Rightarrow> bool" where
  "at_dir s cs ns a ks \<longleftrightarrow> goto (root s) cs ns = Some (a, ks) \<and> cwd s = Some a \<and>
     cwPath s = path_text ns \<and> list_all slashfree ns"

definition home_dir :: "fs \<Rightarrow> ftree list \<Rightarrow> string list \<Rightarrow> bool" where
  "home_dir s cs ns \<longleftrightarrow> (\<exists>ks. goto (root s) cs ns = Some (start s, ks)) \<and>
     pathname s = path_text ns \<and> list_all slashfree ns"

lemma fsok_dirnode: "fsok s cs \<Longrightarrow> dirnode (mem s) (root s) cs"
  by (auto simp: fsok_def dirnode_def)

lemma fsok_distinct: "fsok s cs \<Longrightarrow> distinct (root s # addrs cs)"
  by (simp add: fsok_def)

section \<open>Finding directories\<close>

lemma find_dir_ok:
  "forest_at h par p ts \<Longrightarrow> find_dir h p m = Some (map_option adr (List.find (is_entry (CHR ''D'') m) ts))"
proof (induction ts arbitrary: p)
  case Nil
  then show ?case by (subst find_dir.simps) simp
next
  case (Cons t ts)
  then obtain x where x: "p = Some (adr t)" "h (adr t) = Some x" "Name x = nm t" "Type x = ty t"
    "forest_at h par (Sibling x) ts" by auto
  from Cons.IH [OF x(5)] x show ?case by (subst find_dir.simps) (simp add: is_entry_def [of _ _ t])
qed

lemma cut_last_path: "slashfree n \<Longrightarrow> cut_last (path_text (ns @ [n])) = Some (path_text ns)"
proof -
  assume n: "slashfree n"
  then have "dropWhile (\<lambda>c. c \<noteq> CHR ''/'') (rev n @ CHR ''/'' # u) = CHR ''/'' # u" for u
    by (auto simp: slashfree_def dropWhile_append)
  then show ?thesis by (simp add: cut_last_def path_text_def)
qed

text \<open>What a path means: \<^verbatim>\<open>..\<close> goes up, except at the root, a name goes down to a directory.\<close>

definition resolve1 :: "ftree list \<Rightarrow> string list \<Rightarrow> string \<Rightarrow> string list option" where
  "resolve1 cs ns t =
     (if t = ''..'' \<and> ns \<noteq> [] then Some (butlast ns)
      else if goto 0 cs (ns @ [t]) = None then None else Some (ns @ [t]))"

fun resolve :: "ftree list \<Rightarrow> string list \<Rightarrow> string list \<Rightarrow> string list option" where
  "resolve cs ns [] = Some ns"
| "resolve cs ns (t # ts) = resolve1 cs ns t \<bind> (\<lambda>ns'. resolve cs ns' ts)"

lemma goto_any: "ns \<noteq> [] \<Longrightarrow> goto r cs ns = goto 0 cs ns"
  by (cases ns) simp_all

lemma goto_snoc:
  assumes "goto r cs ns = Some (a, ks)"
  shows "goto r cs (ns @ [t]) =
    map_option (\<lambda>u. (adr u, sub u)) (List.find (is_entry (CHR ''D'') t) ks)"
  using assms by (simp add: goto_append split: option.split)

lemma goto_parent:
  assumes d: "dirnode h r cs" and g: "goto r cs (ns @ [t]) = Some (b, us)"
  shows "\<exists>a ks x. goto r cs ns = Some (a, ks) \<and> h b = Some x \<and> Parent x = Some a \<and> Name x = t"
proof -
  from g obtain a ks where a: "goto r cs ns = Some (a, ks)" and b: "goto a ks [t] = Some (b, us)"
    by (auto simp: goto_append bind_eq_Some_conv)
  from b obtain u where u: "List.find (is_entry (CHR ''D'') t) ks = Some u" "b = adr u"
    by (auto split: option.splits)
  then have "u \<in> set ks" "is_entry (CHR ''D'') t u" by (auto dest: find_split)
  moreover from goto_dirnode [OF d a] obtain y where "h a = Some y" "forest_at h (Some a) (Child y) ks"
    by (auto simp: dirnode_def)
  ultimately obtain x where "h (adr u) = Some x" "Name x = nm u" "Parent x = Some a"
    by (auto dest: forest_mem)
  with a u \<open>is_entry (CHR ''D'') t u\<close> show ?thesis by (auto simp: is_entry_def)
qed

lemma locate_step_ok:
  assumes f: "fsok s cs" and a: "at_dir s cs ns a ks" and t: "slashfree t"
  shows "case resolve1 cs ns t of
      None \<Rightarrow> locate_step t s = Some (s\<lparr>cwd := None\<rparr>, False)
    | Some ns' \<Rightarrow> \<exists>a' ks'. goto (root s) cs ns' = Some (a', ks') \<and> list_all slashfree ns' \<and>
        locate_step t s = (if t = ''..'' \<and> ns \<noteq> [] \<or> length (path_text ns') < PATH
          then Some (s\<lparr>cwd := Some a', cwPath := path_text ns'\<rparr>, True) else None)"
proof (cases "t = ''..'' \<and> ns \<noteq> []")
  case True
  note d = fsok_dirnode [OF f]
  from True obtain us n where ns: "ns = us @ [n]" by (cases ns rule: rev_cases) auto
  from a have g: "goto (root s) cs (us @ [n]) = Some (a, ks)" by (simp add: at_dir_def ns)
  from goto_parent [OF d g] obtain p ps x where x: "goto (root s) cs us = Some (p, ps)"
    "mem s a = Some x" "Parent x = Some p" by blast
  have "a \<noteq> root s" using goto_in(4) [OF g fsok_distinct [OF f]] by simp
  then have "locate_step t s = Some (s\<lparr>cwd := Some p, cwPath := path_text us\<rparr>, True)"
    using True a x cut_last_path [of n us] by (simp add: locate_step_def at_dir_def ns)
  with True x(1) a show ?thesis by (simp add: resolve1_def ns at_dir_def)
next
  case False
  note d = fsok_dirnode [OF f]
  from a have g: "goto (root s) cs ns = Some (a, ks)" "cwd s = Some a" by (simp_all add: at_dir_def)
  have ne: "\<not> (t = ''..'' \<and> cwd s \<noteq> Some (root s))"
    using False goto_in(4) [OF g(1) fsok_distinct [OF f]] g(2) by auto
  from goto_dirnode [OF d g(1)] obtain y where y: "mem s a = Some y" "forest_at (mem s) (Some a) (Child y) ks"
    by (auto simp: dirnode_def)
  have tr: "traverseDir t s = Some (map_option adr (List.find (is_entry (CHR ''D'') t) ks))"
    using y g(2) find_dir_ok [OF y(2)] by (simp add: traverseDir_def)
  show ?thesis
  proof (cases "List.find (is_entry (CHR ''D'') t) ks")
    case None
    then have "goto 0 cs (ns @ [t]) = None"
      using goto_snoc [OF g(1), of t] goto_any [of "ns @ [t]" "root s" cs] by simp
    with None tr ne False show ?thesis by (auto simp: resolve1_def locate_step_def)
  next
    case (Some u)
    then have "u \<in> set ks" "is_entry (CHR ''D'') t u" by (auto dest: find_split)
    with forest_mem [OF y(2)] obtain x where x: "mem s (adr u) = Some x" "Name x = t"
      by (auto simp: is_entry_def)
    have gt: "goto (root s) cs (ns @ [t]) = Some (adr u, sub u)"
      using goto_snoc [OF g(1), of t] Some by simp
    then have "goto 0 cs (ns @ [t]) \<noteq> None" using goto_any [of "ns @ [t]" "root s" cs] by simp
    then have r: "resolve1 cs ns t = Some (ns @ [t])" using False by (auto simp: resolve1_def)
    have "path_text (ns @ [t]) = cwPath s @ ''/'' @ t" using a by (simp add: at_dir_def path_text_def)
    then have "locate_step t s = (if length (path_text (ns @ [t])) < PATH
        then Some (s\<lparr>cwd := Some (adr u), cwPath := path_text (ns @ [t])\<rparr>, True) else None)"
      using ne tr Some x by (auto simp: locate_step_def fit_def)
    moreover have "list_all slashfree (ns @ [t])" using a t by (simp add: at_dir_def)
    ultimately show ?thesis using r gt False by auto
  qed
qed

lemma locate_tokens_ok:
  assumes "fsok s cs" and "at_dir s cs ns a ks" and "list_all slashfree ts"
    and "locate_tokens ts s = Some s'"
  shows "case resolve cs ns ts of
      None \<Rightarrow> \<exists>p. s' = s\<lparr>cwd := None, cwPath := p\<rparr>
    | Some ns' \<Rightarrow> \<exists>a' ks'. s' = s\<lparr>cwd := Some a', cwPath := path_text ns'\<rparr> \<and> at_dir s' cs ns' a' ks'"
  using assms
proof (induction ts arbitrary: s ns a ks)
  case Nil
  then have "s' = s\<lparr>cwd := Some a, cwPath := path_text ns\<rparr>" by (simp add: at_dir_def)
  with Nil show ?case by auto
next
  case (Cons t ts)
  have t: "slashfree t" "list_all slashfree ts" using Cons.prems(3) by simp_all
  note step = locate_step_ok [OF Cons.prems(1,2) t(1)]
  show ?case
  proof (cases "resolve1 cs ns t")
    case None
    with step Cons.prems(4) have "s' = s\<lparr>cwd := None\<rparr>" by simp
    with None show ?thesis by (auto intro: exI [of _ "cwPath s"])
  next
    case (Some ns1)
    with step obtain a1 ks1 where g: "goto (root s) cs ns1 = Some (a1, ks1)" "list_all slashfree ns1"
      and st: "locate_step t s = (if t = ''..'' \<and> ns \<noteq> [] \<or> length (path_text ns1) < PATH
          then Some (s\<lparr>cwd := Some a1, cwPath := path_text ns1\<rparr>, True) else None)" by auto
    let ?s1 = "s\<lparr>cwd := Some a1, cwPath := path_text ns1\<rparr>"
    from Cons.prems(4) st have l: "locate_tokens ts ?s1 = Some s'" by (auto split: if_splits)
    have f: "fsok ?s1 cs" using Cons.prems(1) by (simp add: fsok_def)
    have a: "at_dir ?s1 cs ns1 a1 ks1" using g by (simp add: at_dir_def)
    from Cons.IH [OF f a t(2) l] Some show ?thesis by (auto split: option.splits)
  qed
qed

text \<open>The buffer for the path is big enough when the current path and the names of the path fit.\<close>

lemma locate_tokens_fits:
  assumes "fsok s cs" and "at_dir s cs ns a ks" and "list_all slashfree ts"
    and "length (cwPath s) + sum_list (map (\<lambda>t. length t + 1) ts) < PATH"
  shows "locate_tokens ts s \<noteq> None"
  using assms
proof (induction ts arbitrary: s ns a ks)
  case (Cons t ts)
  have t: "slashfree t" "list_all slashfree ts" using Cons.prems(3) by simp_all
  note step = locate_step_ok [OF Cons.prems(1,2) t(1)]
  have cw: "cwPath s = path_text ns" using Cons.prems(2) by (simp add: at_dir_def)
  show ?case
  proof (cases "resolve1 cs ns t")
    case None
    with step show ?thesis by simp
  next
    case (Some ns1)
    with step obtain a1 ks1 where g: "goto (root s) cs ns1 = Some (a1, ks1)" "list_all slashfree ns1"
      and st: "locate_step t s = (if t = ''..'' \<and> ns \<noteq> [] \<or> length (path_text ns1) < PATH
          then Some (s\<lparr>cwd := Some a1, cwPath := path_text ns1\<rparr>, True) else None)" by auto
    have len: "length (path_text ns1) \<le> length (path_text ns) + length t + 1"
    proof (cases "t = ''..'' \<and> ns \<noteq> []")
      case True
      with Some have "ns1 = butlast ns" by (simp add: resolve1_def)
      with True show ?thesis by (cases ns rule: rev_cases) (simp_all add: path_text_def)
    next
      case False
      with Some have "ns1 = ns @ [t]" by (auto simp: resolve1_def split: if_splits)
      then show ?thesis by (simp add: path_text_def)
    qed
    let ?s1 = "s\<lparr>cwd := Some a1, cwPath := path_text ns1\<rparr>"
    have f: "fsok ?s1 cs" using Cons.prems(1) by (simp add: fsok_def)
    have a: "at_dir ?s1 cs ns1 a1 ks1" using g by (simp add: at_dir_def)
    have "locate_tokens ts ?s1 \<noteq> None"
      by (rule Cons.IH [OF f a t(2)]) (use Cons.prems(4) cw len in simp)
    moreover have "length (path_text ns1) < PATH" using Cons.prems(4) cw len by simp
    ultimately show ?thesis using st by simp
  qed
qed simp

lemma tokens_slashfree: "list_all slashfree (strtok_all ''/'' path)"
  by (auto simp: list_all_iff slashfree_def word_ok_def dest!: strtok_all_ok)

end
