(* ===== verification/DirEntries.thy ===== *)
theory DirEntries
  imports DirOps
begin

text \<open>
  The entry commands of \<^verbatim>\<open>Lab2/Lab2.c\<close>: what \<^verbatim>\<open>mkdir\<close>, \<^verbatim>\<open>creat\<close>, \<^verbatim>\<open>rmdir\<close> and \<^verbatim>\<open>rm\<close> do to the
  entries of the current directory and to the whole tree. \<^verbatim>\<open>mkdir\<close> and \<^verbatim>\<open>rmdir\<close> are to
  directories what \<^verbatim>\<open>creat\<close> and \<^verbatim>\<open>rm\<close> are to files: both pairs keep one contract.
\<close>

section \<open>The contract of a pair of entry commands\<close>

text \<open>
  \<open>add\<close> and \<open>rem\<close> work on entries of one type; \<open>lists s es\<close> says that the current directory of \<open>s\<close>
  has the entries \<open>es\<close>, in order, and \<open>removable\<close> that an entry may go.
\<close>

locale entry_ops =
  fixes add rem :: "string \<Rightarrow> 's \<Rightarrow> ('s \<times> int) option"
    and T :: 'k
    and lists :: "'s \<Rightarrow> ('k \<times> string) list \<Rightarrow> bool"
    and removable :: "'s \<Rightarrow> string \<Rightarrow> bool"
    and room :: "string \<Rightarrow> bool"
  assumes add_new: "lists s es \<Longrightarrow> (T, n) \<notin> set es \<Longrightarrow> room n \<Longrightarrow>
      \<exists>s'. add n s = Some (s', 1) \<and> lists s' (es @ [(T, n)]) \<and> removable s' n"
    and add_again: "lists s es \<Longrightarrow> (T, n) \<in> set es \<Longrightarrow> \<exists>s'. add n s = Some (s', 0) \<and> lists s' es"
    and rem_there: "lists s es \<Longrightarrow> (T, n) \<in> set es \<Longrightarrow> removable s n \<Longrightarrow>
      \<exists>s'. rem n s = Some (s', 1) \<and> lists s' (remove1 (T, n) es)"
    and rem_missing: "lists s es \<Longrightarrow> (T, n) \<notin> set es \<Longrightarrow> \<exists>s'. rem n s = Some (s', 0) \<and> lists s' es"
begin

text \<open>Adding and removing a new entry is the identity on the directory.\<close>

lemma add_then_rem:
  assumes "lists s es" and "(T, n) \<notin> set es" and "room n"
  shows "\<exists>s1 s2. add n s = Some (s1, 1) \<and> rem n s1 = Some (s2, 1) \<and> lists s2 es"
proof -
  from add_new [OF assms] obtain s1 where
    s1: "add n s = Some (s1, 1)" "lists s1 (es @ [(T, n)])" "removable s1 n" by blast
  from rem_there [OF s1(2) _ s1(3)] obtain s2 where
    "rem n s1 = Some (s2, 1)" "lists s2 (remove1 (T, n) (es @ [(T, n)]))" by auto
  with s1(1) assms(2) show ?thesis by (auto simp: remove1_append)
qed

text \<open>The second of two equal additions fails and changes nothing.\<close>

lemma add_twice:
  assumes "lists s es" and "(T, n) \<notin> set es" and "room n"
  shows "\<exists>s1 s2. add n s = Some (s1, 1) \<and> add n s1 = Some (s2, 0) \<and> lists s2 (es @ [(T, n)])"
proof -
  from add_new [OF assms] obtain s1 where
    s1: "add n s = Some (s1, 1)" "lists s1 (es @ [(T, n)])" by blast
  from add_again [OF s1(2), of n] s1(1) show ?thesis by auto
qed

text \<open>Names stay unique.\<close>

lemma add_distinct:
  assumes "lists s es" and "distinct es" and "room n"
  shows "\<exists>s' r es'. add n s = Some (s', r) \<and> lists s' es' \<and> distinct es' \<and> set es' = insert (T, n) (set es)"
proof (cases "(T, n) \<in> set es")
  case True
  from add_again [OF assms(1) True] True assms(2) show ?thesis by (auto simp: insert_absorb)
next
  case False
  from add_new [OF assms(1) False assms(3)] obtain s' where
    "add n s = Some (s', 1)" "lists s' (es @ [(T, n)])" by blast
  moreover have "distinct (es @ [(T, n)])" using False assms(2) by simp
  moreover have "set (es @ [(T, n)]) = insert (T, n) (set es)" by simp
  ultimately show ?thesis by blast
qed

end

section \<open>Scanning\<close>

definition last_adr :: "ptr \<Rightarrow> ftree list \<Rightarrow> ptr" where
  "last_adr prev us = (if us = [] then prev else Some (adr (last us)))"

lemma scan_none:
  "forest_at h par p ts \<Longrightarrow> \<forall>u \<in> set ts. \<not> is_entry T m u \<Longrightarrow> scan h T m p prev = Some (None, last_adr prev ts)"
proof (induction ts arbitrary: p prev)
  case Nil
  then show ?case by (subst scan.simps) (simp add: last_adr_def)
next
  case (Cons t ts)
  then obtain x where x: "p = Some (adr t)" "h (adr t) = Some x" "Name x = nm t" "Type x = ty t"
    "forest_at h par (Sibling x) ts" by auto
  from Cons.IH [OF x(5)] Cons.prems(2) x show ?case
    by (subst scan.simps) (auto simp: is_entry_def last_adr_def)
qed

lemma scan_some:
  "forest_at h par p (us @ t # vs) \<Longrightarrow> is_entry T m t \<Longrightarrow> \<forall>u \<in> set us. \<not> is_entry T m u \<Longrightarrow>
   scan h T m p prev = Some (Some (adr t), last_adr prev us)"
proof (induction us arbitrary: p prev)
  case Nil
  then show ?case by (subst scan.simps) (auto simp: last_adr_def is_entry_def)
next
  case (Cons u us)
  then obtain x where x: "p = Some (adr u)" "h (adr u) = Some x" "Name x = nm u" "Type x = ty u"
    "forest_at h par (Sibling x) (us @ t # vs)" by auto
  from Cons.IH [OF x(5)] Cons.prems(2,3) x show ?case
    by (subst scan.simps) (auto simp: is_entry_def last_adr_def)
qed

section \<open>Adding an entry\<close>

text \<open>The common form of \<^verbatim>\<open>mkdir\<close> and \<^verbatim>\<open>creat\<close>.\<close>

definition link_entry :: "nat \<Rightarrow> ptr \<Rightarrow> nat \<Rightarrow> fs \<Rightarrow> fs option" where
  "link_entry c prev a s = (case prev of
      Some p \<Rightarrow> modify p (\<lambda>n. n\<lparr>Sibling := Some a\<rparr>) s
    | None \<Rightarrow> modify c (\<lambda>n. n\<lparr>Child := Some a\<rparr>) s)"

definition add_entry :: "char \<Rightarrow> string \<Rightarrow> string \<Rightarrow> fs \<Rightarrow> (fs \<times> int) option" where
  "add_entry T msg name s = do {
     c \<leftarrow> cwd s;
     d \<leftarrow> mem s c;
     (cur, prev) \<leftarrow> scan (mem s) T name (Child d) None;
     (case cur of
        Some a \<Rightarrow> Some (say msg s, 0)
      | None \<Rightarrow> do {
          (s1, a) \<leftarrow> createNode name T s;
          s2 \<leftarrow> modify a (\<lambda>n. n\<lparr>Parent := cwd s1\<rparr>) s1;
          s3 \<leftarrow> link_entry c prev a s2;
          Some (s3, 1)
        })
   }"

lemma mkdir_add: "mkdir name = add_entry (CHR ''D'')
    (''mkdir: cannot create directory '' @ quoted name @ '': Directory exists'' @ [newline]) name"
  and creat_add: "creat name = add_entry (CHR ''F'')
    (''creat: cannot create file '' @ quoted name @ '': File exists'' @ [newline]) name"
  by (rule ext, simp only: mkdir_def creat_def add_entry_def link_entry_def)+

definition leaf :: "nat \<Rightarrow> string \<Rightarrow> char \<Rightarrow> ftree" where
  "leaf a n T = Nd a n T []"

lemma leaf_sel [simp]: "adr (leaf a n T) = a" "nm (leaf a n T) = n" "ty (leaf a n T) = T" "sub (leaf a n T) = []"
  by (simp_all add: leaf_def)

text \<open>The current directory \<open>a\<close> with entries \<open>ks\<close>, in a memory whose allocated part is below \<^verbatim>\<open>brk\<close>.\<close>

definition here :: "fs \<Rightarrow> nat \<Rightarrow> ftree list \<Rightarrow> bool" where
  "here s a ks \<longleftrightarrow> cwd s = Some a \<and> dirnode (mem s) a ks \<and> distinct (a # addrs ks) \<and>
     (\<forall>x \<in> set (a # addrs ks). x < brk s)"

text \<open>The memory changes to \<open>h\<close>, which has the entries \<open>ks'\<close> in directory \<open>a\<close> and differs only there.\<close>

definition redir :: "fs \<Rightarrow> nat \<Rightarrow> ftree list \<Rightarrow> ftree list \<Rightarrow> memory \<Rightarrow> bool" where
  "redir s a ks ks' h \<longleftrightarrow>
     (\<exists>y y'. mem s a = Some y \<and> h a = Some y' \<and> same_but_child y y' \<and> forest_at h (Some a) (Child y') ks') \<and>
     (\<forall>x. x \<noteq> a \<and> x \<notin> set (addrs ks) \<and> x < brk s \<longrightarrow> h x = mem s x)"

lemma fs_order: "s\<lparr>brk := b, mem := m\<rparr> = s\<lparr>mem := m, brk := b\<rparr>"
  by (cases s) simp

lemma link_entry_mem:
  "mem s q = Some x \<Longrightarrow> link_entry c (Some q) a s = Some (s\<lparr>mem := (mem s)(q \<mapsto> x\<lparr>Sibling := Some a\<rparr>)\<rparr>)"
  "mem s c = Some y \<Longrightarrow> link_entry c None a s = Some (s\<lparr>mem := (mem s)(c \<mapsto> y\<lparr>Child := Some a\<rparr>)\<rparr>)"
  by (simp_all add: link_entry_def modify_def)

lemma add_new_ok:
  assumes "here s a ks" and new: "\<forall>u \<in> set ks. \<not> is_entry T n u" and len: "length n < PATH"
  shows "\<exists>h. add_entry T msg n s = Some (s\<lparr>mem := h, brk := brk s + 1\<rparr>, 1) \<and>
    redir s a ks (ks @ [leaf (brk s) n T]) h"
proof -
  from assms(1) obtain y where c: "cwd s = Some a" and y: "mem s a = Some y"
    "forest_at (mem s) (Some a) (Child y) ks" and d: "distinct (a # addrs ks)"
    and b: "\<forall>x \<in> set (a # addrs ks). x < brk s" by (auto simp: here_def dirnode_def)
  let ?b = "brk s"
  let ?lf = "\<lparr>Name = n, Type = T, Child = None, Sibling = None, Parent = Some a\<rparr>"
  let ?h1 = "(mem s)(?b \<mapsto> ?lf)"
  let ?s2 = "s\<lparr>mem := ?h1, brk := ?b + 1\<rparr>"
  have sc: "scan (mem s) T n (Child y) None = Some (None, last_adr None ks)"
    by (rule scan_none [OF y(2) new])
  have f1: "forest_at ?h1 (Some a) (Child y) ks"
    using y(2) b by (subst forest_cong) auto
  have ya: "?h1 a = Some y" using y(1) b by auto
  have add: "add_entry T msg n s = do { s3 \<leftarrow> link_entry a (last_adr None ks) ?b ?s2; Some (s3, 1) }"
    using c y sc len by (simp add: add_entry_def createNode_def fit_def modify_def Let_def fs_order)
  have lf: "forest_at h' (Some a) (Some ?b) [leaf ?b n T]" if "h' ?b = Some ?lf" for h'
    using that by simp
  show ?thesis
  proof (cases ks rule: rev_cases)
    case Nil
    let ?h = "?h1(a \<mapsto> y\<lparr>Child := Some ?b\<rparr>)"
    have "?h ?b = Some ?lf" using b by auto
    then have "redir s a ks (ks @ [leaf ?b n T]) ?h"
      using y(1) lf Nil by (auto simp: redir_def)
    with add ya Nil show ?thesis by (auto simp: last_adr_def link_entry_mem(2) [where y = y] fs_order)
  next
    case (snoc us u)
    from forest_mem [OF f1, of u] snoc obtain x where x: "?h1 (adr u) = Some x" by auto
    let ?h = "?h1(adr u \<mapsto> x\<lparr>Sibling := Some ?b\<rparr>)"
    have u: "adr u \<noteq> a" "adr u \<noteq> ?b" "?b \<notin> set (addrs ks)" using d b snoc by auto
    have "forest_at ?h (Some a) (Child y) (us @ u # [leaf ?b n T])"
    proof (rule forest_join [where ws = "[]" and h = ?h1 and y = x and q = "Some ?b"])
      show "forest_at ?h (Some a) (Some ?b) [leaf ?b n T]" using u by (intro lf) simp
    qed (use f1 snoc x d in auto)
    then have "redir s a ks (ks @ [leaf ?b n T]) ?h"
      using y(1) ya u snoc by (auto simp: redir_def)
    with add x snoc show ?thesis by (auto simp: last_adr_def link_entry_mem(1) [where x = x] fs_order)
  qed
qed

lemma add_again_ok:
  assumes "here s a ks" and "is_entry T n t" and "t \<in> set ks"
  shows "add_entry T msg n s = Some (say msg s, 0)"
proof -
  from assms(1) obtain y where c: "cwd s = Some a" and y: "mem s a = Some y"
    "forest_at (mem s) (Some a) (Child y) ks" by (auto simp: here_def dirnode_def)
  obtain u where "List.find (is_entry T n) ks = Some u"
    using assms(2,3) by (cases "List.find (is_entry T n) ks") (auto simp: find_None_iff)
  from find_split [OF this] obtain us vs where
    s: "ks = us @ u # vs" "is_entry T n u" "\<forall>u \<in> set us. \<not> is_entry T n u" by blast
  from scan_some [OF y(2) [unfolded s(1)] s(2,3)] c y(1) show ?thesis by (simp add: add_entry_def)
qed

section \<open>Removing an entry\<close>

text \<open>The common end of \<^verbatim>\<open>rmdir\<close> and \<^verbatim>\<open>rm\<close>, once the entry is found.\<close>

definition unlink_entry :: "nat \<Rightarrow> NODE \<Rightarrow> nat \<Rightarrow> NODE \<Rightarrow> ptr \<Rightarrow> fs \<Rightarrow> (fs \<times> int) option" where
  "unlink_entry c d a n prev s = do {
     s1 \<leftarrow> (if Some a = Child d then modify c (\<lambda>x. x\<lparr>Child := Sibling n\<rparr>) s
            else (case prev of
                    Some p \<Rightarrow> modify p (\<lambda>x. x\<lparr>Sibling := Sibling n\<rparr>) s
                  | None \<Rightarrow> Some s));
     Some (free_node a s1, 1)
   }"

lemma unlink_ok:
  assumes "here s a ks" and ks: "ks = us @ t # vs" and leaf: "sub t = []"
    and y: "mem s a = Some y" "mem s (adr t) = Some x"
  shows "\<exists>h. unlink_entry a y (adr t) x (last_adr None us) s = Some (s\<lparr>mem := h\<rparr>, 1) \<and>
    redir s a ks (us @ vs) h \<and> h (adr t) = None"
proof -
  from assms(1) y have f: "forest_at (mem s) (Some a) (Child y) ks" and d: "distinct (a # addrs ks)"
    by (auto simp: here_def dirnode_def)
  have t: "adr t \<noteq> a" "adr t \<notin> set (addrs us)" "adr t \<notin> set (addrs vs)" using d by (auto simp: ks)
  show ?thesis
  proof (cases us rule: rev_cases)
    case Nil
    let ?h = "(mem s)(a \<mapsto> y\<lparr>Child := Sibling x\<rparr>, adr t := None)"
    have "Some (adr t) = Child y" "forest_at (mem s) (Some a) (Sibling x) vs" using f y(2) Nil by (auto simp: ks)
    moreover from this(2) have "forest_at ?h (Some a) (Sibling x) vs"
      using d t Nil by (subst forest_cong [of _ _ "mem s"]) (auto simp: ks)
    ultimately show ?thesis
      using y t Nil by (auto simp: unlink_entry_def modify_def free_node_def redir_def ks)
  next
    case (snoc ws w)
    from forest_mem [OF f, of w] snoc obtain z where z: "mem s (adr w) = Some z" by (auto simp: ks)
    have w: "adr w \<noteq> a" "adr w \<noteq> adr t" "adr w \<notin> set (addrs ws)" "adr w \<notin> set (addrs (sub w))"
      "adr w \<notin> set (addrs vs)" using d snoc by (auto simp: ks)
    have "Some (adr t) \<noteq> Child y"
      using f d snoc by (cases ws) (auto simp: ks)
    let ?h = "(mem s)(adr w \<mapsto> z\<lparr>Sibling := Sibling x\<rparr>, adr t := None)"
    from forest_suffix [OF f [unfolded ks]] have v: "forest_at (mem s) (Some a) (Sibling x) vs" using y(2) by auto
    have "forest_at ?h (Some a) (Child y) (ws @ w # vs)"
    proof (rule forest_join [where ws = "t # vs" and h = "mem s" and y = z and q = "Sibling x"])
      show "forest_at ?h (Some a) (Sibling x) vs"
        using v w t by (subst forest_cong [of _ _ "mem s"]) auto
    qed (use f snoc z w t d in \<open>auto simp: ks\<close>)
    then have "redir s a ks (us @ vs) ?h" using y(1) w t snoc by (auto simp: redir_def ks)
    with \<open>Some (adr t) \<noteq> Child y\<close> z snoc show ?thesis
      by (auto simp: unlink_entry_def modify_def free_node_def last_adr_def)
  qed
qed

text \<open>\<^verbatim>\<open>rmdir\<close> and \<^verbatim>\<open>rm\<close> scan, check and unlink.\<close>

definition rem_entry :: "char \<Rightarrow> string \<Rightarrow> string \<Rightarrow> string \<Rightarrow> fs \<Rightarrow> (fs \<times> int) option" where
  "rem_entry T full msg name s = do {
     c \<leftarrow> cwd s;
     d \<leftarrow> mem s c;
     (cur, prev) \<leftarrow> scan (mem s) T name (Child d) None;
     (case cur of
        Some a \<Rightarrow> do {
          n \<leftarrow> mem s a;
          if T = CHR ''D'' \<and> Child n \<noteq> None then Some (say full s, 0) else unlink_entry c d a n prev s
        }
      | None \<Rightarrow> Some (say msg s, 0))
   }"

lemma rmdir_rem: "rmdir name = rem_entry (CHR ''D'')
    (''rmdir: failed to remove '' @ quoted name @ '': Directory not empty'' @ [newline])
    (''rmdir: failed to remove '' @ quoted name @ '': No such directory exist'' @ [newline]) name"
  by (rule ext) (simp only: rmdir_def rem_entry_def unlink_entry_def simp_thms)

lemma rm_rem: "rm name = rem_entry (CHR ''F'') full
    (''rm: failed to remove '' @ quoted name @ '': No such file'' @ [newline]) name"
proof -
  have "CHR ''F'' \<noteq> CHR ''D''" by simp
  then show ?thesis
    by (intro ext) (simp only: rm_def rem_entry_def unlink_entry_def simp_thms if_False)
qed

lemma rem_missing_ok:
  assumes "here s a ks" and "\<forall>u \<in> set ks. \<not> is_entry T n u"
  shows "rem_entry T full msg n s = Some (say msg s, 0)"
proof -
  from assms(1) obtain y where c: "cwd s = Some a" and y: "mem s a = Some y"
    "forest_at (mem s) (Some a) (Child y) ks" by (auto simp: here_def dirnode_def)
  from scan_none [OF y(2) assms(2)] c y(1) show ?thesis by (simp add: rem_entry_def)
qed

lemma rem_found_ok:
  assumes "here s a ks" and ks: "ks = us @ t # vs" and t: "is_entry T n t" and us: "\<forall>u \<in> set us. \<not> is_entry T n u"
  shows "sub t = [] \<Longrightarrow> \<exists>h. rem_entry T full msg n s = Some (s\<lparr>mem := h\<rparr>, 1) \<and>
      redir s a ks (us @ vs) h \<and> h (adr t) = None"
    and "sub t \<noteq> [] \<Longrightarrow> T = CHR ''D'' \<Longrightarrow> rem_entry T full msg n s = Some (say full s, 0)"
proof -
  from assms(1) obtain y where c: "cwd s = Some a" and y: "mem s a = Some y"
    "forest_at (mem s) (Some a) (Child y) ks" by (auto simp: here_def dirnode_def)
  from forest_mem [OF y(2), of t] ks obtain x where
    x: "mem s (adr t) = Some x" "forest_at (mem s) (Some (adr t)) (Child x) (sub t)" by auto
  have sc: "scan (mem s) T n (Child y) None = Some (Some (adr t), last_adr None us)"
    by (rule scan_some [OF y(2) [unfolded ks] t us])
  have e: "Child x = None \<longleftrightarrow> sub t = []" using x(2) by (cases "sub t") auto
  show "\<exists>h. rem_entry T full msg n s = Some (s\<lparr>mem := h\<rparr>, 1) \<and>
      redir s a ks (us @ vs) h \<and> h (adr t) = None" if "sub t = []"
  proof -
    from e that have "rem_entry T full msg n s = unlink_entry a y (adr t) x (last_adr None us) s"
      using c y(1) x(1) sc by (simp add: rem_entry_def)
    with unlink_ok [OF assms(1) ks that y(1) x(1)] show ?thesis by simp
  qed
  show "rem_entry T full msg n s = Some (say full s, 0)" if "sub t \<noteq> []" "T = CHR ''D''"
    using that e c y(1) x(1) sc by (simp add: rem_entry_def)
qed

section \<open>Both pairs keep the contract\<close>

text \<open>The listing of the current directory; files are without entries.\<close>

definition listing :: "fs \<Rightarrow> (char \<times> string) list \<Rightarrow> bool" where
  "listing s es \<longleftrightarrow> (\<exists>a ks. here s a ks \<and> map key ks = es \<and> distinct es \<and>
     (\<forall>t \<in> set ks. ty t = CHR ''F'' \<longrightarrow> sub t = []))"

definition dir_empty :: "fs \<Rightarrow> string \<Rightarrow> bool" where
  "dir_empty s n \<longleftrightarrow> (\<forall>a ks t. here s a ks \<longrightarrow> t \<in> set ks \<longrightarrow> is_entry (CHR ''D'') n t \<longrightarrow> sub t = [])"

lemma here_unique:
  assumes "here s a ks" and "here s b ks2"
  shows "a = b" and "ks = ks2"
proof -
  show ab: "a = b" using assms by (simp add: here_def)
  have "forest_at h par p us \<Longrightarrow> forest_at h par p vs \<Longrightarrow> us = vs" for h par p us vs
  proof (induction us arbitrary: par p vs rule: forest_induct)
    case Nil
    then show ?case by (cases vs) auto
  next
    case (Cons t ts)
    then obtain u us where vs: "vs = u # us" by (cases vs) auto
    with Cons.prems have "adr t = adr u" "nm t = nm u" "ty t = ty u" by auto
    moreover from this Cons.prems vs Cons.IH have "sub t = sub u" "ts = us" by auto
    ultimately show ?case using vs by (simp add: ftree.expand)
  qed
  with assms ab show "ks = ks2" by (auto simp: here_def dirnode_def)
qed

lemma key_entry: "(T, n) \<in> set (map key ks) \<longleftrightarrow> (\<exists>t \<in> set ks. is_entry T n t)"
  by (auto simp: key_def is_entry_def)

lemma redir_here:
  assumes "here s a ks" and "redir s a ks ks' h" and "distinct (addrs ks')" and "b \<ge> brk s"
    and "\<And>x. x \<in> set (addrs ks') \<Longrightarrow> x \<noteq> a \<and> x < b"
  shows "here (s\<lparr>mem := h, brk := b\<rparr>) a ks'"
proof -
  have "a < brk s" using assms(1) by (simp add: here_def)
  with assms show ?thesis by (fastforce simp: here_def redir_def dirnode_def)
qed

lemma add_listing:
  assumes l: "listing s es" and n: "(T, n) \<notin> set es" and len: "length n < PATH"
  shows "\<exists>s'. add_entry T msg n s = Some (s', 1) \<and> listing s' (es @ [(T, n)]) \<and>
    (T = CHR ''D'' \<longrightarrow> dir_empty s' n)"
proof -
  from l obtain a ks where h: "here s a ks" and es: "map key ks = es" "distinct es"
    and fl: "\<forall>t \<in> set ks. ty t = CHR ''F'' \<longrightarrow> sub t = []" by (auto simp: listing_def)
  have new: "\<forall>u \<in> set ks. \<not> is_entry T n u" using n key_entry [of T n ks] es by auto
  from add_new_ok [OF h new len] obtain m where
    e: "add_entry T msg n s = Some (s\<lparr>mem := m, brk := brk s + 1\<rparr>, 1)"
    and r: "redir s a ks (ks @ [leaf (brk s) n T]) m" by blast
  let ?s' = "s\<lparr>mem := m, brk := brk s + 1\<rparr>"
  have h': "here ?s' a (ks @ [leaf (brk s) n T])"
    by (rule redir_here [OF h r]) (use h in \<open>auto simp: here_def\<close>)
  moreover have "map key (ks @ [leaf (brk s) n T]) = es @ [(T, n)]" using es by (simp add: key_def)
  ultimately have "listing ?s' (es @ [(T, n)])"
    unfolding listing_def using n es(2) fl
    by (intro exI [of _ a] exI [of _ "ks @ [leaf (brk s) n T]"]) auto
  moreover have "dir_empty ?s' n" if "T = CHR ''D''"
    unfolding dir_empty_def
  proof (intro allI impI)
    fix b bs t
    assume "here ?s' b bs" and t: "t \<in> set bs" "is_entry (CHR ''D'') n t"
    with here_unique(2) [OF h'] have "bs = ks @ [leaf (brk s) n T]" by simp
    with t new that show "sub t = []" by auto
  qed
  ultimately show ?thesis using e by blast
qed

lemma add_listing_again:
  assumes l: "listing s es" and n: "(T, n) \<in> set es"
  shows "\<exists>s'. add_entry T msg n s = Some (s', 0) \<and> listing s' es"
proof -
  from l obtain a ks where h: "here s a ks" "map key ks = es" by (auto simp: listing_def)
  with n key_entry [of T n ks] obtain t where "t \<in> set ks" "is_entry T n t" by auto
  from add_again_ok [OF h(1) this(2,1)] l show ?thesis
    by (auto simp: listing_def here_def say_def)
qed

lemma rem_listing:
  assumes l: "listing s es" and n: "(T, n) \<in> set es" and T: "T = CHR ''F'' \<or> dir_empty s n \<and> T = CHR ''D''"
  shows "\<exists>s'. rem_entry T full msg n s = Some (s', 1) \<and> listing s' (remove1 (T, n) es)"
proof -
  from l obtain a ks where h: "here s a ks" and es: "map key ks = es" "distinct es"
    and fl: "\<forall>t \<in> set ks. ty t = CHR ''F'' \<longrightarrow> sub t = []" by (auto simp: listing_def)
  obtain t where "List.find (is_entry T n) ks = Some t"
    using n key_entry [of T n ks] es(1) by (cases "List.find (is_entry T n) ks") (auto simp: find_None_iff)
  from find_split [OF this] obtain us vs where
    ks: "ks = us @ t # vs" "is_entry T n t" "\<forall>u \<in> set us. \<not> is_entry T n u" by blast
  have "sub t = []" using T ks h fl by (auto simp: dir_empty_def is_entry_def)
  from rem_found_ok(1) [OF h ks this] obtain m where
    e: "rem_entry T full msg n s = Some (s\<lparr>mem := m\<rparr>, 1)" and r: "redir s a ks (us @ vs) m" by blast
  have "here (s\<lparr>mem := m, brk := brk s\<rparr>) a (us @ vs)"
    by (rule redir_here [OF h r]) (use h ks in \<open>auto simp: here_def\<close>)
  then have "here (s\<lparr>mem := m\<rparr>) a (us @ vs)" by simp
  moreover have "key t = (T, n)" using ks(2) by (simp add: key_def is_entry_def)
  then have "map key (us @ vs) = remove1 (T, n) es"
    using es by (auto simp: ks(1) remove1_append)
  moreover have "distinct (remove1 (T, n) es)" using es(2) by simp
  ultimately have "listing (s\<lparr>mem := m\<rparr>) (remove1 (T, n) es)"
    unfolding listing_def using fl ks(1) by (intro exI [of _ a] exI [of _ "us @ vs"]) auto
  with e show ?thesis by blast
qed

lemma rem_listing_missing:
  assumes l: "listing s es" and n: "(T, n) \<notin> set es"
  shows "\<exists>s'. rem_entry T full msg n s = Some (s', 0) \<and> listing s' es"
proof -
  from l obtain a ks where h: "here s a ks" "map key ks = es" by (auto simp: listing_def)
  with n key_entry [of T n ks] have "\<forall>u \<in> set ks. \<not> is_entry T n u" by auto
  from rem_missing_ok [OF h(1) this] l show ?thesis
    by (auto simp: listing_def here_def say_def)
qed

interpretation dirs: entry_ops mkdir rmdir "CHR ''D''" listing dir_empty "\<lambda>n. length n < PATH"
  unfolding mkdir_add rmdir_rem
  by unfold_locales (use add_listing in blast, rule add_listing_again, assumption+,
    use rem_listing in blast, rule rem_listing_missing, assumption+)

interpretation files: entry_ops creat rm "CHR ''F''" listing "\<lambda>_ _. True" "\<lambda>n. length n < PATH"
  unfolding creat_add rm_rem [where full = "[]"]
  by unfold_locales (use add_listing in blast, rule add_listing_again, assumption+,
    use rem_listing in blast, rule rem_listing_missing, assumption+)

end
