(* ===== verification/DirRun.thy ===== *)
theory DirRun
  imports DirEntries
begin

text \<open>
  The interpreter of \<^verbatim>\<open>Lab2/Lab2.c\<close> against the tree: a command finds the directory its path means
  and changes the entries there; the invariant of the whole program between two prompts.
\<close>

section \<open>Changing one directory of the tree\<close>

lemma tidy_simps:
  "tidy [] \<longleftrightarrow> True"
  "tidy (us @ t # vs) \<longleftrightarrow> distinct (map key (us @ t # vs)) \<and> node_ok t \<and> tidy (sub t) \<and>
     all_nodes node_ok us \<and> all_nodes node_ok vs"
  by (auto simp: tidy_def node_ok_def)

lemma tidy_goto: "tidy cs \<Longrightarrow> goto r cs ns = Some (a, ks) \<Longrightarrow> tidy ks"
proof (induction ns arbitrary: r cs)
  case (Cons m ms)
  then obtain t where t: "List.find (is_entry (CHR ''D'') m) cs = Some t" "goto (adr t) (sub t) ms = Some (a, ks)"
    by (auto split: option.splits)
  from find_split [OF t(1)] obtain us vs where "cs = us @ t # vs" by blast
  with Cons.prems(1) have "tidy (sub t)" by (simp add: tidy_simps)
  from Cons.IH [OF this t(2)] show ?case .
qed simp

lemma tidy_upd: "tidy cs \<Longrightarrow> goto r cs ns = Some (a, ks) \<Longrightarrow> tidy ks' \<Longrightarrow> tidy (upd_dir ns (\<lambda>_. ks') cs)"
proof (induction ns arbitrary: r cs)
  case (Cons m ms)
  then obtain t where t: "List.find (is_entry (CHR ''D'') m) cs = Some t" "goto (adr t) (sub t) ms = Some (a, ks)"
    by (auto split: option.splits)
  from find_split [OF t(1)] obtain us vs where
    s: "cs = us @ t # vs" "is_entry (CHR ''D'') m t" "\<forall>u \<in> set us. \<not> is_entry (CHR ''D'') m u" by blast
  with Cons.prems(1) have "tidy (sub t)" by (simp add: tidy_simps)
  from Cons.IH [OF this t(2) Cons.prems(3)] have u: "tidy (upd_dir ms (\<lambda>_. ks') (sub t))" .
  let ?t = "Nd (adr t) (nm t) (ty t) (upd_dir ms (\<lambda>_. ks') (sub t))"
  have e: "upd_dir (m # ms) (\<lambda>_. ks') cs = us @ ?t # vs" by (simp add: s(1) upd_first_split [OF s(2,3)])
  have "key ?t = key t" by (simp add: key_def)
  moreover have "node_ok ?t" using u s(2) by (simp add: node_ok_def tidy_def is_entry_def)
  ultimately show ?case unfolding e using Cons.prems(1) u by (simp add: s(1) tidy_simps)
qed simp

text \<open>
  A path to a directory stays good when the entries that matter stay; \<open>d\<close> is the address of an
  empty directory that may disappear.
\<close>

lemma find_entry_upd:
  assumes "n \<noteq> m" and "is_entry T m t" and "\<forall>u \<in> set us. \<not> is_entry T m u"
  shows "List.find (is_entry T n) (us @ Nd (adr t) (nm t) (ty t) ks # vs) = List.find (is_entry T n) (us @ t # vs)"
  using assms by (induction us) (auto simp: is_entry_def)

lemma goto_upd:
  assumes "goto r cs ns = Some (a, ks)" and "goto r cs m = Some (b, us)" and "b \<noteq> d"
    and "\<And>n t. List.find (is_entry (CHR ''D'') n) ks = Some t \<Longrightarrow>
      List.find (is_entry (CHR ''D'') n) ks' = Some t \<or> adr t = d \<and> sub t = []"
  shows "\<exists>us'. goto r (upd_dir ns (\<lambda>_. ks') cs) m = Some (b, us')"
  using assms
proof (induction ns arbitrary: r cs m)
  case Nil
  show ?case
  proof (cases m)
    case Nil
    with \<open>goto r cs m = Some (b, us)\<close> show ?thesis by auto
  next
    case (Cons n m')
    with Nil.prems obtain t where t: "List.find (is_entry (CHR ''D'') n) ks = Some t" "goto (adr t) (sub t) m' = Some (b, us)"
      by (auto split: option.splits)
    have "\<not> (adr t = d \<and> sub t = [])" using t(2) Nil.prems(3) by (cases m') auto
    with Nil.prems(4) [OF t(1)] t(2) Cons show ?thesis by auto
  qed
next
  case (Cons k ns)
  then obtain t where t: "List.find (is_entry (CHR ''D'') k) cs = Some t" "goto (adr t) (sub t) ns = Some (a, ks)"
    by (auto split: option.splits)
  from find_split [OF t(1)] obtain as bs where
    s: "cs = as @ t # bs" "is_entry (CHR ''D'') k t" "\<forall>u \<in> set as. \<not> is_entry (CHR ''D'') k u" by blast
  let ?t = "Nd (adr t) (nm t) (ty t) (upd_dir ns (\<lambda>_. ks') (sub t))"
  have e: "upd_dir (k # ns) (\<lambda>_. ks') cs = as @ ?t # bs" by (simp add: s(1) upd_first_split [OF s(2,3)])
  show ?case
  proof (cases m)
    case Nil
    with Cons.prems(2) show ?thesis by auto
  next
    case mc: (Cons n m')
    show ?thesis
    proof (cases "n = k")
      case True
      have "is_entry (CHR ''D'') k ?t" using s(2) by (simp add: is_entry_def)
      then have f: "List.find (is_entry (CHR ''D'') n) (as @ ?t # bs) = Some ?t"
        using s(3) True by (intro find_append_Cons) simp_all
      from Cons.prems(2) mc t(1) True have "goto (adr t) (sub t) m' = Some (b, us)" by simp
      from Cons.IH [OF t(2) this Cons.prems(3,4)] show ?thesis unfolding e mc by (simp add: f)
    next
      case False
      with Cons.prems(2) mc find_entry_upd [OF False s(2,3)] show ?thesis
        unfolding e mc by (auto simp: s(1))
    qed
  qed
qed

lemma tree_update:
  assumes f: "fsok s cs" and g: "goto (root s) cs ns = Some (a, ks)" and r: "redir s a ks ks' h"
    and b: "brk s \<le> b" and d: "distinct (addrs ks')" and t: "tidy ks'"
    and n: "\<And>x. x \<in> set (addrs ks') \<Longrightarrow> x \<in> set (addrs ks) \<or> brk s \<le> x \<and> x < b"
  shows "fsok (s\<lparr>mem := h, brk := b\<rparr>) (upd_dir ns (\<lambda>_. ks') cs)"
proof -
  note dn = fsok_dirnode [OF f] and di = fsok_distinct [OF f]
  have lt: "\<forall>x \<in> set (root s # addrs cs). x < brk s" using f by (simp add: fsok_def)
  from r obtain y y' where y: "mem s a = Some y" "h a = Some y'" "same_but_child y y'"
    "forest_at h (Some a) (Child y') ks'" by (auto simp: redir_def)
  have o: "h x = mem s x" if "x \<in> set (root s # addrs cs)" "x \<noteq> a" "x \<notin> set (addrs ks)" for x
    using r that lt by (auto simp: redir_def)
  from dir_update [OF dn g di y o] obtain z z' where
    up: "dirnode h (root s) (upd_dir ns (\<lambda>_. ks') cs)"
    and z: "mem s (root s) = Some z" "h (root s) = Some z'" "same_but_child z z'" by blast
  from f z(1) have "Parent z = None" "Type z = CHR ''D''" by (auto simp: fsok_def)
  with z(3) have "Parent z' = None" "Type z' = CHR ''D''" by (simp_all add: same_but_child_fields)
  moreover from goto_addrs [OF g] obtain A B where
    A: "addrs cs = A @ addrs ks @ B" "addrs (upd_dir ns (\<lambda>_. ks') cs) = A @ addrs ks' @ B" by blast
  have new: "x \<notin> set (root s # A @ B) \<and> x < b" if x: "x \<in> set (addrs ks')" for x
  proof -
    consider "x \<in> set (addrs ks)" | "brk s \<le> x" "x < b" using n [OF x] by blast
    then show ?thesis
    proof cases
      case 1
      then have "x \<in> set (root s # addrs cs)" by (simp add: A(1))
      with lt have "x < brk s" by blast
      with 1 di b show ?thesis by (auto simp: A(1))
    next
      case 2
      have "y < brk s" if "y \<in> set (root s # A @ B)" for y using lt that by (auto simp: A(1))
      with 2 show ?thesis by (meson leD)
    qed
  qed
  have "distinct (root s # A @ B)" using di by (auto simp: A(1))
  then have "distinct (root s # A @ addrs ks' @ B)" using new d by auto
  moreover have "x < b" if "x \<in> set (root s # A @ addrs ks' @ B)" for x
  proof -
    have "x \<in> set (root s # A @ B) \<or> x \<in> set (addrs ks')" using that by auto
    moreover have "y < brk s" if "y \<in> set (root s # A @ B)" for y using lt that by (auto simp: A(1))
    ultimately show ?thesis using new b by (meson less_le_trans)
  qed
  moreover have "tidy (upd_dir ns (\<lambda>_. ks') cs)"
    using f g t by (intro tidy_upd) (simp_all add: fsok_def)
  ultimately show ?thesis using up z(2) by (auto simp: fsok_def dirnode_def A(2))
qed

lemma fsok_here: "fsok s cs \<Longrightarrow> at_dir s cs ns a ks \<Longrightarrow> here s a ks"
  using goto_dirnode [OF fsok_dirnode, of s cs ns a ks] goto_in [of "root s" cs ns a ks]
  by (auto simp: at_dir_def here_def fsok_def)

text \<open>Adding to and removing from the directory a path leads to.\<close>

definition child_entry :: "char \<Rightarrow> string \<Rightarrow> ftree list \<Rightarrow> bool" where
  "child_entry T n ks \<longleftrightarrow> (\<exists>t \<in> set ks. is_entry T n t)"

lemma tidy_snoc:
  "tidy ks \<Longrightarrow> \<not> child_entry T n ks \<Longrightarrow> tidy (ks @ [leaf b n T])"
  using key_entry [of T n ks]
  by (auto simp: tidy_def child_entry_def node_ok_def key_def)

lemma add_tree:
  assumes f: "fsok s cs" and a: "at_dir s cs ns a ks" and n: "\<not> child_entry T n ks" "length n < PATH"
  shows "\<exists>h. add_entry T msg n s = Some (s\<lparr>mem := h, brk := brk s + 1\<rparr>, 1) \<and>
    fsok (s\<lparr>mem := h, brk := brk s + 1\<rparr>) (upd_dir ns (\<lambda>_. ks @ [leaf (brk s) n T]) cs)"
proof -
  note h = fsok_here [OF f a]
  have "\<forall>u \<in> set ks. \<not> is_entry T n u" using n(1) by (simp add: child_entry_def)
  from add_new_ok [OF h this n(2)] obtain m where
    e: "add_entry T msg n s = Some (s\<lparr>mem := m, brk := brk s + 1\<rparr>, 1)"
    and r: "redir s a ks (ks @ [leaf (brk s) n T]) m" by blast
  have g: "goto (root s) cs ns = Some (a, ks)" using a by (simp add: at_dir_def)
  have "tidy ks" using tidy_goto [OF _ g] f by (simp add: fsok_def)
  then have "fsok (s\<lparr>mem := m, brk := brk s + 1\<rparr>) (upd_dir ns (\<lambda>_. ks @ [leaf (brk s) n T]) cs)"
    using h n(1) by (intro tree_update [OF f g r]) (auto simp: here_def intro: tidy_snoc)
  with e show ?thesis by blast
qed

definition drop_entry :: "char \<Rightarrow> string \<Rightarrow> ftree list \<Rightarrow> ftree list" where
  "drop_entry T n ks = filter (\<lambda>t. \<not> is_entry T n t) ks"

lemma is_entry_key: "is_entry T n t \<longleftrightarrow> key t = (T, n)"
  by (simp add: is_entry_def key_def)

lemma tidy_unique:
  assumes "tidy (us @ t # vs)" and "is_entry T n t" and "u \<in> set us \<union> set vs"
  shows "\<not> is_entry T n u"
proof -
  have "key t \<notin> key ` (set us \<union> set vs)" using assms(1) by (auto simp: tidy_simps)
  with assms(2,3) show ?thesis by (metis image_eqI is_entry_key)
qed

lemma tidy_drop: "tidy (us @ t # vs) \<Longrightarrow> is_entry T n t \<Longrightarrow> drop_entry T n (us @ t # vs) = us @ vs"
proof -
  assume t: "tidy (us @ t # vs)" "is_entry T n t"
  note u = tidy_unique [OF t]
  have "filter (\<lambda>t. \<not> is_entry T n t) us = us" "filter (\<lambda>t. \<not> is_entry T n t) vs = vs"
    using u by (simp_all add: filter_id_conv)
  with t(2) show ?thesis by (simp add: drop_entry_def)
qed

lemma rem_tree:
  assumes f: "fsok s cs" and a: "at_dir s cs ns a ks"
    and t: "t \<in> set ks" "is_entry T n t" "sub t = []"
  shows "\<exists>h. rem_entry T full msg n s = Some (s\<lparr>mem := h\<rparr>, 1) \<and>
    fsok (s\<lparr>mem := h\<rparr>) (upd_dir ns (\<lambda>_. drop_entry T n ks) cs) \<and> h (adr t) = None"
proof -
  note h = fsok_here [OF f a]
  have g: "goto (root s) cs ns = Some (a, ks)" using a by (simp add: at_dir_def)
  have ti: "tidy ks" using tidy_goto [OF _ g] f by (simp add: fsok_def)
  from t(1) obtain us vs where ks: "ks = us @ t # vs" by (auto simp: in_set_conv_decomp)
  have us: "\<forall>u \<in> set us. \<not> is_entry T n u"
    using tidy_unique [OF ti [unfolded ks] t(2)] by simp
  from rem_found_ok(1) [OF h ks t(2) us t(3)] obtain m where
    e: "rem_entry T full msg n s = Some (s\<lparr>mem := m\<rparr>, 1)" and r: "redir s a ks (us @ vs) m"
    and fr: "m (adr t) = None" by blast
  have "tidy (us @ vs)" using ti by (auto simp: ks tidy_simps tidy_def)
  then have "fsok (s\<lparr>mem := m, brk := brk s\<rparr>) (upd_dir ns (\<lambda>_. us @ vs) cs)"
    using h by (intro tree_update [OF f g r]) (auto simp: here_def ks)
  with e fr show ?thesis using tidy_drop [OF ti [unfolded ks] t(2)] by (auto simp: ks)
qed

section \<open>Running a command\<close>

definition absolute :: "string \<Rightarrow> bool" where
  "absolute path \<longleftrightarrow> path \<noteq> [] \<and> hd path = CHR ''/''"

definition abs_base :: "string \<Rightarrow> string list \<Rightarrow> string list" where
  "abs_base path ns = (if absolute path then [] else ns)"

definition abs_rest :: "string \<Rightarrow> string" where
  "abs_rest path = (if absolute path then tl path else path)"

text \<open>The directory part and the last part of a path; both are empty for the path \<^verbatim>\<open>.\<close>.\<close>

definition d_part :: "string \<Rightarrow> string" where
  "d_part p = (if p = [] \<or> dirname p = ''.'' then [] else dirname p)"

definition b_part :: "string \<Rightarrow> string" where
  "b_part p = (if p = [] \<or> basename p = ''.'' then [] else basename p)"

text \<open>The directory a path means, for the caller at \<open>ns\<close>.\<close>

definition target :: "ftree list \<Rightarrow> string list \<Rightarrow> string \<Rightarrow> string list option" where
  "target cs ns path = resolve cs (abs_base path ns) (strtok_all ''/'' (d_part (abs_rest path)))"

definition core_same :: "fs \<Rightarrow> fs \<Rightarrow> bool" where
  "core_same s t \<longleftrightarrow> mem t = mem s \<and> brk t = brk s \<and> root t = root s \<and> start t = start s \<and>
     pathname t = pathname s \<and> disk t = disk s"

lemma core_fsok: "core_same s t \<Longrightarrow> fsok t cs = fsok s cs"
  by (simp add: core_same_def fsok_def)

lemma core_home: "core_same s t \<Longrightarrow> home_dir t cs ns = home_dir s cs ns"
  by (simp add: core_same_def home_dir_def)

lemma core_trans: "core_same s t \<Longrightarrow> core_same t u \<Longrightarrow> core_same s u"
  by (simp add: core_same_def)

lemma core_say [simp]: "core_same s (say t u) = core_same s u"
  by (simp add: core_same_def say_def)

lemma locateDir_core: "locateDir p s = Some s' \<Longrightarrow> fsok s cs \<Longrightarrow> at_dir s cs ns a ks \<Longrightarrow>
  (case resolve cs ns (strtok_all ''/'' p) of
     None \<Rightarrow> \<exists>q. s' = s\<lparr>cwd := None, cwPath := q\<rparr>
   | Some ns' \<Rightarrow> \<exists>a' ks'. s' = s\<lparr>cwd := Some a', cwPath := path_text ns'\<rparr> \<and> at_dir s' cs ns' a' ks')"
  using locate_tokens_ok [OF _ _ tokens_slashfree, of s cs ns a ks p s'] by (simp add: locateDir_def)

lemma at_root: "fsok s cs \<Longrightarrow> at_dir (s\<lparr>cwd := Some (root s), cwPath := ROOT\<rparr>) cs [] (root s) cs"
  by (simp add: at_dir_def path_text_def)

text \<open>The part of \<^verbatim>\<open>runCommand\<close> before the lookup.\<close>

definition prepared :: "string \<Rightarrow> fs \<Rightarrow> fs" where
  "prepared path s =
     (let s1 = (if absolute path then resetToRoot True s else s)
      in if abs_rest path \<noteq> [] then dbname (abs_rest path) s1 else s1)"

lemma prepared_core [simp]: "core_same s (prepared path s)"
  by (simp add: prepared_def core_same_def resetToRoot_def dbname_def Let_def)

lemma prepared_at:
  assumes "fsok s cs" and "\<not> absolute path \<Longrightarrow> at_dir s cs ns a ks"
  shows "\<exists>a ks. at_dir (prepared path s) cs (abs_base path ns) a ks"
  using at_root [OF assms(1)] assms(2)
  by (auto simp: prepared_def abs_base_def resetToRoot_def dbname_def Let_def at_dir_def)

lemma prepared_names:
  assumes "abs_rest path = [] \<Longrightarrow> dname s = [] \<and> bname s = []"
  shows "dname (prepared path s) = d_part (abs_rest path)" and "bname (prepared path s) = b_part (abs_rest path)"
  using assms by (auto simp: prepared_def d_part_def b_part_def resetToRoot_def dbname_def Let_def)

text \<open>The path that \<^verbatim>\<open>dbname\<close> writes back fits the array.\<close>

definition path_fits :: "string \<Rightarrow> bool" where
  "path_fits path \<longleftrightarrow> (if absolute path then 1 else 0) +
     length (if abs_rest path \<noteq> [] then dbname_path (abs_rest path) else abs_rest path) < PATH"

definition not_found :: "string \<Rightarrow> string \<Rightarrow> string" where
  "not_found command path = ''bash: '' @ command @ '': '' @
     (if abs_rest path \<noteq> [] then dbname_path (abs_rest path) else abs_rest path) @
     '': No such file or directory'' @ [newline]"

lemma run_table_eq:
  assumes "tab command = Some g" and "command \<noteq> ''quit''"
  shows "run_table hs tab command path s = (if \<not> path_fits path then None else do {
      s3 \<leftarrow> locateDir (dname (prepared path s)) (prepared path s);
      (case cwd s3 of
         None \<Rightarrow> Some (say (not_found command path) (s3\<lparr>dname := strtok_cut (dname s3)\<rparr>), 0)
       | Some c \<Rightarrow> g (bname s3) (s3\<lparr>dname := strtok_cut (dname s3)\<rparr>))
    })"
  using assms unfolding run_table_def path_fits_def prepared_def absolute_def abs_rest_def not_found_def Let_def
  by (simp add: not_less cong: option.case_cong)

lemma run_table_fits: "run_table hs tab command path s \<noteq> None \<Longrightarrow> path_fits path"
  by (auto simp: run_table_def path_fits_def absolute_def abs_rest_def Let_def not_less split: if_splits)

lemma run_table_ok:
  assumes f: "fsok s cs" and a: "\<not> absolute path \<Longrightarrow> at_dir s cs ns a ks"
    and e: "abs_rest path = [] \<Longrightarrow> dname s = [] \<and> bname s = []"
    and tab: "tab command = Some g" "command \<noteq> ''quit''"
    and run: "run_table hs tab command path s = Some (s', r)"
  shows "case target cs ns path of
      None \<Rightarrow> r = 0 \<and> core_same s s'
    | Some ns' \<Rightarrow> \<exists>s4 a' ks'. at_dir s4 cs ns' a' ks' \<and> bname s4 = b_part (abs_rest path) \<and>
        core_same s s4 \<and> g (b_part (abs_rest path)) s4 = Some (s', r)"
proof -
  let ?p = "prepared path s"
  from prepared_at [OF f, of path ns a ks] a obtain b bs where
    pa: "at_dir ?p cs (abs_base path ns) b bs" by blast
  have fp: "fsok ?p cs" using core_fsok [OF prepared_core] f by simp
  note eq = run_table_eq [of tab command g hs path s, OF tab]
  from run run_table_fits [of hs tab command path s] have fits: "\<not> \<not> path_fits path" by simp
  from run [unfolded eq if_not_P [OF fits]] obtain s3 where
    l: "locateDir (dname ?p) ?p = Some s3" and
    g: "(case cwd s3 of
        None \<Rightarrow> Some (say (not_found command path) (s3\<lparr>dname := strtok_cut (dname s3)\<rparr>), 0)
      | Some c \<Rightarrow> g (bname s3) (s3\<lparr>dname := strtok_cut (dname s3)\<rparr>)) = Some (s', r)"
    unfolding bind_eq_Some_conv by blast
  have d: "dname ?p = d_part (abs_rest path)" "bname ?p = b_part (abs_rest path)"
    using prepared_names [of path s] e by blast+
  note lc = locateDir_core [OF l fp pa, unfolded d(1), folded target_def]
  show ?thesis
  proof (cases "target cs ns path")
    case None
    with lc obtain q where "s3 = ?p\<lparr>cwd := None, cwPath := q\<rparr>" by auto
    with g None prepared_core [of s path] show ?thesis by (auto simp: core_same_def say_def)
  next
    case (Some ns')
    with lc obtain a' ks' where s3: "s3 = ?p\<lparr>cwd := Some a', cwPath := path_text ns'\<rparr>"
      and a3: "at_dir s3 cs ns' a' ks'" by auto
    let ?s4 = "s3\<lparr>dname := strtok_cut (dname s3)\<rparr>"
    have "at_dir ?s4 cs ns' a' ks'" using a3 by (simp add: at_dir_def)
    moreover have "bname ?s4 = b_part (abs_rest path)" using d s3 by simp
    moreover have "core_same s ?s4" using prepared_core [of s path] s3 by (simp add: core_same_def)
    moreover have "g (b_part (abs_rest path)) ?s4 = Some (s', r)" using g d s3 by simp
    ultimately show ?thesis unfolding Some option.case
      by (intro exI [of _ ?s4] exI [of _ a'] exI [of _ ks'] conjI)
  qed
qed

text \<open>The command is carried out when the directory exists and the buffer is big enough.\<close>

lemma run_table_some:
  assumes f: "fsok s cs" and a: "\<not> absolute path \<Longrightarrow> at_dir s cs ns a ks"
    and e: "abs_rest path = [] \<Longrightarrow> dname s = [] \<and> bname s = []"
    and tab: "tab command = Some g" "command \<noteq> ''quit''"
    and len: "length (path_text (abs_base path ns)) +
      sum_list (map (\<lambda>t. length t + 1) (strtok_all ''/'' (d_part (abs_rest path)))) < PATH"
    and fits: "path_fits path"
    and t: "target cs ns path = Some ns'"
  shows "\<exists>s4 a' ks'. at_dir s4 cs ns' a' ks' \<and> bname s4 = b_part (abs_rest path) \<and> core_same s s4 \<and>
    run_table hs tab command path s = g (b_part (abs_rest path)) s4"
proof -
  let ?p = "prepared path s"
  from prepared_at [OF f, of path ns a ks] a obtain b bs where
    pa: "at_dir ?p cs (abs_base path ns) b bs" by blast
  have fp: "fsok ?p cs" using core_fsok [OF prepared_core] f by simp
  have d: "dname ?p = d_part (abs_rest path)" "bname ?p = b_part (abs_rest path)"
    using prepared_names [of path s] e by blast+
  have "locateDir (dname ?p) ?p \<noteq> None"
    using locate_tokens_fits [OF fp pa tokens_slashfree] len pa
    by (simp add: locateDir_def d at_dir_def)
  then obtain s3 where l: "locateDir (dname ?p) ?p = Some s3" by auto
  from locateDir_core [OF l fp pa, unfolded d(1), folded target_def] t obtain a' ks' where
    s3: "s3 = ?p\<lparr>cwd := Some a', cwPath := path_text ns'\<rparr>" and a3: "at_dir s3 cs ns' a' ks'" by auto
  let ?s4 = "s3\<lparr>dname := strtok_cut (dname s3)\<rparr>"
  have "run_table hs tab command path s = g (b_part (abs_rest path)) ?s4"
    using run_table_eq [of tab command g hs path s, OF tab] l d s3 fits by auto
  moreover have "at_dir ?s4 cs ns' a' ks'" using a3 by (simp add: at_dir_def)
  moreover have "core_same s ?s4" using prepared_core [of s path] s3 by (simp add: core_same_def)
  moreover have "bname ?s4 = b_part (abs_rest path)" using d s3 by simp
  ultimately show ?thesis by (intro exI [of _ ?s4] exI [of _ a'] exI [of _ ks'] conjI)
qed

lemma run_table_abs:
  assumes f: "fsok s cs" and a: "absolute path" "abs_rest path \<noteq> []"
    and tab: "tab command = Some g" "command \<noteq> ''quit''"
    and len: "1 + sum_list (map (\<lambda>t. length t + 1) (strtok_all ''/'' (d_part (abs_rest path)))) < PATH"
    and fits: "path_fits path"
    and t: "target cs [] path = Some ns'"
  shows "\<exists>s4 a' ks'. at_dir s4 cs ns' a' ks' \<and> bname s4 = b_part (abs_rest path) \<and> core_same s s4 \<and>
    run_table hs tab command path s = g (b_part (abs_rest path)) s4"
proof (rule run_table_some [where tab = tab and command = command and g = g, OF f _ _ tab _ fits t])
  show "length (path_text (abs_base path [])) +
      sum_list (map (\<lambda>t. length t + 1) (strtok_all ''/'' (d_part (abs_rest path)))) < PATH"
    using a(1) len by (simp add: abs_base_def path_text_def ROOT_def)
qed (use a in simp_all)

section \<open>Listing, moving, printing the path\<close>

fun ls_text :: "nat \<Rightarrow> ftree list \<Rightarrow> string" where
  "ls_text i [] = [newline]"
| "ls_text i (t # ts) =
     (if i \<noteq> 5 then nm t @ '' ('' @ [ty t] @ '')'' @ [CHR 0x09]
      else [newline] @ nm t @ '' ('' @ [ty t] @ '')'') @ ls_text (i + 1) ts"

lemma ls_loop_ok: "forest_at h par p ts \<Longrightarrow> ls_loop h p i = Some (ls_text i ts)"
proof (induction ts arbitrary: p i)
  case Nil
  then show ?case by (subst ls_loop.simps) simp
next
  case (Cons t ts)
  then obtain x where x: "p = Some (adr t)" "h (adr t) = Some x" "Name x = nm t" "Type x = ty t"
    "forest_at h par (Sibling x) ts" by auto
  from Cons.IH [OF x(5)] x show ?case by (subst ls_loop.simps) simp
qed

lemma goto_type:
  assumes "fsok s cs" and "goto (root s) cs ns = Some (a, ks)"
  shows "\<exists>x. mem s a = Some x \<and> Type x = CHR ''D'' \<and> forest_at (mem s) (Some a) (Child x) ks"
proof (cases ns rule: rev_cases)
  case Nil
  with assms show ?thesis by (auto simp: fsok_def)
next
  case (snoc us n)
  with assms(2) obtain b bs where b: "goto (root s) cs us = Some (b, bs)" "goto b bs [n] = Some (a, ks)"
    by (auto simp: goto_append bind_eq_Some_conv)
  then obtain t where t: "List.find (is_entry (CHR ''D'') n) bs = Some t" "a = adr t" "ks = sub t"
    by (auto split: option.splits)
  then have "t \<in> set bs" "ty t = CHR ''D''" by (auto dest!: find_split simp: is_entry_def)
  moreover from goto_dirnode [OF fsok_dirnode [OF assms(1)] b(1)] obtain y where
    "mem s b = Some y" "forest_at (mem s) (Some b) (Child y) bs" by (auto simp: dirnode_def)
  ultimately show ?thesis using t forest_mem by fastforce
qed

lemma ls_ok:
  assumes f: "fsok s cs" and a: "at_dir s cs ns a ks" and l: "ls n s = Some (s', r)"
  shows "core_same s s' \<and> (case resolve cs ns (strtok_all ''/'' n) of
      None \<Rightarrow> r = 0
    | Some ns' \<Rightarrow> \<exists>b bs. goto (root s) cs ns' = Some (b, bs) \<and> r = 1 \<and> out s' = out s @ ls_text 1 bs)"
proof -
  from l obtain s1 where s1: "locateDir n s = Some s1" by (auto simp: ls_def bind_eq_Some_conv)
  show ?thesis
  proof (cases "resolve cs ns (strtok_all ''/'' n)")
    case None
    with locateDir_core [OF s1 f a] obtain q where "s1 = s\<lparr>cwd := None, cwPath := q\<rparr>" by auto
    with l s1 None show ?thesis by (auto simp: ls_def core_same_def say_def)
  next
    case (Some ns')
    with locateDir_core [OF s1 f a] obtain b bs where
      e: "s1 = s\<lparr>cwd := Some b, cwPath := path_text ns'\<rparr>" and b: "at_dir s1 cs ns' b bs" by auto
    then have g: "goto (root s) cs ns' = Some (b, bs)" by (simp add: at_dir_def)
    from goto_type [OF f g] obtain x where
      x: "mem s b = Some x" "Type x = CHR ''D''" "forest_at (mem s) (Some b) (Child x) bs" by blast
    from ls_loop_ok [OF x(3)] x l s1 e g Some show ?thesis
      by (auto simp: ls_def core_same_def say_def)
  qed
qed

lemma cd_ok:
  assumes f: "fsok s cs" and a: "at_dir s cs ns a ks" and b: "bname s = n" and c: "cd n s = Some (s', r)"
    and h: "home_dir s cs ns0"
  shows "fsok s' cs \<and> home_dir s' cs (if n = [] then []
    else case resolve cs ns (strtok_all ''/'' n) of None \<Rightarrow> ns0 | Some ns' \<Rightarrow> ns')"
proof (cases "n = []")
  case True
  with c have "s' = resetToRoot False s" by (simp add: cd_def)
  with f True show ?thesis by (simp add: resetToRoot_def fsok_def home_dir_def path_text_def)
next
  case False
  with c b obtain s1 where s1: "locateDir n s = Some s1" by (auto simp: cd_def bind_eq_Some_conv)
  show ?thesis
  proof (cases "resolve cs ns (strtok_all ''/'' n)")
    case None
    with locateDir_core [OF s1 f a] obtain q where "s1 = s\<lparr>cwd := None, cwPath := q\<rparr>" by auto
    with c s1 None False b h f show ?thesis
      by (auto simp: cd_def say_def bind_eq_Some_conv fsok_def home_dir_def)
  next
    case (Some ns')
    with locateDir_core [OF s1 f a] obtain d ds where
      e: "s1 = s\<lparr>cwd := Some d, cwPath := path_text ns'\<rparr>" and d: "at_dir s1 cs ns' d ds" by auto
    with c s1 False b have s': "s' = s1\<lparr>pathname := cwPath s1, start := d\<rparr>" by (simp add: cd_def)
    have "home_dir s' cs ns'" using d e s' by (auto simp: at_dir_def home_dir_def)
    moreover have "fsok s' cs" using f e s' by (simp add: fsok_def)
    ultimately show ?thesis using False Some by simp
  qed
qed

end
