(* ===== verification/DirSave.thy ===== *)
theory DirSave
  imports DirRun
begin

text \<open>
  \<^verbatim>\<open>pwd\<close>, \<^verbatim>\<open>save\<close> and \<^verbatim>\<open>reload\<close> of \<^verbatim>\<open>Lab2/Lab2.c\<close>: the path text of a directory, the lines a tree is
  written as, and the tree that comes back when the lines are read.
\<close>

section \<open>Paths\<close>

definition pwd_text :: "string list \<Rightarrow> string" where
  "pwd_text ns = ''/'' @ join ''/'' ns"

lemma join_snoc: "ns \<noteq> [] \<Longrightarrow> join sep (ns @ [n]) = join sep ns @ sep @ n"
proof (induction sep ns rule: join.induct)
  case (3 sep w v vs)
  then show ?case by (cases vs) simp_all
qed simp_all

lemma join_trail: "concat (map (\<lambda>n. n @ sep) ns) @ n = join sep (ns @ [n])"
proof (induction ns)
  case (Cons m ns)
  then show ?case by (cases ns) simp_all
qed simp

lemma goto_node:
  assumes "fsok s cs" and "goto (root s) cs (ns @ [n]) = Some (a, ks)"
  shows "\<exists>b bs x. goto (root s) cs ns = Some (b, bs) \<and> mem s a = Some x \<and> Parent x = Some b \<and> Name x = n"
  using goto_parent [OF fsok_dirnode [OF assms(1)] assms(2)] by blast

text \<open>Of a proper ancestor of the current directory \<^verbatim>\<open>getPath\<close> gives the path with a slash behind it.\<close>

lemma getPath_above:
  assumes f: "fsok s cs"
  shows "goto (root s) cs ns = Some (b, bs) \<Longrightarrow> goto b bs rest = Some (a, ks) \<Longrightarrow> rest \<noteq> [] \<Longrightarrow>
    length (''/'' @ concat (map (\<lambda>n. n @ ''/'') ns)) < PATH \<Longrightarrow>
    getPath (mem s) (Some a) b = Some (''/'' @ concat (map (\<lambda>n. n @ ''/'') ns))"
proof (induction ns arbitrary: b bs rest rule: rev_induct)
  case Nil
  then obtain x where "mem s b = Some x" "Parent x = None" using f by (auto simp: fsok_def)
  then show ?case by (subst getPath.simps) (simp add: ABSPATH_def)
next
  case (snoc n us)
  from goto_node [OF f snoc.prems(1)] obtain p ps x where
    p: "goto (root s) cs us = Some (p, ps)" "mem s b = Some x" "Parent x = Some p" "Name x = n" by blast
  have "goto p ps ([n] @ rest) = Some (a, ks)"
    using snoc.prems(1,2) p(1) by (simp only: goto_append bind_eq_Some_conv) auto
  from snoc.IH [OF p(1) this] snoc.prems(4)
  have IH: "getPath (mem s) (Some a) p = Some (''/'' @ concat (map (\<lambda>n. n @ ''/'') us))" by simp
  have "distinct (b # addrs bs)" using goto_in(3) [OF snoc.prems(1)] fsok_distinct [OF f] by blast
  with goto_in(4) [OF snoc.prems(2)] snoc.prems(3) have "b \<noteq> a" by blast
  with IH p snoc.prems(4) show ?case by (subst getPath.simps) (simp add: fit_def)
qed

lemma pwd_ok:
  assumes f: "fsok s cs" and a: "at_dir s cs ns a ks" and len: "length (pwd_text ns) < PATH"
  shows "pwd n s = Some (say (pwd_text ns @ [newline]) s, 1)"
proof -
  from a have g: "goto (root s) cs ns = Some (a, ks)" "cwd s = Some a" by (simp_all add: at_dir_def)
  have "getPath (mem s) (Some a) a = Some (pwd_text ns)"
  proof (cases ns rule: rev_cases)
    case Nil
    with f g obtain x where "mem s a = Some x" "Parent x = None" by (auto simp: fsok_def)
    with Nil show ?thesis by (subst getPath.simps) (simp add: ABSPATH_def pwd_text_def)
  next
    case (snoc us m)
    have pt: "pwd_text ns = ''/'' @ concat (map (\<lambda>n. n @ ''/'') us) @ m"
      by (simp add: pwd_text_def snoc join_trail)
    from goto_node [OF f g(1) [unfolded snoc]] obtain p ps x where
      p: "goto (root s) cs us = Some (p, ps)" "mem s a = Some x" "Parent x = Some p" "Name x = m" by blast
    have "goto p ps [m] = Some (a, ks)" using g(1) p(1) by (simp add: snoc goto_append)
    from getPath_above [OF f p(1) this] len
    have "getPath (mem s) (Some a) p = Some (''/'' @ concat (map (\<lambda>n. n @ ''/'') us))" by (simp add: pt)
    with p len show ?thesis by (subst getPath.simps) (simp add: fit_def pt)
  qed
  with g show ?thesis by (simp add: pwd_def)
qed

section \<open>The lines of a tree\<close>

fun tree_lines :: "string \<Rightarrow> ftree list \<Rightarrow> string list" where
  "tree_lines path [] = []"
| "tree_lines path (Nd a n t cs # ts) =
     ([t] @ '' '' @ path @ ''/'' @ n) # tree_lines (path @ ''/'' @ n) cs @ tree_lines path ts"

lemma tree_lines_Cons [simp]: "tree_lines path (t # ts) =
    ([ty t] @ '' '' @ path @ ''/'' @ nm t) # tree_lines (path @ ''/'' @ nm t) (sub t) @ tree_lines path ts"
  by (cases t) simp

text \<open>All paths fit into the array of \<^verbatim>\<open>saveTree\<close>.\<close>

fun paths_fit :: "string \<Rightarrow> ftree list \<Rightarrow> bool" where
  "paths_fit path [] \<longleftrightarrow> True"
| "paths_fit path (Nd a n t cs # ts) \<longleftrightarrow>
     length (path @ ''/'' @ n) < PATH \<and> paths_fit (path @ ''/'' @ n) cs \<and> paths_fit path ts"

lemma paths_fit_Cons [simp]: "paths_fit path (t # ts) \<longleftrightarrow> length (path @ ''/'' @ nm t) < PATH \<and>
    paths_fit (path @ ''/'' @ nm t) (sub t) \<and> paths_fit path ts"
  by (cases t) simp

declare tree_lines.simps(2) [simp del] paths_fit.simps(2) [simp del]

text \<open>The lines of a tree that can be saved fit the line of \<^verbatim>\<open>reload\<close>.\<close>

lemma tree_lines_whole:
  "paths_fit path ts \<Longrightarrow> concat (map fgets_pieces (tree_lines path ts)) = tree_lines path ts"
proof (induction path ts rule: tree_lines.induct)
  case (2 path a n t cs ts)
  then have "length ([t] @ '' '' @ path @ ''/'' @ n) < LINE_TREE - 1"
    by (simp add: paths_fit.simps(2) LINE_TREE_def PATH_def)
  then have "fgets_pieces ([t] @ '' '' @ path @ ''/'' @ n) = [[t] @ '' '' @ path @ ''/'' @ n]"
    by (subst fgets_pieces.simps) simp
  with 2 show ?case by (simp add: tree_lines.simps(2) paths_fit.simps(2))
qed simp

lemma saveTree_ok:
  "forest_at h par p ts \<Longrightarrow>
   saveTree h p path = (if paths_fit path ts then Some (tree_lines path ts) else None)"
proof (induction ts arbitrary: par p path rule: forest_induct)
  case Nil
  then show ?case by (subst saveTree.simps) simp
next
  case (Cons t ts)
  then obtain x where x: "p = Some (adr t)" "h (adr t) = Some x" "Name x = nm t" "Type x = ty t"
    "forest_at h (Some (adr t)) (Child x) (sub t)" "forest_at h par (Sibling x) ts" by auto
  from Cons.IH(1) [OF x(5)] Cons.IH(2) [OF x(6)] x show ?case
    by (subst saveTree.simps) (auto simp: fit_def)
qed

text \<open>The tree without its addresses.\<close>

datatype entry = Entry string char "entry list"

fun shape :: "ftree list \<Rightarrow> entry list" where
  "shape [] = []"
| "shape (Nd a n t cs # ts) = Entry n t (shape cs) # shape ts"

lemma shape_Cons [simp]: "shape (t # ts) = Entry (nm t) (ty t) (shape (sub t)) # shape ts"
  by (cases t) simp

declare shape.simps(2) [simp del]

lemma shape_append [simp]: "shape (us @ vs) = shape us @ shape vs"
  by (induction us) auto

section \<open>Names that survive a round trip\<close>

definition good_name :: "string \<Rightarrow> bool" where
  "good_name n \<longleftrightarrow> word_ok white n \<and> slashfree n \<and> n \<noteq> ''.'' \<and> n \<noteq> ''..''"

lemma good_name_ne: "good_name n \<Longrightarrow> n \<noteq> [] \<and> CHR ''/'' \<notin> set n"
  by (simp add: good_name_def word_ok_def slashfree_def)

lemma last_slashfree: "good_name n \<Longrightarrow> strip_slashes (u @ n) = u @ n"
proof -
  assume "good_name n"
  with good_name_ne [OF this] obtain m c where "n = m @ [c]" "c \<noteq> CHR ''/''"
    by (cases n rule: rev_cases) auto
  then show ?thesis by (simp add: strip_slashes_def)
qed

lemma take_drop_name:
  assumes "good_name n"
  shows "takeWhile (\<lambda>c. c \<noteq> CHR ''/'') (rev n) = rev n"
    and "takeWhile (\<lambda>c. c \<noteq> CHR ''/'') (rev n @ CHR ''/'' # u) = rev n"
    and "dropWhile (\<lambda>c. c \<noteq> CHR ''/'') (rev n) = []"
    and "dropWhile (\<lambda>c. c \<noteq> CHR ''/'') (rev n @ CHR ''/'' # u) = CHR ''/'' # u"
  using good_name_ne [OF assms] by (auto simp: takeWhile_append dropWhile_append)

lemma parts_single:
  assumes "good_name n"
  shows "d_part n = []" and "b_part n = n"
proof -
  have s: "strip_slashes n = n" using last_slashfree [OF assms, of "[]"] by simp
  note g = good_name_ne [OF assms]
  show "d_part n = []"
    using g s by (simp add: d_part_def dirname_def Let_def take_drop_name(3) [OF assms])
  have "basename n = n" using g s by (simp add: basename_def take_drop_name(1) [OF assms])
  then show "b_part n = n" using assms by (simp add: b_part_def good_name_def)
qed

lemma join_last:
  assumes "ns \<noteq> []" and "list_all good_name ns"
  shows "join ''/'' ns \<noteq> []" and "strip_slashes (join ''/'' ns) = join ''/'' ns"
    and "strip_slashes (join ''/'' ns @ ''/'') = join ''/'' ns" and "join ''/'' ns \<noteq> ''.''"
proof -
  from assms(1) obtain us n where ns: "ns = us @ [n]" by (cases ns rule: rev_cases) auto
  with assms(2) have n: "good_name n" by simp
  have j: "join ''/'' ns = (if us = [] then n else join ''/'' us @ ''/'' @ n)"
    by (cases "us = []") (simp_all add: ns join_snoc)
  show "join ''/'' ns \<noteq> []" using j good_name_ne [OF n] by simp
  show s: "strip_slashes (join ''/'' ns) = join ''/'' ns"
    using last_slashfree [OF n, of "[]"] last_slashfree [OF n, of "join ''/'' us @ ''/''"] j by simp
  show "strip_slashes (join ''/'' ns @ ''/'') = join ''/'' ns"
    using s by (simp add: strip_slashes_def)
  show "join ''/'' ns \<noteq> ''.''"
  proof (cases "us = []")
    case True
    with j n show ?thesis by (simp add: good_name_def)
  next
    case False
    show ?thesis
    proof
      assume "join ''/'' ns = ''.''"
      then have "set (join ''/'' us @ ''/'' @ n) = {CHR ''.''}" using j False by simp
      then show False by auto
    qed
  qed
qed

lemma parts_path:
  assumes "ns \<noteq> []" and "list_all good_name ns" and n: "good_name n"
  shows "d_part (join ''/'' (ns @ [n])) = join ''/'' ns" and "b_part (join ''/'' (ns @ [n])) = n"
proof -
  let ?p = "join ''/'' ns @ CHR ''/'' # n"
  have p: "join ''/'' (ns @ [n]) = ?p" using assms(1) by (simp add: join_snoc)
  have s: "strip_slashes ?p = ?p" using last_slashfree [OF n, of "join ''/'' ns @ ''/''"] by simp
  note l = join_last [OF assms(1,2)]
  have "dirname ?p = join ''/'' ns"
    using s l take_drop_name(4) [OF n, of "rev (join ''/'' ns)"] by (simp add: dirname_def Let_def)
  then show "d_part (join ''/'' (ns @ [n])) = join ''/'' ns" using l(4) by (simp add: d_part_def p)
  have "basename ?p = n"
    using s take_drop_name(2) [OF n, of "rev (join ''/'' ns)"] by (simp add: basename_def)
  then show "b_part (join ''/'' (ns @ [n])) = n" using n by (simp add: b_part_def p good_name_def)
qed

text \<open>The path \<open>/a/b/n\<close> means the entry \<open>n\<close> of the directory \<open>a/b\<close>.\<close>

definition full_path :: "string list \<Rightarrow> string" where
  "full_path ns = concat (map (\<lambda>n. ''/'' @ n) ns)"

lemma full_path_join: "ns \<noteq> [] \<Longrightarrow> full_path ns = CHR ''/'' # join ''/'' ns"
proof (induction ns)
  case (Cons n ns)
  then show ?case by (cases ns) (simp_all add: full_path_def)
qed simp

lemma full_path_snoc: "full_path (ns @ [n]) = full_path ns @ ''/'' @ n"
  by (simp add: full_path_def)

lemma full_path_parts:
  assumes "list_all good_name (ns @ [n])"
  shows "absolute (full_path (ns @ [n]))" and "abs_rest (full_path (ns @ [n])) \<noteq> []"
    and "d_part (abs_rest (full_path (ns @ [n]))) = join ''/'' ns"
    and "b_part (abs_rest (full_path (ns @ [n]))) = n"
proof -
  have f: "full_path (ns @ [n]) = CHR ''/'' # join ''/'' (ns @ [n])" by (rule full_path_join) simp
  show a: "absolute (full_path (ns @ [n]))" by (simp add: f absolute_def)
  have r: "abs_rest (full_path (ns @ [n])) = join ''/'' (ns @ [n])"
    using a unfolding abs_rest_def by (simp add: f)
  show "abs_rest (full_path (ns @ [n])) \<noteq> []" unfolding r using assms by (intro join_last(1)) simp_all
  show "d_part (abs_rest (full_path (ns @ [n]))) = join ''/'' ns"
    unfolding r using assms parts_single [of n] parts_path [of ns n] by (cases "ns = []") auto
  show "b_part (abs_rest (full_path (ns @ [n]))) = n"
    unfolding r using assms parts_single [of n] parts_path [of ns n] by (cases "ns = []") auto
qed

lemma strtok_join_good: "list_all good_name ns \<Longrightarrow> strtok_all ''/'' (join ''/'' ns) = ns"
  by (rule strtok_all_join) (auto simp: list_all_iff good_name_def word_ok_def slashfree_def)

lemma resolve_names:
  "goto 0 cs (ms @ ns) \<noteq> None \<Longrightarrow> ''..'' \<notin> set ns \<Longrightarrow> resolve cs ms ns = Some (ms @ ns)"
proof (induction ns arbitrary: ms)
  case (Cons n ns)
  have "goto 0 cs (ms @ [n]) \<noteq> None"
    using Cons.prems(1) goto_append [of 0 cs "ms @ [n]" ns] by (cases "goto 0 cs (ms @ [n])") auto
  then have "resolve1 cs ms n = Some (ms @ [n])" using Cons.prems(2) by (auto simp: resolve1_def)
  with Cons.IH [of "ms @ [n]"] Cons.prems show ?case by simp
qed simp

lemma target_full:
  assumes "list_all good_name (ns @ [n])" and "goto r cs ns = Some (a, ks)"
  shows "target cs ms (full_path (ns @ [n])) = Some ns"
proof -
  have "goto 0 cs ns \<noteq> None" using assms(2) goto_any [of ns r cs] by (cases "ns = []") auto
  moreover have "''..'' \<notin> set ns" using assms(1) by (auto simp: list_all_iff good_name_def)
  ultimately have "resolve cs [] ns = Some ns" using resolve_names [of cs "[]" ns] by simp
  then show ?thesis
    using full_path_parts [OF assms(1)] assms(1)
    by (simp add: target_def abs_base_def strtok_join_good)
qed

section \<open>Reading the lines back\<close>

lemma upd_upd: "upd_dir ns f (upd_dir ns g cs) = upd_dir ns (\<lambda>ks. f (g ks)) cs"
proof (induction ns arbitrary: cs)
  case (Cons m ns)
  let ?P = "is_entry (CHR ''D'') m"
  let ?F = "\<lambda>f t. Nd (adr t) (nm t) (ty t) (upd_dir ns f (sub t))"
  have e: "?P (Nd (adr t) (nm t) (ty t) ks) = ?P t" for t ks by (simp add: is_entry_def)
  have "upd_first ?P (?F f) (upd_first ?P (?F g) cs) = upd_first ?P (?F (\<lambda>ks. f (g ks))) cs"
    by (induction cs) (auto simp: e Cons.IH)
  then show ?case by simp
qed simp

lemma upd_snoc: "upd_dir (ns @ [n]) f cs = upd_dir ns (upd_dir [n] f) cs"
  by (induction ns arbitrary: cs) simp_all

lemma goto_upd_same: "goto r cs ns = Some (a, ks) \<Longrightarrow> goto r (upd_dir ns (\<lambda>_. ks') cs) ns = Some (a, ks')"
proof (induction ns arbitrary: r cs)
  case (Cons m ms)
  then obtain t where t: "List.find (is_entry (CHR ''D'') m) cs = Some t" "goto (adr t) (sub t) ms = Some (a, ks)"
    by (auto split: option.splits)
  from find_split [OF t(1)] obtain us vs where
    s: "cs = us @ t # vs" "is_entry (CHR ''D'') m t" "\<forall>u \<in> set us. \<not> is_entry (CHR ''D'') m u" by blast
  let ?t = "Nd (adr t) (nm t) (ty t) (upd_dir ms (\<lambda>_. ks') (sub t))"
  have "is_entry (CHR ''D'') m ?t" using s(2) by (simp add: is_entry_def)
  then have "List.find (is_entry (CHR ''D'') m) (us @ ?t # vs) = Some ?t"
    using s(3) by (rule find_append_Cons)
  with Cons.IH [OF t(2)] show ?case by (simp add: s(1) upd_first_split [OF s(2,3)])
qed simp

lemma upd_same: "goto r cs ns = Some (a, ks) \<Longrightarrow> upd_dir ns (\<lambda>_. ks) cs = cs"
proof (induction ns arbitrary: r cs)
  case (Cons m ms)
  then obtain t where t: "List.find (is_entry (CHR ''D'') m) cs = Some t" "goto (adr t) (sub t) ms = Some (a, ks)"
    by (auto split: option.splits)
  from find_split [OF t(1)] obtain us vs where
    s: "cs = us @ t # vs" "is_entry (CHR ''D'') m t" "\<forall>u \<in> set us. \<not> is_entry (CHR ''D'') m u" by blast
  have "Nd (adr t) (nm t) (ty t) (upd_dir ms (\<lambda>_. ks) (sub t)) = t"
    using Cons.IH [OF t(2)] by simp
  then show ?case by (simp add: s(1) upd_first_split [OF s(2,3)])
qed simp

lemma upd_leaf:
  assumes "\<not> child_entry (CHR ''D'') n ks"
  shows "upd_dir [n] f (ks @ [leaf b n (CHR ''D'')]) = ks @ [Nd b n (CHR ''D'') (f [])]"
proof -
  have "is_entry (CHR ''D'') n (leaf b n (CHR ''D''))" by (simp add: is_entry_def)
  moreover have "\<forall>u \<in> set ks. \<not> is_entry (CHR ''D'') n u" using assms by (simp add: child_entry_def)
  ultimately show ?thesis by (simp add: upd_first_split)
qed

definition kept :: "fs \<Rightarrow> fs \<Rightarrow> bool" where
  "kept s t \<longleftrightarrow> root t = root s \<and> start t = start s \<and> pathname t = pathname s \<and> disk t = disk s"

lemma kept_trans: "kept s t \<Longrightarrow> kept t u \<Longrightarrow> kept s u"
  by (simp add: kept_def)

lemma entry_line:
  assumes "list_all good_name ns" and "ns \<noteq> []" and "T \<notin> set white" and "length (full_path ns) < PATH"
  shows "scan_two 2 PATH None None ([T] @ '' '' @ full_path ns) = Some ([T], full_path ns)"
proof -
  have "word_ok white (full_path ns)"
    using assms(1,2) by (cases ns) (auto simp: word_ok_def full_path_def list_all_iff good_name_def white_def)
  moreover have "word_ok white [T]" using assms(3) by (simp add: word_ok_def)
  ultimately have "strtok_all white (join [CHR '' ''] [[T], full_path ns]) = [[T], full_path ns]"
    by (intro strtok_all_join) (simp_all add: white_def)
  then have "strtok_all white ([T] @ '' '' @ full_path ns) = [[T], full_path ns]" by simp
  with assms(4) show ?thesis by (simp add: scan_two_def fit_def)
qed

lemma dirname_ne: "dirname t \<noteq> []"
  by (simp add: dirname_def Let_def)

lemma full_path_fits:
  assumes "list_all good_name (ns @ [n])" and "length (full_path (ns @ [n])) < PATH"
  shows "path_fits (full_path (ns @ [n]))"
proof -
  let ?r = "abs_rest (full_path (ns @ [n]))"
  note fp = full_path_parts [OF assms(1)]
  have "dbname_path ?r = (if d_part ?r = [] then [] else d_part ?r @ ''/'') @ b_part ?r"
    using dirname_ne [of ?r] fp(2) by (simp add: dbname_path_def d_part_def b_part_def)
  moreover have "length (full_path (ns @ [n])) = (if ns = [] then 0 else length (join ''/'' ns) + 1) + length n + 1"
    by (cases "ns = []") (simp_all add: full_path_snoc full_path_join full_path_def [of "[]"])
  moreover have "join ''/'' ns \<noteq> []" if "ns \<noteq> []" using that assms(1) by (intro join_last(1)) simp_all
  ultimately show ?thesis using assms(2) fp by (auto simp: path_fits_def split: if_splits)
qed

lemma full_path_length: "length (full_path ns) = sum_list (map (\<lambda>t. length t + 1) ns)"
  by (induction ns) (simp_all add: full_path_def)

lemma reload_entry:
  assumes f: "fsok s cs" and g: "goto (root s) cs ns = Some (a, ks)"
    and n: "list_all good_name (ns @ [n])" and len: "length (full_path (ns @ [n])) < PATH"
    and T: "T = CHR ''D'' \<or> T = CHR ''F''" and new: "\<not> child_entry T n ks"
  shows "\<exists>s' b. (\<forall>lines. reload_lines hs (([T] @ '' '' @ full_path (ns @ [n])) # lines) s = reload_lines hs lines s') \<and>
    fsok s' (upd_dir ns (\<lambda>_. ks @ [leaf b n T]) cs) \<and> kept s s'"
proof -
  let ?p = "full_path (ns @ [n])"
  let ?c = "if [T] = ''F'' then ''creat'' else ''mkdir''"
  obtain msg where tab: "entry_table ?c = Some (\<lambda>name. add_entry T (msg name) name)"
    using T by (auto simp: entry_table_def mkdir_add [abs_def] creat_add [abs_def])
  have q: "?c \<noteq> ''quit''" by simp
  note fp = full_path_parts [OF n]
  have nlen: "length n < PATH" "1 + length (full_path ns) < PATH"
    using len good_name_ne [of n] n by (cases n; simp add: full_path_snoc)+
  have "1 + sum_list (map (\<lambda>t. length t + 1) (strtok_all ''/'' (d_part (abs_rest ?p)))) < PATH"
    using fp(3) n nlen(2) by (simp add: strtok_join_good full_path_length)
  from run_table_abs [where tab = entry_table and command = ?c and g = "\<lambda>name. add_entry T (msg name) name",
      OF f fp(1,2) tab q this full_path_fits [OF n len] target_full [OF n g], unfolded fp(4), of hs] obtain s4 b bs where
    s4: "at_dir s4 cs ns b bs" "core_same s s4"
    "run_table hs entry_table ?c ?p s = add_entry T (msg n) n s4" by blast
  have "bs = ks" using s4(1,2) g by (simp add: at_dir_def core_same_def)
  have "fsok s4 cs" using core_fsok [OF s4(2)] f by simp
  from add_tree [OF this s4(1) new [folded \<open>bs = ks\<close>] nlen(1)] obtain h where
    h: "add_entry T (msg n) n s4 = Some (s4\<lparr>mem := h, brk := brk s4 + 1\<rparr>, 1)"
    "fsok (s4\<lparr>mem := h, brk := brk s4 + 1\<rparr>) (upd_dir ns (\<lambda>_. bs @ [leaf (brk s4) n T]) cs)" by blast
  let ?s' = "s4\<lparr>mem := h, brk := brk s4 + 1, cwd := Some (root s4)\<rparr>"
  have "T \<notin> set white" using T by (auto simp: white_def)
  from entry_line [OF n _ this len] h(1) s4(3)
  have "reload_lines hs (([T] @ '' '' @ ?p) # lines) s = reload_lines hs lines ?s'" for lines by simp
  moreover have "fsok ?s' (upd_dir ns (\<lambda>_. ks @ [leaf (brk s4) n T]) cs)"
    using h(2) \<open>bs = ks\<close> by (simp add: fsok_def)
  moreover have "kept s ?s'" using s4(2) by (simp add: kept_def core_same_def)
  ultimately show ?thesis by blast
qed

definition good_entry :: "ftree \<Rightarrow> bool" where
  "good_entry t \<longleftrightarrow> good_name (nm t) \<and> (ty t = CHR ''D'' \<or> ty t = CHR ''F'') \<and> node_ok t"

lemma reload_forest:
  assumes "fsok s cs" and "goto (root s) cs ns = Some (a, ks)" and "list_all good_name ns"
    and "all_nodes good_entry ts" and "paths_fit (full_path ns) ts" and "distinct (map key (ks @ ts))"
  shows "\<exists>s' ts'. (\<forall>lines. reload_lines hs (tree_lines (full_path ns) ts @ lines) s = reload_lines hs lines s') \<and>
    fsok s' (upd_dir ns (\<lambda>_. ks @ ts') cs) \<and> shape ts' = shape ts \<and> kept s s'"
  using assms
proof (induction ts arbitrary: s cs ns a ks rule: forest_induct)
  case Nil
  from upd_same [OF Nil.prems(2)] Nil show ?case
    by (intro exI [of _ s] exI [of _ "[]"]) (simp add: kept_def)
next
  case (Cons t ts)
  let ?n = "nm t" and ?T = "ty t"
  have good: "good_name ?n" "?T = CHR ''D'' \<or> ?T = CHR ''F''" "node_ok t" "all_nodes good_entry (sub t)"
    "all_nodes good_entry ts" using Cons.prems(4) by (simp_all add: good_entry_def [of t])
  have gn: "list_all good_name (ns @ [?n])" using Cons.prems(3) good(1) by simp
  have fits: "length (full_path (ns @ [?n])) < PATH" "paths_fit (full_path (ns @ [?n])) (sub t)"
    "paths_fit (full_path ns) ts" using Cons.prems(5) by (simp_all add: full_path_snoc)
  have new: "\<not> child_entry ?T ?n ks"
    using Cons.prems(6) by (auto simp: child_entry_def is_entry_key key_def image_iff)
  from reload_entry [OF Cons.prems(1,2) gn fits(1) good(2) new, where hs = hs] obtain s1 b where
    s1: "\<And>lines. reload_lines hs (([?T] @ '' '' @ full_path (ns @ [?n])) # lines) s = reload_lines hs lines s1"
    and f1: "fsok s1 (upd_dir ns (\<lambda>_. ks @ [leaf b ?n ?T]) cs)" and k1: "kept s s1" by blast
  let ?C1 = "upd_dir ns (\<lambda>_. ks @ [leaf b ?n ?T]) cs"
  have r1: "root s1 = root s" using k1 by (simp add: kept_def)
  have g1: "goto (root s1) ?C1 ns = Some (a, ks @ [leaf b ?n ?T])"
    unfolding r1 by (rule goto_upd_same [OF Cons.prems(2)])
  have "\<exists>s2 ss. (\<forall>lines. reload_lines hs (tree_lines (full_path (ns @ [?n])) (sub t) @ lines) s1 = reload_lines hs lines s2) \<and>
    fsok s2 (upd_dir ns (\<lambda>_. ks @ [Nd b ?n ?T ss]) cs) \<and> shape ss = shape (sub t) \<and> kept s1 s2"
  proof (cases "?T = CHR ''D''")
    case True
    have nd: "\<forall>u \<in> set ks. \<not> is_entry (CHR ''D'') ?n u" using new True by (simp add: child_entry_def)
    have "is_entry (CHR ''D'') ?n (leaf b ?n ?T)" using True by (simp add: is_entry_def)
    from find_append_Cons [of _ "leaf b ?n ?T", OF this nd, of "[]"]
    have "goto (root s1) ?C1 (ns @ [?n]) = Some (b, [])"
      using goto_snoc [OF g1, of ?n] by simp
    from Cons.IH(1) [OF f1 this gn good(4) fits(2)] good(3) obtain s2 ss where
      s2: "\<forall>lines. reload_lines hs (tree_lines (full_path (ns @ [?n])) (sub t) @ lines) s1 = reload_lines hs lines s2"
      "fsok s2 (upd_dir (ns @ [?n]) (\<lambda>_. [] @ ss) ?C1)" "shape ss = shape (sub t)" "kept s1 s2"
      by (auto simp: node_ok_def)
    have "upd_dir (ns @ [?n]) (\<lambda>_. [] @ ss) ?C1 = upd_dir ns (\<lambda>_. ks @ [Nd b ?n ?T ss]) cs"
      using upd_leaf [of ?n ks "\<lambda>_. ss" b] new True by (simp add: upd_snoc upd_upd del: upd_dir.simps)
    with s2 show ?thesis by auto
  next
    case False
    then have "sub t = []" using good(3) by (simp add: node_ok_def)
    with f1 show ?thesis
      by (intro exI [of _ s1] exI [of _ "[]"]) (simp add: leaf_def kept_def)
  qed
  then obtain s2 ss where
    s2: "\<And>lines. reload_lines hs (tree_lines (full_path (ns @ [?n])) (sub t) @ lines) s1 = reload_lines hs lines s2"
    and f2: "fsok s2 (upd_dir ns (\<lambda>_. ks @ [Nd b ?n ?T ss]) cs)"
    and sh: "shape ss = shape (sub t)" and k2: "kept s1 s2" by blast
  let ?C2 = "upd_dir ns (\<lambda>_. ks @ [Nd b ?n ?T ss]) cs"
  have "root s2 = root s" using k1 k2 by (simp add: kept_def)
  then have g2: "goto (root s2) ?C2 ns = Some (a, ks @ [Nd b ?n ?T ss])"
    using goto_upd_same [OF Cons.prems(2)] by simp
  have "distinct (map key ((ks @ [Nd b ?n ?T ss]) @ ts))"
  proof -
    have "key (Nd b ?n ?T ss) = key t" by (simp add: key_def)
    with Cons.prems(6) show ?thesis by simp
  qed
  from Cons.IH(2) [OF f2 g2 Cons.prems(3) good(5) fits(3) this] obtain s3 ts' where
    s3: "\<forall>lines. reload_lines hs (tree_lines (full_path ns) ts @ lines) s2 = reload_lines hs lines s3"
    "fsok s3 (upd_dir ns (\<lambda>_. (ks @ [Nd b ?n ?T ss]) @ ts') ?C2)" "shape ts' = shape ts" "kept s2 s3" by blast
  have "reload_lines hs (tree_lines (full_path ns) (t # ts) @ lines) s = reload_lines hs lines s3" for lines
    using s1 [of "tree_lines (full_path (ns @ [?n])) (sub t) @ tree_lines (full_path ns) ts @ lines"]
      s2 [of "tree_lines (full_path ns) ts @ lines"] s3(1) by (simp add: full_path_snoc)
  moreover have "fsok s3 (upd_dir ns (\<lambda>_. ks @ (Nd b ?n ?T ss # ts')) cs)"
    using s3(2) by (simp add: upd_upd)
  moreover have "shape (Nd b ?n ?T ss # ts') = shape (t # ts)" using sh s3(3) by simp
  moreover have "kept s s3" using k1 k2 s3(4) by (simp add: kept_def)
  ultimately show ?case by blast
qed

end
