(* ===== verification/DirProps.thy ===== *)
theory DirProps
  imports DirSave
begin

text \<open>
  The properties of the simulated file system of \<^verbatim>\<open>Lab2/Lab2.c\<close>: paths mean what they should,
  commands change the tree as they should, the tree stays a tree, saving and reloading keep it when the fresh root has no child.
\<close>

section \<open>Auxiliary facts\<close>

text \<open>The program after \<^verbatim>\<open>initialize\<close>, on a host whose fresh memory is zero, and after some lines.\<close>

definition zero_host :: host where
  "zero_host = \<lparr>junk_child = None, junk_ret = 0, can_create = (\<lambda>_. True)\<rparr>"

definition begin_fs :: "host \<Rightarrow> fs" where
  "begin_fs hs = initialize hs zero_fs"

definition typed :: "string list \<Rightarrow> fs" where
  "typed lines = (case session zero_host lines (begin_fs zero_host) of Some s \<Rightarrow> s | None \<Rightarrow> begin_fs zero_host)"

lemma initialize_ok:
  assumes "junk_child hs = None"
  shows "fsok (initialize hs s) []"
  using assms by (simp add: initialize_def fsok_def Let_def tidy_def)

text \<open>What a line types into: the state of the prompt.\<close>

definition at_prompt :: "fs \<Rightarrow> fs" where
  "at_prompt s = s\<lparr>cwd := Some (start s), cwPath := pathname s, dname := [], bname := []\<rparr>"

lemma prompt_at:
  assumes "home_dir s cs ns"
  shows "\<exists>ks. at_dir (at_prompt s) cs ns (start s) ks"
  using assms by (auto simp: home_dir_def at_dir_def at_prompt_def)

lemma prompt_core [simp]: "core_same s (at_prompt s)"
  by (simp add: core_same_def at_prompt_def)

lemma run_prompt:
  assumes f: "fsok s cs" and h: "home_dir s cs ns" and tab: "cmd hs command = Some g" "command \<noteq> ''quit''"
    and run: "runCommand hs command path (at_prompt s) = Some (s', r)"
  shows "case target cs ns path of
      None \<Rightarrow> r = 0 \<and> core_same s s'
    | Some ns' \<Rightarrow> \<exists>s4 a' ks'. at_dir s4 cs ns' a' ks' \<and> bname s4 = b_part (abs_rest path) \<and>
        core_same s s4 \<and> fsok s4 cs \<and> g (b_part (abs_rest path)) s4 = Some (s', r)"
proof -
  from prompt_at [OF h] obtain ks where a: "at_dir (at_prompt s) cs ns (start s) ks" by blast
  have fp: "fsok (at_prompt s) cs" using core_fsok [OF prompt_core] f by simp
  have "dname (at_prompt s) = [] \<and> bname (at_prompt s) = []" by (simp add: at_prompt_def)
  note ok = run_table_ok [where tab = "cmd hs" and command = command and g = g, OF fp a this tab
      run [unfolded runCommand_def]]
  show ?thesis
  proof (cases "target cs ns path")
    case None
    with ok core_trans [OF prompt_core] show ?thesis by auto
  next
    case (Some ns')
    with ok obtain s4 a' ks' where s4: "at_dir s4 cs ns' a' ks'" "bname s4 = b_part (abs_rest path)"
      "core_same (at_prompt s) s4" "g (b_part (abs_rest path)) s4 = Some (s', r)" by auto
    have "core_same s s4" "fsok s4 cs"
      using core_trans [OF prompt_core s4(3)] core_fsok [OF s4(3)] fp by simp_all
    with s4 Some show ?thesis unfolding Some option.case
      by (intro exI [of _ s4] exI [of _ a'] exI [of _ ks'] conjI)
  qed
qed

text \<open>The entry commands on the tree, whether they succeed or not.\<close>

lemma add_entry_cases:
  assumes f: "fsok s cs" and a: "at_dir s cs ns a ks" and e: "add_entry T msg n s = Some (s', r)"
  shows "if child_entry T n ks then r = 0 \<and> core_same s s'
    else r = 1 \<and> fsok s' (upd_dir ns (\<lambda>_. ks @ [leaf (brk s) n T]) cs) \<and> kept s s'"
proof (cases "child_entry T n ks")
  case True
  then obtain t where "t \<in> set ks" "is_entry T n t" by (auto simp: child_entry_def)
  from add_again_ok [OF fsok_here [OF f a] this(2,1)] e True show ?thesis by (auto simp: core_same_def say_def)
next
  case False
  have "\<forall>u \<in> set ks. \<not> is_entry T n u" using False by (simp add: child_entry_def)
  have "length n < PATH"
  proof (rule ccontr)
    assume l: "\<not> length n < PATH"
    from fsok_here [OF f a] obtain y where c: "cwd s = Some a" and y: "mem s a = Some y"
      "forest_at (mem s) (Some a) (Child y) ks" by (auto simp: here_def dirnode_def)
    from scan_none [OF y(2) \<open>\<forall>u \<in> set ks. _\<close>] c y(1) l e show False
      by (simp add: add_entry_def createNode_def fit_def)
  qed
  from add_tree [OF f a False this, of msg] e False show ?thesis by (auto simp: kept_def)
qed

lemma rem_entry_cases:
  assumes f: "fsok s cs" and a: "at_dir s cs ns a ks" and T: "T = CHR ''D'' \<or> T = CHR ''F''"
    and e: "rem_entry T full msg n s = Some (s', r)"
  shows "if \<exists>t \<in> set ks. is_entry T n t \<and> sub t = []
    then r = 1 \<and> fsok s' (upd_dir ns (\<lambda>_. drop_entry T n ks) cs) \<and> kept s s' \<and>
      (\<exists>t \<in> set ks. is_entry T n t \<and> sub t = [] \<and> mem s' (adr t) = None)
    else r = 0 \<and> core_same s s'"
proof (cases "child_entry T n ks")
  case False
  then have "\<forall>u \<in> set ks. \<not> is_entry T n u" by (simp add: child_entry_def)
  with rem_missing_ok [OF fsok_here [OF f a] this] e show ?thesis by (auto simp: core_same_def say_def)
next
  case True
  then obtain t where t: "t \<in> set ks" "is_entry T n t" by (auto simp: child_entry_def)
  then obtain us vs where ks: "ks = us @ t # vs" by (auto simp: in_set_conv_decomp)
  have g: "goto (root s) cs ns = Some (a, ks)" using a by (simp add: at_dir_def)
  have ti: "tidy ks" using tidy_goto [OF _ g] f by (simp add: fsok_def)
  have u: "u = t" if "u \<in> set ks" "is_entry T n u" for u
    using tidy_unique [OF ti [unfolded ks] t(2)] that by (auto simp: ks)
  show ?thesis
  proof (cases "sub t = []")
    case sub: True
    from rem_tree [OF f a t sub, of full msg] e t sub show ?thesis by (auto simp: kept_def)
  next
    case sub: False
    have D: "T = CHR ''D''"
      using T ti t sub by (auto simp: ks tidy_simps node_ok_def is_entry_def)
    have us: "\<forall>u \<in> set us. \<not> is_entry T n u" using tidy_unique [OF ti [unfolded ks] t(2)] by simp
    from rem_found_ok(2) [OF fsok_here [OF f a] ks t(2) us sub D] e u sub show ?thesis
      by (auto simp: core_same_def say_def)
  qed
qed

text \<open>The directory of the prompt survives.\<close>

lemma home_upd:
  assumes h: "home_dir s cs ns0" and k: "kept s s'" and g: "goto (root s) cs ns = Some (a, ks)"
    and d: "start s \<noteq> d"
    and keep: "\<And>n t. List.find (is_entry (CHR ''D'') n) ks = Some t \<Longrightarrow>
      List.find (is_entry (CHR ''D'') n) ks' = Some t \<or> adr t = d \<and> sub t = []"
  shows "home_dir s' (upd_dir ns (\<lambda>_. ks') cs) ns0"
proof -
  from h obtain us where "goto (root s) cs ns0 = Some (start s, us)" by (auto simp: home_dir_def)
  from goto_upd [OF g this d, of ks'] keep h k show ?thesis by (auto simp: home_dir_def kept_def)
qed

lemma find_snoc: "List.find P xs = Some x \<Longrightarrow> List.find P (xs @ ys) = Some x"
  by (induction xs) auto

lemma find_filter: "List.find P xs = Some x \<Longrightarrow> (\<And>y. P y \<Longrightarrow> Q y) \<Longrightarrow> List.find P (filter Q xs) = Some x"
  by (induction xs) (auto split: if_splits)

lemma entry_unique:
  assumes "fsok s cs" and "goto (root s) cs ns = Some (a, ks)"
    and "t \<in> set ks" "is_entry T n t" "u \<in> set ks" "is_entry T n u"
  shows "u = t"
proof -
  have "tidy ks" using tidy_goto [OF _ assms(2)] assms(1) by (simp add: fsok_def)
  moreover obtain us vs where ks: "ks = us @ t # vs" using assms(3) by (auto simp: in_set_conv_decomp)
  ultimately show ?thesis using tidy_unique [of us t vs T n u] assms(4-6) by (auto simp: ks)
qed

text \<open>One command from the prompt keeps the tree and the directory of the prompt.\<close>

definition finv :: "fs \<Rightarrow> bool" where
  "finv s \<longleftrightarrow> (\<exists>cs ns. fsok s cs \<and> home_dir s cs ns)"

lemma finvI: "fsok s cs \<Longrightarrow> home_dir s cs ns \<Longrightarrow> finv s"
  by (auto simp: finv_def)

lemma finv_core: "core_same s t \<Longrightarrow> finv t = finv s"
  by (simp add: finv_def core_fsok core_home)

lemma add_finv:
  assumes f: "fsok s cs" and h: "home_dir s cs ns0" and a: "at_dir s cs ns a ks"
    and e: "add_entry T msg n s = Some (s', r)"
  shows "finv s'"
proof (cases "child_entry T n ks")
  case True
  with add_entry_cases [OF f a e] f h show ?thesis by (auto simp: finv_core intro: finvI)
next
  case False
  with add_entry_cases [OF f a e] have
    f': "fsok s' (upd_dir ns (\<lambda>_. ks @ [leaf (brk s) n T]) cs)" "kept s s'" by simp_all
  have g: "goto (root s) cs ns = Some (a, ks)" using a by (simp add: at_dir_def)
  have "home_dir s' (upd_dir ns (\<lambda>_. ks @ [leaf (brk s) n T]) cs) ns0"
    by (rule home_upd [OF h f'(2) g, of "Suc (start s)"]) (auto intro: find_snoc)
  with f'(1) show ?thesis by (rule finvI)
qed

lemma rem_finv:
  assumes f: "fsok s cs" and h: "home_dir s cs ns0" and a: "at_dir s cs ns a ks"
    and T: "T = CHR ''D'' \<or> T = CHR ''F''" and e: "rem_entry T full msg n s = Some (s', r)"
    and live: "T = CHR ''D'' \<Longrightarrow> mem s' (start s) \<noteq> None"
  shows "finv s'"
proof (cases "\<exists>t \<in> set ks. is_entry T n t \<and> sub t = []")
  case False
  with rem_entry_cases [OF f a T e] f h show ?thesis by (auto simp: finv_core intro: finvI)
next
  case True
  with rem_entry_cases [OF f a T e] obtain t where t: "t \<in> set ks" "is_entry T n t" "sub t = []"
    "mem s' (adr t) = None"
    and f': "fsok s' (upd_dir ns (\<lambda>_. drop_entry T n ks) cs)" "kept s s'" by auto
  have g: "goto (root s) cs ns = Some (a, ks)" using a by (simp add: at_dir_def)
  note un = entry_unique [OF f g t(1,2)]
  have "home_dir s' (upd_dir ns (\<lambda>_. drop_entry T n ks) cs) ns0"
  proof (cases "T = CHR ''D''")
    case True
    with live t(4) have "start s \<noteq> adr t" by auto
    then show ?thesis
    proof (rule home_upd [OF h f'(2) g])
      fix m u
      assume u: "List.find (is_entry (CHR ''D'') m) ks = Some u"
      show "List.find (is_entry (CHR ''D'') m) (drop_entry T n ks) = Some u \<or> adr u = adr t \<and> sub u = []"
      proof (cases "m = n")
        case True
        with u \<open>T = _\<close> un [of u] t(3) show ?thesis by (auto dest: find_split)
      next
        case False
        have "\<not> is_entry T n y" if "is_entry (CHR ''D'') m y" for y
          using that False by (auto simp: is_entry_def)
        with find_filter [OF u, of "\<lambda>y. \<not> is_entry T n y"] show ?thesis by (auto simp: drop_entry_def)
      qed
    qed
  next
    case False
    have no: "\<not> is_entry T n y" if "is_entry (CHR ''D'') m y" for m y
      using that False by (auto simp: is_entry_def)
    show ?thesis
      by (rule home_upd [OF h f'(2) g, of "Suc (start s)"])
        (auto simp: drop_entry_def intro!: find_filter dest: no)
  qed
  with f'(1) show ?thesis by (rule finvI)
qed

lemma if_table:
  "(if b1 then Some x1 else if b2 then Some x2 else if b3 then Some x3 else if b4 then Some x4
    else if b5 then Some x5 else if b6 then Some x6 else if b7 then Some x7 else if b8 then Some x8
    else if b9 then Some x9 else if b10 then Some x10 else if b11 then Some x11 else None) = Some g \<Longrightarrow>
   b1 \<and> g = x1 \<or> b2 \<and> g = x2 \<or> b3 \<and> g = x3 \<or> b4 \<and> g = x4 \<or> b5 \<and> g = x5 \<or> b6 \<and> g = x6 \<or>
   b7 \<and> g = x7 \<or> b8 \<and> g = x8 \<or> b9 \<and> g = x9 \<or> b10 \<and> g = x10 \<or> b11 \<and> g = x11"
  by (simp split: if_splits)

lemma save_core:
  assumes "save hs n s = Some (s', r)"
  shows "mem s' = mem s \<and> brk s' = brk s \<and> root s' = root s \<and> start s' = start s \<and> pathname s' = pathname s"
  using assms by (auto simp: save_def say_def bind_eq_Some_conv split: if_splits)

lemma finv_save: "save hs n s = Some (s', r) \<Longrightarrow> finv s' = finv s"
  using save_core [of hs n s s' r] by (simp add: finv_def fsok_def home_dir_def)

lemma command_finv:
  assumes f: "fsok s cs" and h: "home_dir s cs ns0" and a: "at_dir s cs ns a ks" and b: "bname s = n"
    and tab: "cmd hs command = Some g" "command \<noteq> ''reload''" "command \<noteq> ''quit''"
    and run: "g n s = Some (s', r)"
    and live: "command = ''rmdir'' \<Longrightarrow> mem s' (start s) \<noteq> None"
  shows "finv s'"
  using if_table [OF tab(1) [unfolded cmd_cases]] tab(2,3)
proof (elim disjE conjE)
  assume "g = mkdir"
  with add_finv [OF f h a] run show ?thesis by (auto simp: mkdir_add)
next
  assume "g = rmdir" "command = ''rmdir''"
  with rem_finv [OF f h a, of "CHR ''D''"] live run show ?thesis by (auto simp: rmdir_rem)
next
  assume "g = ls"
  with ls_ok [OF f a, of n s' r] run finv_core [of s s'] f h show ?thesis by (auto intro: finvI)
next
  assume "g = cd"
  with cd_ok [OF f a b _ h, of s' r] run show ?thesis by (auto intro: finvI)
next
  assume "g = pwd"
  with run have "core_same s s'" by (auto simp: pwd_def bind_eq_Some_conv core_same_def say_def)
  with finv_core [of s s'] f h show ?thesis by (auto intro: finvI)
next
  assume "g = creat"
  with add_finv [OF f h a] run show ?thesis by (auto simp: creat_add)
next
  assume "g = rm"
  with rem_finv [OF f h a, of "CHR ''F''"] run show ?thesis by (auto simp: rm_rem [where full = "[]"])
next
  assume "g = save hs"
  with finv_save [of hs n s s' r] run f h show ?thesis by (auto intro: finvI)
next
  assume "g = menu hs"
  with run have "core_same s s'" by (auto simp: menu_def core_same_def say_def)
  with finv_core [of s s'] f h show ?thesis by (auto intro: finvI)
qed simp_all

definition line_command :: "string \<Rightarrow> string" where
  "line_command line = (case strtok_all white line of [] \<Rightarrow> [] | c # _ \<Rightarrow> c)"

lemma scan_two_command:
  "scan_two m n (Some []) (Some []) line = Some (c, p) \<Longrightarrow> c = line_command line"
  by (auto simp: scan_two_def line_command_def fit_def split: list.splits if_splits)

lemma run_no_command:
  "cmd hs command = None \<Longrightarrow> command \<noteq> ''quit'' \<Longrightarrow> path_fits path \<Longrightarrow>
   \<exists>msg. runCommand hs command path s = Some (say msg (prepared path s), 0)"
  by (auto simp: runCommand_def run_table_def path_fits_def prepared_def absolute_def abs_rest_def Let_def not_less)

lemma run_quit:
  "path_fits path \<Longrightarrow> runCommand hs ''quit'' path s = do { (s3, r) \<leftarrow> quit hs [] (prepared path s); Some (s3, -1) }"
  by (auto simp: runCommand_def run_table_def path_fits_def prepared_def absolute_def abs_rest_def Let_def split: if_splits)

lemma finv_say: "finv (say m s) = finv s"
  by (rule finv_core) (simp add: core_same_def say_def)

lemma finv_quit:
  assumes "quit hs n s = Some (s', r)"
  shows "finv s' = finv s"
proof -
  from assms obtain s1 r1 where s1: "save hs ''quit.txt'' s = Some (s1, r1)"
    by (auto simp: quit_def bind_eq_Some_conv)
  with assms have "s' = s1 \<or> (\<exists>m. s' = say m s1)" by (auto simp: quit_def split: if_splits)
  with finv_save [OF s1] finv_say show ?thesis by auto
qed

lemma run_finv:
  assumes f: "fsok s cs" and h: "home_dir s cs ns" and run: "runCommand hs command path (at_prompt s) = Some (s', r)"
    and nr: "command \<noteq> ''reload''" and live: "command = ''rmdir'' \<Longrightarrow> mem s' (start s) \<noteq> None"
  shows "finv s'"
proof -
  from run run_table_fits have fits: "path_fits path" unfolding runCommand_def by fastforce
  show ?thesis
  proof (cases "command = ''quit''")
    case True
    with run fits obtain r' where "quit hs [] (prepared path (at_prompt s)) = Some (s', r')"
      by (auto simp: run_quit bind_eq_Some_conv)
    with finv_quit have "finv s' = finv (prepared path (at_prompt s))" by blast
    also have "\<dots> = finv s" using finv_core [OF core_trans [OF prompt_core prepared_core]] by simp
    finally show ?thesis using f h by (auto intro: finvI)
  next
    case False
    show ?thesis
    proof (cases "cmd hs command")
      case None
      from run_no_command [OF this False fits, of "at_prompt s"] run have
        "core_same s s'" using core_trans [OF prompt_core prepared_core] by auto
      with finv_core [of s s'] f h show ?thesis by (auto intro: finvI)
    next
      case (Some g)
      note rp = run_prompt [where hs = hs and command = command and g = g, OF f h Some False run]
      show ?thesis
      proof (cases "target cs ns path")
        case None
        with rp finv_core [of s s'] f h show ?thesis by (auto intro: finvI)
      next
        case t: (Some ns')
        with rp obtain s4 a' ks' where s4: "at_dir s4 cs ns' a' ks'" "bname s4 = b_part (abs_rest path)"
          "core_same s s4" "fsok s4 cs" "g (b_part (abs_rest path)) s4 = Some (s', r)" by auto
        have "home_dir s4 cs ns" "start s4 = start s" using core_home [OF s4(3)] h s4(3) by (simp_all add: core_same_def)
        with command_finv [where command = command and g = g, OF s4(4) _ s4(1,2) Some nr False s4(5)] live
        show ?thesis by auto
      qed
    qed
  qed
qed

section \<open>Properties\<close>

text \<open>C14. The memory stays a tree. From a prompt at which the nodes form a tree (every node reached
  once, parent pointers right, no two entries of the same type and name in a directory, files without
  entries) and the prompt's directory is in it under the printed path, every line but \<^verbatim>\<open>reload\<close>
  leads to such a prompt again, if it returns and does not remove the prompt's own directory.\<close>

theorem line_keeps_tree:
  assumes "finv s" and "main_step hs line s = Some (s', go)" and "line_command line \<noteq> ''reload''"
    and "line_command line = ''rmdir'' \<Longrightarrow> mem s' (start s) \<noteq> None"
  shows "finv s'"
proof -
  from assms(1) obtain cs ns where f: "fsok s cs" and h: "home_dir s cs ns" by (auto simp: finv_def)
  let ?s = "say (pathname s @ ''$ '') s"
  have p: "say (pathname s @ ''$ '') (s\<lparr>cwd := Some (start s), cwPath := pathname s, dname := [], bname := []\<rparr>)
      = at_prompt ?s" by (cases s) (simp add: say_def at_prompt_def)
  from assms(2) [unfolded main_step_def Let_def p] obtain c path r where c: "scan_two CMD PATH (Some []) (Some []) line = Some (c, path)"
    and r: "runCommand hs c path (at_prompt ?s) = Some (s', r)"
    by (auto simp: bind_eq_Some_conv)
  have core: "core_same s ?s" by (simp add: core_same_def say_def)
  have "fsok ?s cs" "home_dir ?s cs ns" "start ?s = start s"
    using core_fsok [OF core] core_home [OF core] f h by (simp_all add: say_def)
  with run_finv [OF _ _ r] assms(3,4) scan_two_command [OF c] show ?thesis by auto
qed

text \<open>A session used for the examples, and the tree it builds.\<close>

definition sample :: fs where
  "sample = typed [''mkdir a'', ''mkdir a/b'', ''creat a/f'', ''cd a/b'', ''mkdir c'']"

definition sample_tree :: "ftree list" where
  "sample_tree = [Nd 1 ''a'' (CHR ''D'') [Nd 2 ''b'' (CHR ''D'') [Nd 4 ''c'' (CHR ''D'') []], Nd 3 ''f'' (CHR ''F'') []]]"

lemma fsok_exec [code]: "fsok s cs \<longleftrightarrow>
    (case mem s (root s) of None \<Rightarrow> False
     | Some x \<Rightarrow> Parent x = None \<and> Type x = CHR ''D'' \<and> forest_at (mem s) (Some (root s)) (Child x) cs) \<and>
    distinct (root s # addrs cs) \<and> (\<forall>x \<in> set (root s # addrs cs). x < brk s) \<and> tidy cs"
  by (auto simp: fsok_def split: option.splits)

lemma home_dir_exec [code]: "home_dir s cs ns \<longleftrightarrow>
    map_option fst (goto (root s) cs ns) = Some (start s) \<and> pathname s = path_text ns \<and> list_all slashfree ns"
  by (auto simp: home_dir_def)

lemma sample_ok: "fsok sample sample_tree" "home_dir sample sample_tree [''a'', ''b'']"
  by code_simp+

lemma sample_prompt:
  "fsok (at_prompt sample) sample_tree"
  "at_dir (at_prompt sample) sample_tree [''a'', ''b''] 2 [Nd 4 ''c'' (CHR ''D'') []]"
  by code_simp+

theorem line_keeps_tree_witness:
  "finv (fst (the (main_step zero_host ''rmdir /a/b/c'' sample)))"
proof -
  have "main_step zero_host ''rmdir /a/b/c'' sample \<noteq> None" by code_simp
  then obtain s' go where s: "main_step zero_host ''rmdir /a/b/c'' sample = Some (s', go)" by auto
  have c: "line_command ''rmdir /a/b/c'' = ''rmdir''" by code_simp
  have "mem (fst (the (main_step zero_host ''rmdir /a/b/c'' sample))) (start sample) \<noteq> None" by code_simp
  then have "mem s' (start sample) \<noteq> None" using s by simp
  then have "finv s'" by (intro line_keeps_tree [OF finvI [OF sample_ok] s]) (simp_all add: c)
  with s show ?thesis by simp
qed

text \<open>C15. \<^verbatim>\<open>locateDir\<close> finds the directory a path means: it goes from name to name, up at \<^verbatim>\<open>..\<close>
  except at the root, and ends with the directory and its path in \<^verbatim>\<open>cwPath\<close>, or with NULL when a
  component names no directory; it returns when the path fits behind the current one in 64 characters.\<close>

theorem locateDir_resolves:
  assumes "fsok s cs" and "at_dir s cs ns a ks"
    and "length (cwPath s) + sum_list (map (\<lambda>t. length t + 1) (strtok_all ''/'' path)) < PATH"
  shows "\<exists>s'. locateDir path s = Some s' \<and> (case resolve cs ns (strtok_all ''/'' path) of
      None \<Rightarrow> cwd s' = None
    | Some ns' \<Rightarrow> \<exists>a' ks'. at_dir s' cs ns' a' ks')"
proof -
  from locate_tokens_fits [OF assms(1,2) tokens_slashfree assms(3)] obtain s' where
    "locateDir path s = Some s'" by (auto simp: locateDir_def)
  with locateDir_core [OF this assms(1,2)] show ?thesis by (auto split: option.splits)
qed

theorem locateDir_resolves_witness:
  "\<exists>s' a ks. locateDir ''../../a/b/c'' (at_prompt sample) = Some s' \<and>
     at_dir s' sample_tree [''a'', ''b'', ''c''] a ks"
proof -
  have "length (cwPath (at_prompt sample)) + sum_list (map (\<lambda>t. length t + 1) (strtok_all ''/'' ''../../a/b/c'')) < PATH"
    "resolve sample_tree [''a'', ''b''] (strtok_all ''/'' ''../../a/b/c'') = Some [''a'', ''b'', ''c'']" by code_simp+
  from locateDir_resolves [OF sample_prompt this(1)] this(2) show ?thesis by auto
qed

text \<open>C16. \<^verbatim>\<open>mkdir\<close> and \<^verbatim>\<open>creat\<close> with a path, from a prompt in directory \<open>ns\<close>: when the directory part
  means no directory nothing changes; when the directory has an entry of that type and name nothing
  changes; otherwise the tree is the old one with the new entry behind the others of that directory.\<close>

theorem make_entry_on_tree:
  assumes "fsok s cs" and "home_dir s cs ns"
    and "c = ''mkdir'' \<and> T = CHR ''D'' \<or> c = ''creat'' \<and> T = CHR ''F''"
    and "runCommand hs c path (at_prompt s) = Some (s', r)"
  shows "case target cs ns path of
      None \<Rightarrow> r = 0 \<and> core_same s s'
    | Some ns' \<Rightarrow> \<exists>a ks. goto (root s) cs ns' = Some (a, ks) \<and>
        (if child_entry T (b_part (abs_rest path)) ks then r = 0 \<and> core_same s s'
         else r = 1 \<and> kept s s' \<and>
           fsok s' (upd_dir ns' (\<lambda>_. ks @ [leaf (brk s) (b_part (abs_rest path)) T]) cs))"
proof -
  obtain msg where tab: "cmd hs c = Some (\<lambda>n. add_entry T (msg n) n)" "c \<noteq> ''quit''"
    using assms(3) by (auto simp: cmd_cases mkdir_add [abs_def] creat_add [abs_def])
  note rp = run_prompt [where hs = hs and command = c and g = "\<lambda>n. add_entry T (msg n) n",
      OF assms(1,2) tab assms(4)]
  show ?thesis
  proof (cases "target cs ns path")
    case None
    with rp show ?thesis by simp
  next
    case (Some ns')
    with rp obtain s4 a ks where s4: "at_dir s4 cs ns' a ks" "core_same s s4" "fsok s4 cs"
      "add_entry T (msg (b_part (abs_rest path))) (b_part (abs_rest path)) s4 = Some (s', r)" by auto
    have "goto (root s) cs ns' = Some (a, ks)" "brk s4 = brk s" using s4(1,2) by (simp_all add: at_dir_def core_same_def)
    moreover have "core_same s4 s' \<Longrightarrow> core_same s s'" "kept s4 s' \<Longrightarrow> kept s s'"
      using s4(2) by (simp_all add: core_same_def kept_def)
    ultimately show ?thesis using add_entry_cases [OF s4(3,1,4)] Some by (auto split: if_splits)
  qed
qed

theorem make_entry_on_tree_witness:
  "\<exists>s'. runCommand zero_host ''mkdir'' ''../g'' (at_prompt sample) = Some (s', 1) \<and>
     fsok s' [Nd 1 ''a'' (CHR ''D'') [Nd 2 ''b'' (CHR ''D'') [Nd 4 ''c'' (CHR ''D'') []], Nd 3 ''f'' (CHR ''F'') [],
       Nd 5 ''g'' (CHR ''D'') []]]"
proof -
  have "runCommand zero_host ''mkdir'' ''../g'' (at_prompt sample) \<noteq> None" by code_simp
  then obtain s' r where s: "runCommand zero_host ''mkdir'' ''../g'' (at_prompt sample) = Some (s', r)" by auto
  have t: "target sample_tree [''a'', ''b''] ''../g'' = Some [''a'']" "b_part (abs_rest ''../g'') = ''g''"
    "goto (root sample) sample_tree [''a''] =
      Some (1, [Nd 2 ''b'' (CHR ''D'') [Nd 4 ''c'' (CHR ''D'') []], Nd 3 ''f'' (CHR ''F'') []])"
    "\<not> child_entry (CHR ''D'') ''g'' [Nd 2 ''b'' (CHR ''D'') [Nd 4 ''c'' (CHR ''D'') []], Nd 3 ''f'' (CHR ''F'') []]"
    "upd_dir [''a''] (\<lambda>_. [Nd 2 ''b'' (CHR ''D'') [Nd 4 ''c'' (CHR ''D'') []], Nd 3 ''f'' (CHR ''F'') []] @
      [leaf (brk sample) ''g'' (CHR ''D'')]) sample_tree =
      [Nd 1 ''a'' (CHR ''D'') [Nd 2 ''b'' (CHR ''D'') [Nd 4 ''c'' (CHR ''D'') []], Nd 3 ''f'' (CHR ''F'') [],
       Nd 5 ''g'' (CHR ''D'') []]]" by code_simp+
  from make_entry_on_tree [OF sample_ok disjI1 [OF conjI [OF refl refl]] s, unfolded t(1) option.case t(2) t(3)]
  have "r = 1 \<and> fsok s' (upd_dir [''a''] (\<lambda>_. [Nd 2 ''b'' (CHR ''D'') [Nd 4 ''c'' (CHR ''D'') []],
      Nd 3 ''f'' (CHR ''F'') []] @ [leaf (brk sample) ''g'' (CHR ''D'')]) sample_tree)"
    by (elim exE conjE, unfold option.inject prod.inject, elim conjE, hypsubst) (simp only: if_not_P [OF t(4)] simp_thms)
  with s show ?thesis unfolding t(5) by auto
qed

text \<open>C17. \<^verbatim>\<open>rmdir\<close> and \<^verbatim>\<open>rm\<close> with a path: the entry of that type and name disappears from its directory
  and from memory when it exists and, for a directory, is empty; in every other case nothing changes.\<close>

theorem remove_entry_on_tree:
  assumes "fsok s cs" and "home_dir s cs ns"
    and "c = ''rmdir'' \<and> T = CHR ''D'' \<or> c = ''rm'' \<and> T = CHR ''F''"
    and "runCommand hs c path (at_prompt s) = Some (s', r)"
  shows "case target cs ns path of
      None \<Rightarrow> r = 0 \<and> core_same s s'
    | Some ns' \<Rightarrow> \<exists>a ks. goto (root s) cs ns' = Some (a, ks) \<and>
        (if \<exists>t \<in> set ks. is_entry T (b_part (abs_rest path)) t \<and> sub t = []
         then r = 1 \<and> kept s s' \<and> fsok s' (upd_dir ns' (\<lambda>_. drop_entry T (b_part (abs_rest path)) ks) cs)
         else r = 0 \<and> core_same s s')"
proof -
  obtain full msg where tab: "cmd hs c = Some (\<lambda>n. rem_entry T (full n) (msg n) n)" "c \<noteq> ''quit''"
    using assms(3) by (auto simp: cmd_cases rmdir_rem [abs_def] rm_rem [where full = "[]", abs_def])
  note rp = run_prompt [where hs = hs and command = c and g = "\<lambda>n. rem_entry T (full n) (msg n) n",
      OF assms(1,2) tab assms(4)]
  have T: "T = CHR ''D'' \<or> T = CHR ''F''" using assms(3) by auto
  show ?thesis
  proof (cases "target cs ns path")
    case None
    with rp show ?thesis by simp
  next
    case (Some ns')
    with rp obtain s4 a ks where s4: "at_dir s4 cs ns' a ks" "core_same s s4" "fsok s4 cs"
      "rem_entry T (full (b_part (abs_rest path))) (msg (b_part (abs_rest path))) (b_part (abs_rest path)) s4 = Some (s', r)"
      by auto
    have "goto (root s) cs ns' = Some (a, ks)" using s4(1,2) by (simp add: at_dir_def core_same_def)
    moreover have "core_same s4 s' \<Longrightarrow> core_same s s'" "kept s4 s' \<Longrightarrow> kept s s'"
      using s4(2) by (simp_all add: core_same_def kept_def)
    ultimately show ?thesis using rem_entry_cases [OF s4(3,1) T s4(4)] Some by (auto split: if_splits)
  qed
qed

theorem remove_entry_on_tree_witness:
  "\<exists>s'. runCommand zero_host ''rm'' ''/a/f'' (at_prompt sample) = Some (s', 1) \<and>
     fsok s' [Nd 1 ''a'' (CHR ''D'') [Nd 2 ''b'' (CHR ''D'') [Nd 4 ''c'' (CHR ''D'') []]]]"
proof -
  have "runCommand zero_host ''rm'' ''/a/f'' (at_prompt sample) \<noteq> None" by code_simp
  then obtain s' r where s: "runCommand zero_host ''rm'' ''/a/f'' (at_prompt sample) = Some (s', r)" by auto
  let ?ks = "[Nd 2 ''b'' (CHR ''D'') [Nd 4 ''c'' (CHR ''D'') []], Nd 3 ''f'' (CHR ''F'') []]"
  have t: "target sample_tree [''a'', ''b''] ''/a/f'' = Some [''a'']" "b_part (abs_rest ''/a/f'') = ''f''"
    "goto (root sample) sample_tree [''a''] = Some (1, ?ks)"
    "\<exists>t \<in> set ?ks. is_entry (CHR ''F'') ''f'' t \<and> sub t = []"
    "upd_dir [''a''] (\<lambda>_. drop_entry (CHR ''F'') ''f'' ?ks) sample_tree =
      [Nd 1 ''a'' (CHR ''D'') [Nd 2 ''b'' (CHR ''D'') [Nd 4 ''c'' (CHR ''D'') []]]]" by code_simp+
  from remove_entry_on_tree [OF sample_ok disjI2 [OF conjI [OF refl refl]] s, unfolded t(1) option.case t(2) t(3)]
  have "r = 1 \<and> fsok s' (upd_dir [''a''] (\<lambda>_. drop_entry (CHR ''F'') ''f'' ?ks) sample_tree)"
    by (elim exE conjE, unfold option.inject prod.inject, elim conjE, hypsubst) (simp only: if_P [OF t(4)] simp_thms)
  with s show ?thesis unfolding t(5) by auto
qed

text \<open>Entry commands are inverse: in a directory without the name, \<^verbatim>\<open>mkdir\<close> then \<^verbatim>\<open>rmdir\<close>, and
  \<^verbatim>\<open>creat\<close> then \<^verbatim>\<open>rm\<close>, succeed and leave the directory listing as it was.\<close>

theorem make_then_remove:
  assumes "listing s es" and "length n < PATH"
  shows "((CHR ''D'', n) \<in> set es \<or>
      (\<exists>s1 s2. mkdir n s = Some (s1, 1) \<and> rmdir n s1 = Some (s2, 1) \<and> listing s2 es)) \<and>
    ((CHR ''F'', n) \<in> set es \<or>
      (\<exists>s1 s2. creat n s = Some (s1, 1) \<and> rm n s1 = Some (s2, 1) \<and> listing s2 es))"
  using dirs.add_then_rem [OF assms(1) _ assms(2)] files.add_then_rem [OF assms(1) _ assms(2)] by blast

lemma sample_listing: "listing (at_prompt sample) [(CHR ''D'', ''c'')]"
proof -
  have "here (at_prompt sample) 2 [Nd 4 ''c'' (CHR ''D'') []]"
    using sample_prompt by (rule fsok_here)
  then show ?thesis unfolding listing_def
    by (intro exI [of _ 2] exI [of _ "[Nd 4 ''c'' (CHR ''D'') []]"]) (simp add: key_def)
qed

theorem make_then_remove_witness:
  "\<exists>s1 s2. creat ''c'' (at_prompt sample) = Some (s1, 1) \<and> rm ''c'' s1 = Some (s2, 1) \<and>
     listing s2 [(CHR ''D'', ''c'')]"
proof -
  have "length ''c'' < PATH" by (simp add: PATH_def)
  from make_then_remove [OF sample_listing this] show ?thesis by auto
qed

text \<open>C19. \<^verbatim>\<open>cd\<close> with a path moves the prompt to the directory the path means, and the path the prompt
  shows is the path of that directory; a path that means none leaves the prompt alone; no argument, and
  also the argument \<^verbatim>\<open>.\<close>, which \<^verbatim>\<open>dbname\<close> turns into the empty name, goes to the root.\<close>

theorem cd_moves_prompt:
  assumes "fsok s cs" and "home_dir s cs ns" and "runCommand hs ''cd'' path (at_prompt s) = Some (s', r)"
  shows "fsok s' cs \<and> home_dir s' cs
    (case target cs ns path of
       None \<Rightarrow> ns
     | Some ns1 \<Rightarrow> if b_part (abs_rest path) = [] then []
         else (case resolve cs ns1 (strtok_all ''/'' (b_part (abs_rest path))) of None \<Rightarrow> ns | Some ns2 \<Rightarrow> ns2))"
proof -
  have tab: "cmd hs ''cd'' = Some cd" "''cd'' \<noteq> ''quit''" by (simp_all add: cmd_cases)
  note rp = run_prompt [where hs = hs and command = "''cd''" and g = cd, OF assms(1,2) tab assms(3)]
  show ?thesis
  proof (cases "target cs ns path")
    case None
    with rp have c: "core_same s s'" by simp
    with None assms core_fsok [OF c] core_home [OF c] show ?thesis by simp
  next
    case (Some ns1)
    with rp obtain s4 a ks where s4: "at_dir s4 cs ns1 a ks" "bname s4 = b_part (abs_rest path)"
      "core_same s s4" "fsok s4 cs" "cd (b_part (abs_rest path)) s4 = Some (s', r)" by auto
    have "home_dir s4 cs ns" using core_home [OF s4(3)] assms(2) by simp
    from cd_ok [OF s4(4,1,2,5) this] Some show ?thesis by simp
  qed
qed

theorem cd_moves_prompt_witness:
  "\<exists>s' r. runCommand zero_host ''cd'' ''../b/c'' (at_prompt sample) = Some (s', r) \<and>
     home_dir s' sample_tree [''a'', ''b'', ''c'']"
proof -
  have "runCommand zero_host ''cd'' ''../b/c'' (at_prompt sample) \<noteq> None" by code_simp
  then obtain s' r where s: "runCommand zero_host ''cd'' ''../b/c'' (at_prompt sample) = Some (s', r)" by auto
  have t: "target sample_tree [''a'', ''b''] ''../b/c'' = Some [''a'', ''b'']" "b_part (abs_rest ''../b/c'') = ''c''"
    "resolve sample_tree [''a'', ''b''] (strtok_all ''/'' ''c'') = Some [''a'', ''b'', ''c'']" "''c'' \<noteq> []"
    by code_simp+
  from cd_moves_prompt [OF sample_ok s, unfolded t(1) option.case t(2) if_not_P [OF t(4)] t(3)] s
  show ?thesis by blast
qed

text \<open>\<^verbatim>\<open>pwd\<close> climbs the parent pointers and prints the slash-separated path of the current
  directory, \<^verbatim>\<open>/\<close> for the root, when the path is shorter than the array of 64 characters.\<close>

theorem pwd_prints_path:
  assumes "fsok s cs" and "at_dir s cs ns a ks" and "length (pwd_text ns) < PATH"
  shows "pwd n s = Some (say (pwd_text ns @ [newline]) s, 1)"
  by (rule pwd_ok [OF assms])

theorem pwd_prints_path_witness:
  "pwd [] (at_prompt sample) = Some (say (''/a/b'' @ [newline]) (at_prompt sample), 1)"
proof -
  have "length (pwd_text [''a'', ''b'']) < PATH" "pwd_text [''a'', ''b''] = ''/a/b''" by code_simp+
  with pwd_prints_path [OF sample_prompt this(1), of "[]"] show ?thesis by simp
qed

text \<open>The first line of a file, read into a root whose child pointer leads to no node.\<close>

lemma reload_lost:
  assumes "junk_child hs = Some a" and "mem s a = None" and "a \<noteq> brk s"
    and n: "good_name n" "length (full_path [n]) < PATH" and T: "T = CHR ''D'' \<or> T = CHR ''F''"
  shows "reload_lines hs (([T] @ '' '' @ full_path [n]) # lines) (initialize hs s) = None"
proof -
  have g: "list_all good_name ([] @ [n])" using n(1) by simp
  note fp = full_path_parts [OF g, unfolded append_Nil]
  have "T \<notin> set white" using T by (auto simp: white_def)
  from entry_line [OF _ _ this n(2)] n(1)
  have sc: "scan_two 2 PATH None None ([T] @ '' '' @ full_path [n]) = Some ([T], full_path [n])" by simp
  have p: "full_path [n] = CHR ''/'' # n" by (simp add: full_path_def)
  have d: "dirname n = ''.''" "basename n \<noteq> ''.''"
    using parts_single [OF n(1)] good_name_ne [OF n(1)] dirname_ne [of n] by (auto simp: d_part_def b_part_def split: if_splits)
  have st: "strtok_all ''/'' [] = []" by code_simp
  have e: "entry_table (if [T] = ''F'' then ''creat'' else ''mkdir'') = Some (if T = CHR ''F'' then creat else mkdir)"
    by (simp add: entry_table_def)
  have "run_table hs entry_table (if [T] = ''F'' then ''creat'' else ''mkdir'') (full_path [n]) (initialize hs s) = None"
    unfolding run_table_def e using assms(1-3) d good_name_ne [OF n(1)]
    by (auto simp: p Let_def resetToRoot_def initialize_def dbname_def locateDir_def st mkdir_def creat_def scan.simps)
  with sc show ?thesis by simp
qed

text \<open>C18. \<^verbatim>\<open>save\<close> then \<^verbatim>\<open>reload\<close>. \<^verbatim>\<open>initialize\<close> never sets the \<^verbatim>\<open>Child\<close> of the new root: what comes back depends on
  what \<^verbatim>\<open>malloc\<close> left there. When it is NULL, the same tree comes back, at new addresses: same names, types and
  order; the current directory is the new root, but the path the prompt shows is still the old one. When it
  is any other pointer that leads to no node, reading back the first line of a saved tree follows it, and
  only an empty tree reloads. The names must be free of blanks and slashes and none may be \<^verbatim>\<open>.\<close> or \<^verbatim>\<open>..\<close>, and
  every path must fit into the arrays.\<close>

theorem save_then_reload:
  assumes "fsok s cs" and "all_nodes good_entry cs" and "paths_fit [] cs" and "can_create hs name"
  shows "\<exists>s1. save hs name s = Some (s1, 1) \<and> (case junk_child hs of
      None \<Rightarrow> \<exists>s2 cs'. reload hs name s1 = Some (s2, 1) \<and>
        fsok s2 cs' \<and> shape cs' = shape cs \<and> start s2 = root s2 \<and> pathname s2 = pathname s
    | Some a \<Rightarrow> mem s a = None \<and> a \<noteq> brk s \<longrightarrow> (reload hs name s1 = None) = (cs \<noteq> []))"
proof -
  from assms(1) obtain x where x: "mem s (root s) = Some x" "forest_at (mem s) (Some (root s)) (Child x) cs"
    by (auto simp: fsok_def)
  let ?s1 = "s\<lparr>disk := (disk s)(name \<mapsto> tree_lines [] cs)\<rparr>"
  have sv: "save hs name s = Some (?s1, 1)"
    using assms(3,4) x saveTree_ok [OF x(2), of "[]"] by (simp add: save_def)
  let ?i = "initialize hs ?s1"
  have rl: "reload hs name ?s1 = do { s2 \<leftarrow> reload_lines hs (tree_lines [] cs) ?i; Some (s2, 1) }"
    using tree_lines_whole [OF assms(3)] by (simp add: reload_def)
  show ?thesis
  proof (cases "junk_child hs")
    case None
    have f: "fsok ?i []" by (rule initialize_ok [OF None])
    have g: "goto (root ?i) [] [] = Some (root ?i, [])" by simp
    have "distinct (map key ([] @ cs))" using assms(1) by (simp add: fsok_def tidy_def)
    from reload_forest [OF f g _ assms(2) _ this, of hs] assms(3) obtain s2 cs' where
      s2: "\<forall>lines. reload_lines hs (tree_lines (full_path []) cs @ lines) ?i = reload_lines hs lines s2"
        "fsok s2 (upd_dir [] (\<lambda>_. [] @ cs') [])" "shape cs' = shape cs" "kept ?i s2"
      by (auto simp: full_path_def)
    have "reload hs name ?s1 = Some (s2, 1)"
      using s2(1) [rule_format, of "[]"] by (simp add: full_path_def rl)
    moreover have "start s2 = root s2" "pathname s2 = pathname s"
      using s2(4) by (simp_all add: kept_def initialize_def Let_def)
    ultimately show ?thesis using sv s2(2,3) None by auto
  next
    case (Some a)
    have "(reload hs name ?s1 = None) = (cs \<noteq> [])" if a: "mem s a = None" "a \<noteq> brk s"
    proof (cases cs)
      case Nil
      show ?thesis unfolding rl using Nil by simp
    next
      case (Cons t ts)
      have fp: "[ty t] @ '' '' @ [] @ ''/'' @ nm t = [ty t] @ '' '' @ full_path [nm t]" by (simp add: full_path_def)
      have "reload_lines hs (tree_lines [] cs) ?i = None"
        unfolding Cons tree_lines_Cons fp using assms(2,3) a
        by (intro reload_lost [OF Some]) (auto simp: Cons good_entry_def full_path_def)
      then have "reload hs name ?s1 = None" unfolding rl by simp
      moreover have "cs \<noteq> []" using Cons by simp
      ultimately show ?thesis by simp
    qed
    with sv Some show ?thesis by auto
  qed
qed

lemma sample_good: "all_nodes good_entry sample_tree" "paths_fit [] sample_tree"
  by code_simp+

theorem save_then_reload_witness:
  "(\<exists>s1 s2 cs'. save zero_host ''disk'' sample = Some (s1, 1) \<and> reload zero_host ''disk'' s1 = Some (s2, 1) \<and>
     fsok s2 cs' \<and> shape cs' = shape sample_tree \<and> start s2 = root s2 \<and> pathname s2 = ''~/a/b'') \<and>
   (\<exists>s1. save (zero_host\<lparr>junk_child := Some 99\<rparr>) ''disk'' sample = Some (s1, 1) \<and>
     reload (zero_host\<lparr>junk_child := Some 99\<rparr>) ''disk'' s1 = None)"
proof -
  have "can_create zero_host ''disk''" "junk_child zero_host = None" by (simp_all add: zero_host_def)
  moreover have "pathname sample = ''~/a/b''" "mem sample 99 = None" "99 \<noteq> brk sample" "sample_tree \<noteq> []" by code_simp+
  ultimately show ?thesis using save_then_reload [OF sample_ok(1) sample_good, of zero_host "''disk''"]
      save_then_reload [OF sample_ok(1) sample_good, of "zero_host\<lparr>junk_child := Some 99\<rparr>" "''disk''"] by auto
qed

text \<open>With its directory freed, the prompt cannot take a single step along a path, or read that directory.\<close>

lemma main_step_prompt:
  "main_step hs line s = do {
     (command, path) \<leftarrow> scan_two CMD PATH (Some []) (Some []) line;
     (s2, r) \<leftarrow> runCommand hs command path (at_prompt (say (pathname s @ ''$ '') s));
     Some (s2, r \<noteq> -1)
   }"
proof -
  have "say (pathname s @ ''$ '') (s\<lparr>cwd := Some (start s), cwPath := pathname s, dname := [], bname := []\<rparr>)
      = at_prompt (say (pathname s @ ''$ '') s)" by (cases s) (simp add: say_def at_prompt_def)
  then show ?thesis by (simp add: main_step_def Let_def)
qed

lemma split_words_none: "split_words D w t = [] \<longleftrightarrow> w = [] \<and> set t \<subseteq> set D"
  by (induction t arbitrary: w) auto

lemma strtok_none: "strtok_all ''/'' t = [] \<longleftrightarrow> set t \<subseteq> {CHR ''/''}"
  by (simp add: strtok_all_def split_words_none)

lemma locateDir_freed:
  assumes "cwd s = Some a" and "mem s a = None"
  shows "locateDir p s = (if strtok_all ''/'' p = [] then Some s else None)"
  using assms by (cases "strtok_all ''/'' p") (auto simp: locateDir_def locate_step_def traverseDir_def)

lemma strip_slashes_Cons: "c \<noteq> CHR ''/'' \<Longrightarrow> strip_slashes (c # t) = c # strip_slashes t"
  by (auto simp: strip_slashes_def dropWhile_append)

lemma relative_parts:
  assumes "\<not> absolute p"
  shows "d_part p \<noteq> [] \<Longrightarrow> strtok_all ''/'' (d_part p) \<noteq> []"
    and "b_part p \<noteq> [] \<Longrightarrow> strtok_all ''/'' (b_part p) \<noteq> []"
proof -
  show "strtok_all ''/'' (d_part p) \<noteq> []" if d: "d_part p \<noteq> []"
  proof -
    from d assms obtain c q where p: "p = c # q" "c \<noteq> CHR ''/''" by (cases p) (auto simp: d_part_def absolute_def)
    let ?v = "rev (dropWhile (\<lambda>c. c \<noteq> CHR ''/'') (rev (c # strip_slashes q)))"
    from d p have "?v \<noteq> []" and "dirname p = (if strip_slashes ?v = [] then ''/'' else strip_slashes ?v)"
      by (auto simp: d_part_def dirname_def Let_def strip_slashes_Cons split: if_splits)
    moreover have "\<exists>w. ?v = c # w" if "?v \<noteq> []" using that p(2)
      by (auto simp: dropWhile_append split: if_splits) (metis rev_rev_ident)
    ultimately have "c \<in> set (dirname p)" using p(2) by (auto simp: strip_slashes_Cons)
    with d p(2) show ?thesis by (auto simp: strtok_none d_part_def split: if_splits)
  qed
  show "strtok_all ''/'' (b_part p) \<noteq> []" if b: "b_part p \<noteq> []"
  proof -
    from b assms obtain c q where p: "p = c # q" "c \<noteq> CHR ''/''" by (cases p) (auto simp: b_part_def absolute_def)
    let ?r = "dropWhile (\<lambda>c. c = CHR ''/'') (rev p)"
    have u: "strip_slashes p \<noteq> []" "?r \<noteq> []" using p strip_slashes_Cons [OF p(2), of q] by (auto simp: strip_slashes_def)
    have "hd ?r \<noteq> CHR ''/''" using hd_dropWhile [OF u(2)] by simp
    moreover have bp: "b_part p = rev (takeWhile (\<lambda>c. c \<noteq> CHR ''/'') ?r)"
      using b u p by (auto simp: b_part_def basename_def strip_slashes_def split: if_splits)
    ultimately have "hd ?r \<in> set (b_part p)" using u(2) by (cases ?r) auto
    with \<open>hd ?r \<noteq> CHR ''/''\<close> show ?thesis by (auto simp: strtok_none)
  qed
qed

text \<open>The relative paths and commands that read the directory of the prompt.\<close>

definition reads_prompt :: "string \<Rightarrow> string \<Rightarrow> bool" where
  "reads_prompt c p \<longleftrightarrow> \<not> absolute p \<and>
     (c \<in> {''mkdir'', ''rmdir'', ''ls'', ''pwd'', ''creat'', ''rm''} \<or>
      c = ''cd'' \<and> (d_part p \<noteq> [] \<or> b_part p \<noteq> []) \<or>
      c \<in> {''save'', ''reload'', ''menu''} \<and> d_part p \<noteq> [])"

lemma run_relative:
  assumes "\<not> absolute p" and "c \<noteq> ''quit''" and "tab c = Some f"
  shows "run_table hs tab c p s =
    (if PATH \<le> length (if p \<noteq> [] then dbname_path p else p) then None
     else do {
       s3 \<leftarrow> locateDir (dname (prepared p s)) (prepared p s);
       let s4 = s3\<lparr>dname := strtok_cut (dname s3)\<rparr>;
       (case cwd s4 of
          None \<Rightarrow> Some (say (''bash: '' @ c @ '': '' @ (if p \<noteq> [] then dbname_path p else p) @
            '': No such file or directory'' @ [newline]) s4, 0)
        | Some a \<Rightarrow> f (bname s4) s4)
     })"
  using assms by (cases p) (simp_all add: run_table_def prepared_def absolute_def abs_rest_def Let_def cong: option.case_cong)

lemma freed_line:
  assumes m: "mem s (start s) = None" and c: "scan_two CMD PATH (Some []) (Some []) line = Some (c, p)"
    and r: "reads_prompt c p"
  shows "main_step hs line s = None"
proof -
  let ?s = "at_prompt (say (pathname s @ ''$ '') s)"
  have abs: "\<not> absolute p" using r by (simp add: reads_prompt_def)
  have rest: "abs_rest p = p" "prepared p ?s = (if p \<noteq> [] then dbname p ?s else ?s)"
    using abs by (simp_all add: abs_rest_def prepared_def)
  have d: "dname (prepared p ?s) = d_part p" "bname (prepared p ?s) = b_part p"
    using prepared_names [of p ?s] by (simp_all add: rest(1) at_prompt_def)
  have w: "cwd (prepared p ?s) = Some (start s)" "mem (prepared p ?s) = mem s" "start s = start (prepared p ?s)"
    unfolding rest(2) by (simp_all add: dbname_def Let_def at_prompt_def say_def)
  let ?t = "(prepared p ?s)\<lparr>dname := strtok_cut (dname (prepared p ?s))\<rparr>"
  obtain f where f: "cmd hs c = Some f" and q: "c \<noteq> ''quit''" using r by (auto simp: reads_prompt_def cmd_cases)
  have run: "runCommand hs c p ?s = None \<or>
      strtok_all ''/'' (d_part p) = [] \<and> runCommand hs c p ?s = f (b_part p) ?t"
    using locateDir_freed [OF w(1), of "d_part p"] d w m
    by (simp add: runCommand_def run_relative [where tab = "cmd hs", OF abs q f])
  have l: "locateDir n ?t = (if strtok_all ''/'' n = [] then Some ?t else None)" for n
    using m w by (intro locateDir_freed [of _ "start s"]) simp_all
  have g: "getPath (mem s) k (start s) = None" for k using m by (simp add: getPath.simps [of "mem s"])
  have "f (b_part p) ?t = None" if e: "strtok_all ''/'' (d_part p) = []"
  proof -
    have "d_part p = []" using e relative_parts(1) [OF abs] by blast
    with r f m w d l relative_parts(2) [OF abs] g show ?thesis
      by (auto simp: reads_prompt_def cmd_cases mkdir_def rmdir_def creat_def rm_def ls_def pwd_def cd_def)
  qed
  with run have "runCommand hs c p ?s = None" by auto
  with c show ?thesis by (simp add: main_step_prompt)
qed

lemma rmdir_home:
  assumes f: "fsok s cs" and h: "home_dir s cs (ns @ [n])" and e: "goto (root s) cs (ns @ [n]) = Some (start s, [])"
    and t: "target cs (ns @ [n]) path = Some ns" "b_part (abs_rest path) = n"
    and run: "runCommand hs ''rmdir'' path (at_prompt s) = Some (s', r)"
  shows "r = 1 \<and> start s' = start s \<and> pathname s' = pathname s \<and> mem s' (start s') = None"
proof -
  have tab: "cmd hs ''rmdir'' = Some rmdir" "''rmdir'' \<noteq> ''quit''" by (simp_all add: cmd_cases)
  from run_prompt [OF f h tab run] t obtain s4 a ks where s4: "at_dir s4 cs ns a ks"
    "core_same s s4" "fsok s4 cs" "rmdir n s4 = Some (s', r)" by auto
  have "goto (root s) cs ns = Some (a, ks)" using s4(1,2) by (simp add: at_dir_def core_same_def)
  from goto_snoc [OF this, of n] e have "map_option (\<lambda>u. (adr u, sub u)) (List.find (is_entry (CHR ''D'') n) ks) = Some (start s, [])"
    by simp
  then obtain u where
    u: "List.find (is_entry (CHR ''D'') n) ks = Some u" "adr u = start s" "sub u = []"
    by (cases "List.find (is_entry (CHR ''D'') n) ks") auto
  then have "u \<in> set ks" "is_entry (CHR ''D'') n u" by (auto dest: find_split)
  moreover obtain full msg where rd: "rmdir n = rem_entry (CHR ''D'') full msg n" using rmdir_rem by blast
  ultimately obtain h where "rmdir n s4 = Some (s4\<lparr>mem := h\<rparr>, 1)" "h (adr u) = None"
    using rem_tree [OF s4(3,1), where full = full and msg = msg] u(3) unfolding rd by blast
  with s4(4) u(2) obtain m where "s' = s4\<lparr>mem := m\<rparr>" "r = 1" "m (start s) = None" by auto
  with s4(2) show ?thesis by (simp add: core_same_def)
qed

text \<open>C21. \<^verbatim>\<open>rmdir\<close> does not protect the directory the prompt is in. When a line, by whatever path, removes
  it, the prompt goes on standing there, with the same path, and what is freed is the node it starts from.
  The next line that reads it dereferences freed memory: every \<^verbatim>\<open>mkdir\<close>, \<^verbatim>\<open>rmdir\<close>, \<^verbatim>\<open>ls\<close>, \<^verbatim>\<open>pwd\<close>, \<^verbatim>\<open>creat\<close>
  or \<^verbatim>\<open>rm\<close> whose path does not begin with a slash, every \<^verbatim>\<open>cd\<close> with such a path other than \<^verbatim>\<open>.\<close>, and any other
  command with a directory in front of its argument. Only absolute paths, \<^verbatim>\<open>cd\<close> alone, \<^verbatim>\<open>quit\<close>, unknown
  commands and \<^verbatim>\<open>menu\<close>, \<^verbatim>\<open>save\<close> and \<^verbatim>\<open>reload\<close> of a plain name do not.\<close>

theorem freed_prompt_is_fatal:
  assumes "fsok s cs" and "home_dir s cs (ns @ [n])" and "goto (root s) cs (ns @ [n]) = Some (start s, [])"
    and "scan_two CMD PATH (Some []) (Some []) line = Some (''rmdir'', path)"
    and "target cs (ns @ [n]) path = Some ns" and "b_part (abs_rest path) = n"
    and "main_step hs line s = Some (s', go)"
    and "scan_two CMD PATH (Some []) (Some []) line' = Some (c, p)" and "reads_prompt c p"
  shows "go \<and> mem s' (start s') = None \<and> pathname s' = pathname s \<and> main_step hs line' s' = None"
proof -
  let ?s = "say (pathname s @ ''$ '') s"
  from assms(4,7) obtain r where r: "runCommand hs ''rmdir'' path (at_prompt ?s) = Some (s', r)" "go \<longleftrightarrow> r \<noteq> -1"
    by (auto simp: main_step_prompt bind_eq_Some_conv)
  have core: "core_same s ?s" by (simp add: core_same_def say_def)
  have "fsok ?s cs" "home_dir ?s cs (ns @ [n])" "goto (root ?s) cs (ns @ [n]) = Some (start ?s, [])"
    using core_fsok [OF core] core_home [OF core] assms(1-3) by (simp_all add: say_def)
  have "start s = start ?s" "pathname ?s = pathname s" by (simp_all add: say_def)
  with rmdir_home [OF \<open>fsok ?s cs\<close> \<open>home_dir ?s cs _\<close> \<open>goto (root ?s) cs _ = _\<close> assms(5,6) r(1)] r(2)
    freed_line [OF _ assms(8,9), of s' hs] show ?thesis by auto
qed

theorem freed_prompt_is_fatal_witness:
  "\<exists>s'. main_step zero_host ''rmdir ../c'' (typed [''mkdir a'', ''mkdir a/c'', ''cd a/c'']) = Some (s', True) \<and>
     pathname s' = ''~/a/c'' \<and> main_step zero_host ''cd ..'' s' = None"
proof -
  let ?s = "typed [''mkdir a'', ''mkdir a/c'', ''cd a/c'']"
  let ?cs = "[Nd 1 ''a'' (CHR ''D'') [Nd 2 ''c'' (CHR ''D'') []]]"
  have "main_step zero_host ''rmdir ../c'' ?s \<noteq> None" "pathname ?s = ''~/a/c''" by code_simp+
  then obtain s' go where s: "main_step zero_host ''rmdir ../c'' ?s = Some (s', go)" by auto
  have h: "fsok ?s ?cs" "home_dir ?s ?cs ([''a''] @ [''c''])" "goto (root ?s) ?cs ([''a''] @ [''c'']) = Some (start ?s, [])"
    "scan_two CMD PATH (Some []) (Some []) ''rmdir ../c'' = Some (''rmdir'', ''../c'')"
    "target ?cs ([''a''] @ [''c'']) ''../c'' = Some [''a'']" "b_part (abs_rest ''../c'') = ''c''"
    "scan_two CMD PATH (Some []) (Some []) ''cd ..'' = Some (''cd'', ''..'')" "reads_prompt ''cd'' ''..''" by code_simp+
  from freed_prompt_is_fatal [OF h(1-6) s h(7,8)] s \<open>pathname ?s = _\<close> show ?thesis by auto
qed

section \<open>The terminal\<close>

lemma session_run: "session hs lines s = map_option (case_sum id id) (run_lines (turn_fs hs) lines s)"
  by (induction lines arbitrary: s) (auto simp: turn_fs_def split: option.splits)

text \<open>C20. The program on what is typed: lines of up to 126 characters run as they were typed, and
  \<^verbatim>\<open>main\<close> returns, with what the session leaves, exactly when one of them quits; at the end of the input it
  writes in front of its line. A longer line runs as two commands, its first 126 characters and those
  behind the 127th, which is lost.\<close>

theorem typed_lines_run:
  assumes "\<forall>l \<in> set lines. plain l \<and> length l < 127" and "plain l" and "127 \<le> length l"
  shows "main_fs hs (typing lines) = (case run_lines (turn_fs hs) lines (begin_fs hs) of
      Some (Inl s) \<Rightarrow> session hs lines (begin_fs hs) | _ \<Rightarrow> None)
    \<and> main_fs hs (typing (lines @ [l]) @ rest) = main_fs hs (typing (lines @ [take 126 l, drop 127 l]) @ rest)"
proof
  have n: "\<forall>l \<in> set lines. plain l \<and> length l + 1 < LINE_TREE" using assms(1) by (auto simp: LINE_TREE_def)
  note run = read_loop_lines [OF n, of "turn_fs hs"]
  show "main_fs hs (typing lines) = (case run_lines (turn_fs hs) lines (begin_fs hs) of
      Some (Inl s) \<Rightarrow> session hs lines (begin_fs hs) | _ \<Rightarrow> None)"
    using run [of "[]"] by (auto simp: main_fs_def begin_fs_def session_run split: option.split sum.split)
  have "read_loop LINE_TREE (turn_fs hs) (l @ newline # rest) s
      = read_loop LINE_TREE (turn_fs hs) (take 126 l @ newline # drop 127 l @ newline # rest) s" for s
    using read_loop_cut [of l LINE_TREE "turn_fs hs" rest s] assms(2,3) by (simp add: LINE_TREE_def)
  then show "main_fs hs (typing (lines @ [l]) @ rest) = main_fs hs (typing (lines @ [take 126 l, drop 127 l]) @ rest)"
    using run [of "l @ newline # rest"] run [of "take 126 l @ newline # drop 127 l @ newline # rest"]
    by (simp add: main_fs_def split: option.split sum.split)
qed

theorem typed_lines_run_witness:
  "(\<exists>s. main_fs zero_host (typing [''mkdir a'', ''quit'']) = Some s \<and> disk s ''quit.txt'' = Some [''D /a''])
   \<and> main_fs zero_host (typing [''mkdir a'', replicate 200 (CHR ''x'')])
     = main_fs zero_host (typing [''mkdir a'', replicate 126 (CHR ''x''), replicate 73 (CHR ''x'')])"
proof -
  have "case run_lines (turn_fs zero_host) [''mkdir a'', ''quit''] (begin_fs zero_host) of
      Some (Inl s) \<Rightarrow> disk s ''quit.txt'' = Some [''D /a''] | _ \<Rightarrow> False"
    by code_simp
  then have "\<exists>s. run_lines (turn_fs zero_host) [''mkdir a'', ''quit''] (begin_fs zero_host) = Some (Inl s)
      \<and> session zero_host [''mkdir a'', ''quit''] (begin_fs zero_host) = Some s \<and> disk s ''quit.txt'' = Some [''D /a'']"
    unfolding session_run by (auto split: option.splits sum.splits)
  moreover note typed_lines_run [of "[''mkdir a'', ''quit'']" "replicate 200 (CHR ''x'')" zero_host "[]"]
    typed_lines_run [of "[''mkdir a'']" "replicate 200 (CHR ''x'')" zero_host "[]"]
  ultimately show ?thesis by (auto simp: plain_def)
qed

end
