(* ===== verification/Words.thy ===== *)
theory Words
  imports Main "HOL-Library.Word"
begin

unbundle bit_operations_syntax

text \<open>
  The machine integers of the programs, and the words a program reads from and writes to a buffer
  of bytes.
\<close>

type_synonym u8 = "8 word"
type_synonym u32 = "32 word"

text \<open>The \<^verbatim>\<open>u32\<close> at an offset of the buffer, least significant byte first, and the store of one.\<close>

definition load_u32 :: "u8 list \<Rightarrow> nat \<Rightarrow> u32" where
  "load_u32 b i = (ucast (b ! i)) OR push_bit 8 (ucast (b ! (i + 1)))
     OR push_bit 16 (ucast (b ! (i + 2))) OR push_bit 24 (ucast (b ! (i + 3)))"

definition store_u32 :: "nat \<Rightarrow> u32 \<Rightarrow> u8 list \<Rightarrow> u8 list" where
  "store_u32 i w b = b[i := ucast w, i + 1 := ucast (drop_bit 8 w),
     i + 2 := ucast (drop_bit 16 w), i + 3 := ucast (drop_bit 24 w)]"

lemma join_bytes:
  fixes w :: u32
  shows "ucast (ucast w :: u8) OR push_bit 8 (ucast (ucast (drop_bit 8 w) :: u8))
    OR push_bit 16 (ucast (ucast (drop_bit 16 w) :: u8)) OR push_bit 24 (ucast (ucast (drop_bit 24 w) :: u8)) = w"
    (is "?l = w")
proof (rule bit_word_eqI)
  fix n assume "n < LENGTH(32)"
  then consider "n < 8" | k where "n = 8 + k" "k < 8" | k where "n = 16 + k" "k < 8"
    | k where "n = 24 + k" "k < 8"
    using le_Suc_ex [of 8 n] le_Suc_ex [of 16 n] le_Suc_ex [of 24 n] by fastforce
  then show "bit ?l n = bit w n"
    by cases (simp_all add: bit_simps)
qed

lemma nth_update_chain:
  assumes "i + 3 < length b"
  shows "store_u32 i w b ! i = ucast w" "store_u32 i w b ! (i + 1) = ucast (drop_bit 8 w)"
    "store_u32 i w b ! (i + 2) = ucast (drop_bit 16 w)" "store_u32 i w b ! (i + 3) = ucast (drop_bit 24 w)"
  using assms by (simp_all add: store_u32_def nth_list_update)

lemma load_store: "i + 3 < length b \<Longrightarrow> load_u32 (store_u32 i w b) i = w"
  by (simp only: load_u32_def nth_update_chain join_bytes)

lemma length_store [simp]: "length (store_u32 i w b) = length b"
  by (simp add: store_u32_def)

lemma nth_store: "j < i \<or> i + 3 < j \<Longrightarrow> store_u32 i w b ! j = b ! j"
  by (auto simp: store_u32_def)

end
