(* ===== verification/MyPrintf.thy ===== *)
theory MyPrintf
  imports Text Words
begin

text \<open>
  \<^verbatim>\<open>Lab1/myprintf.c\<close>: a \<^verbatim>\<open>printf\<close> made of \<^verbatim>\<open>putchar\<close>. What a function prints is the string it
  yields, beside the number it returns. \<open>None\<close> is a call the C standard gives no meaning: reading
  an argument that was not passed or has the other type, dividing by zero, negating the least
  integer; or a recursion that never ends.
\<close>

text \<open>The arguments behind the dots: a \<^verbatim>\<open>char *\<close> or an \<^verbatim>\<open>int\<close> or \<^verbatim>\<open>unsigned\<close>, which share their bits.\<close>

datatype arg = Str string | Num u32

section \<open>The program\<close>

text \<open>\<^verbatim>\<open>s[i]\<close>, the terminating zero included.\<close>

definition char_at :: "string \<Rightarrow> nat \<Rightarrow> char" where
  "char_at s i = (if i < length s then s ! i else CHR 0x00)"

definition ctable :: string where
  "ctable = ''0123456789ABCDEF''"

definition ctable_at :: "u32 \<Rightarrow> char option" where
  "ctable_at k = (if unat k \<le> length ctable then Some (char_at ctable (unat k)) else None)"

definition putchar :: "u32 \<Rightarrow> string \<times> int" where
  "putchar c = ([char_of (unat c)], int (unat c mod 256))"

partial_function (option) rpu :: "u32 \<Rightarrow> u32 \<Rightarrow> (string \<times> int) option" where
  "rpu x base =
     (if x \<noteq> 0 then
        if base = 0 then None
        else do {
          c \<leftarrow> ctable_at (x mod base);
          (out, characters) \<leftarrow> rpu (x div base) base;
          Some (out @ [c], 1 + characters)
        }
      else Some ([], 0))"

declare rpu.simps [code]

fun prints :: "string \<Rightarrow> string \<times> int" where
  "prints [] = ([], 0)"
| "prints (c # cs) =
     (if c = CHR 0x00 then ([], 0) else let (out, n) = prints cs in (c # out, 1 + n))"

definition O_BASE :: u32 where "O_BASE = 8"
definition U_BASE :: u32 where "U_BASE = 10"
definition H_BASE :: u32 where "H_BASE = 16"

definition printu :: "u32 \<Rightarrow> (string \<times> int) option" where
  "printu x = (if x = 0 then Some (putchar 48) else rpu x U_BASE)"

definition printd :: "u32 \<Rightarrow> (string \<times> int) option" where
  "printd x =
     (if x <s 0 then
        if x = 0x80000000 then None
        else do { (out, n) \<leftarrow> rpu (- x) U_BASE; Some (CHR 0x2D # out, n) }
      else rpu x U_BASE)"

text \<open>\<^verbatim>\<open>puts\<close> ends the line; the C library promises only that it returns no negative number, taken as 0.\<close>

definition printx :: "u32 \<Rightarrow> (string \<times> int) option" where
  "printx x = (if x = 0 then Some (''0x'' @ [newline], 0) else rpu x H_BASE)"

definition printo :: "u32 \<Rightarrow> (string \<times> int) option" where
  "printo x = (if x = 0 then Some (putchar 48) else rpu x O_BASE)"

text \<open>\<^verbatim>\<open>va_arg\<close> at the two types the program asks for.\<close>

fun va_str :: "arg list \<Rightarrow> (string \<times> arg list) option" where
  "va_str (Str s # ap) = Some (s, ap)"
| "va_str _ = None"

fun va_num :: "arg list \<Rightarrow> (u32 \<times> arg list) option" where
  "va_num (Num x # ap) = Some (x, ap)"
| "va_num _ = None"

text \<open>The switch on the conversion character.\<close>

definition convert :: "char \<Rightarrow> arg list \<Rightarrow> (string \<times> arg list) option" where
  "convert type ap =
     (if type = CHR ''s'' then do { (s, ap') \<leftarrow> va_str ap; Some (fst (prints s), ap') }
      else if type = CHR ''u'' then do { (x, ap') \<leftarrow> va_num ap; (out, n) \<leftarrow> printu x; Some (out, ap') }
      else if type = CHR ''d'' then do { (x, ap') \<leftarrow> va_num ap; (out, n) \<leftarrow> printd x; Some (out, ap') }
      else if type = CHR ''o'' then do { (x, ap') \<leftarrow> va_num ap; (out, n) \<leftarrow> printo x; Some (out, ap') }
      else if type = CHR ''x'' then do { (x, ap') \<leftarrow> va_num ap; (out, n) \<leftarrow> printx x; Some (out, ap') }
      else do { (x, ap') \<leftarrow> va_num ap; Some (fst (putchar x), ap') })"

function format_loop :: "string \<Rightarrow> nat \<Rightarrow> arg list \<Rightarrow> (string \<times> nat) option" where
  "format_loop fmt i ap =
     (if char_at fmt i = CHR 0x00 then Some ([], i)
      else if char_at fmt i = CHR ''%'' \<and> char_at fmt (i + 1) \<noteq> CHR 0x00 then do {
        (out, ap') \<leftarrow> convert (char_at fmt (i + 1)) ap;
        (rest, n) \<leftarrow> format_loop fmt (i + 2) ap';
        Some (out @ rest, n)
      }
      else do {
        (rest, n) \<leftarrow> format_loop fmt (i + 1) ap;
        Some (char_at fmt i # rest, n)
      })"
  by pat_completeness auto
termination
  by (relation "measure (\<lambda>(fmt, i, ap). length fmt - i)") (auto simp: char_at_def split: if_splits)

declare format_loop.simps [simp del]

definition myprintf :: "string \<Rightarrow> arg list \<Rightarrow> (string \<times> nat) option" where
  "myprintf fmt ap = format_loop fmt 0 ap"

text \<open>The loop over the arguments; \<open>i + 1\<close> and \<open>argc\<close> are \<^verbatim>\<open>int\<close>s.\<close>

fun argv_loop :: "nat \<Rightarrow> string list \<Rightarrow> string option" where
  "argv_loop i [] = Some []"
| "argv_loop i (a # as) = do {
     (out, n) \<leftarrow> myprintf (''argv[%d] = %s'' @ [newline]) [Num (of_nat (i + 1)), Str a];
     rest \<leftarrow> argv_loop (i + 1) as;
     Some (out @ rest)
   }"

definition createPrintStatement :: "string list \<Rightarrow> string option" where
  "createPrintStatement argv = do {
     (out, n) \<leftarrow> myprintf ([newline] @ ''***** Print argc and argv[] *****'' @ [newline] @ ''argc = %d'' @ [newline])
                  [Num (of_nat (length argv))];
     rest \<leftarrow> argv_loop 0 argv;
     Some (out @ rest)
   }"

definition test_format :: string where
  "test_format = ''cha=%c string=%s      dec=%d hex=%x oct=%o neg=%d'' @ [newline]"

definition main_out :: "string list \<Rightarrow> string option" where
  "main_out argv = do {
     (out, n) \<leftarrow> myprintf test_format [Num 65, Str ''this is a test'', Num 100, Num 100, Num 100, Num (- 100)];
     rest \<leftarrow> createPrintStatement argv;
     Some (''***** Test Input *****'' @ [newline] @ out @ rest)
   }"

end
