(* ===== verification/MyPrintfProps.thy ===== *)
theory MyPrintfProps
  imports MyPrintf
begin

text \<open>
  What \<^verbatim>\<open>Lab1/myprintf.c\<close> prints: the numerals of a base as a locale, interpreted at the three bases
  of the program; the format string as a list of items, which the loop renders one by one.
\<close>

section \<open>Numerals\<close>

definition digit_value :: "char \<Rightarrow> nat" where
  "digit_value c = length (takeWhile (\<lambda>d. d \<noteq> c) ctable)"

fun read_numeral :: "nat \<Rightarrow> nat \<Rightarrow> string \<Rightarrow> nat" where
  "read_numeral b v [] = v"
| "read_numeral b v (c # cs) = read_numeral b (b * v + digit_value c) cs"

definition numeral_ok :: "nat \<Rightarrow> string \<Rightarrow> bool" where
  "numeral_ok b s \<longleftrightarrow> s \<noteq> [] \<and> set s \<subseteq> set (take b ctable) \<and> (hd s = CHR ''0'' \<longrightarrow> s = ''0'')"

function digits :: "nat \<Rightarrow> nat \<Rightarrow> string" where
  "digits b n = (if n = 0 \<or> b < 2 then [] else digits b (n div b) @ [ctable ! (n mod b)])"
  by pat_completeness auto
termination
  by (relation "measure snd") auto

declare digits.simps [simp del]

lemma digits_0 [simp]: "digits b 0 = []"
  by (subst digits.simps) simp

lemma read_numeral_append [simp]: "read_numeral b v (s @ t) = read_numeral b (read_numeral b v s) t"
  by (induction s arbitrary: v) auto

lemma length_ctable [simp]: "length ctable = 16"
  by (simp add: ctable_def)

lemma ctable_nth_value: "k < 16 \<Longrightarrow> digit_value (ctable ! k) = k"
proof -
  have "\<forall>k \<in> set [0..<16]. digit_value (ctable ! k) = k" by code_simp
  then show "k < 16 \<Longrightarrow> digit_value (ctable ! k) = k" by auto
qed

lemma ctable_nth_0: "k < 16 \<Longrightarrow> ctable ! k = CHR ''0'' \<longleftrightarrow> k = 0"
proof -
  have "\<forall>k \<in> set [0..<16]. (ctable ! k = CHR ''0'') = (k = 0)" by code_simp
  then show "k < 16 \<Longrightarrow> ctable ! k = CHR ''0'' \<longleftrightarrow> k = 0" by auto
qed

lemma ctable_at_nth: "unat k < 16 \<Longrightarrow> ctable_at k = Some (ctable ! unat k)"
  by (simp add: ctable_at_def char_at_def)

locale number_base =
  fixes b :: nat
  assumes base_ge: "2 \<le> b" and base_le: "b \<le> 16"
begin

lemma digits_step: "n \<noteq> 0 \<Longrightarrow> digits b n = digits b (n div b) @ [ctable ! (n mod b)]"
  using base_ge by (subst digits.simps) simp

lemma rem_lt: "n mod b < 16" "n mod b < b"
proof -
  show "n mod b < b" using base_ge by simp
  with base_le show "n mod b < 16" by simp
qed

lemma unat_base: "unat (of_nat b :: u32) = b"
  using base_le by (simp add: unat_of_nat)

lemma rpu_digits: "rpu x (of_nat b) = Some (digits b (unat x), int (length (digits b (unat x))))"
proof (induction "unat x" arbitrary: x rule: less_induct)
  case less
  show ?case
  proof (cases "x = 0")
    case False
    then have pos: "unat x \<noteq> 0" by (simp add: unat_eq_0)
    have u: "unat (x div of_nat b) = unat x div b" "unat (x mod of_nat b) = unat x mod b"
      by (simp_all add: unat_div unat_mod unat_base)
    have nz: "(of_nat b :: u32) \<noteq> 0" using unat_base base_ge by force
    have "unat x div b < unat x" using pos base_ge by simp
    with less.hyps u(1) have "rpu (x div of_nat b) (of_nat b)
      = Some (digits b (unat x div b), int (length (digits b (unat x div b))))" by metis
    with False nz u show ?thesis
      by (subst rpu.simps) (simp add: ctable_at_nth rem_lt digits_step [OF pos])
  qed (simp add: rpu.simps)
qed

lemma read_digits: "read_numeral b 0 (digits b n) = n"
proof (induction n rule: less_induct)
  case (less n)
  show ?case
  proof (cases "n = 0")
    case False
    then have "n div b < n" using base_ge by simp
    from less.IH [OF this] False show ?thesis
      by (simp add: digits_step ctable_nth_value rem_lt)
  qed simp
qed

lemma digits_set: "set (digits b n) \<subseteq> set (take b ctable)"
proof (induction n rule: less_induct)
  case (less n)
  show ?case
  proof (cases "n = 0")
    case False
    then have "n div b < n" using base_ge by simp
    from less.IH [OF this] False show ?thesis
      using rem_lt [of n] base_le by (auto simp: digits_step in_set_conv_nth intro!: exI [of _ "n mod b"])
  qed simp
qed

lemma digits_hd: "n \<noteq> 0 \<Longrightarrow> digits b n \<noteq> [] \<and> hd (digits b n) \<noteq> CHR ''0''"
proof (induction n rule: less_induct)
  case (less n)
  then have lt: "n div b < n" using base_ge by simp
  show ?case
  proof (cases "n div b = 0")
    case True
    then have "n mod b = n" using base_ge by (simp add: div_eq_0_iff)
    with rem_lt(1) [of n] True less.prems show ?thesis by (simp add: digits_step ctable_nth_0)
  next
    case False
    from less.IH [OF lt False] less.prems show ?thesis by (simp add: digits_step)
  qed
qed

lemma numeral_ok_digits: "n \<noteq> 0 \<Longrightarrow> numeral_ok b (digits b n)"
  using digits_hd [of n] digits_set [of n] by (auto simp: numeral_ok_def)

lemma rpu_prints:
  assumes "x \<noteq> 0"
  obtains s where "rpu x (of_nat b) = Some (s, int (length s))" and "numeral_ok b s"
    and "read_numeral b 0 s = unat x"
  using assms rpu_digits [of x] numeral_ok_digits [of "unat x"] read_digits [of "unat x"]
  by (auto simp: unat_eq_0)

end

interpretation oct: number_base 8 by unfold_locales auto
interpretation dec: number_base 10 by unfold_locales auto
interpretation hex: number_base 16 by unfold_locales auto

lemma rpu_bases:
  "rpu x O_BASE = Some (digits 8 (unat x), int (length (digits 8 (unat x))))"
  "rpu x U_BASE = Some (digits 10 (unat x), int (length (digits 10 (unat x))))"
  "rpu x H_BASE = Some (digits 16 (unat x), int (length (digits 16 (unat x))))"
  using oct.rpu_digits [of x] dec.rpu_digits [of x] hex.rpu_digits [of x]
  by (simp_all add: O_BASE_def U_BASE_def H_BASE_def)

lemma putchar_zero: "putchar 48 = (''0'', 48)"
  by code_simp

lemma zero_numeral: "numeral_ok 10 ''0''" "numeral_ok 8 ''0''"
    "digit_value CHR ''0'' = 0"
  by code_simp+

lemma neg_unat:
  fixes x :: u32
  assumes "x <s 0"
  shows "unat (- x) = nat (- sint x)" and "- x \<noteq> 0"
proof -
  show n: "- x \<noteq> 0" using assms by auto
  have s: "sint x < 0" using assms by (simp add: word_sless_alt)
  have r: "- (2 ^ 31) \<le> sint x" using sint_greater_eq [of x] by simp
  have u: "uint x = sint x mod 2 ^ 32" by (simp add: uint_sint take_bit_eq_mod)
  have "uint (- x) = - uint x mod 2 ^ 32" by (simp add: uint_word_ariths)
  also have "\<dots> = (- sint x) mod 2 ^ 32" unfolding u by (rule mod_minus_eq)
  also have "\<dots> = - sint x" using s r by simp
  finally show "unat (- x) = nat (- sint x)" by (simp add: nat_uint_eq [symmetric])
qed

lemma nonneg_unat:
  fixes x :: u32
  assumes "\<not> x <s 0"
  shows "unat x = nat (sint x)"
proof -
  have s: "0 \<le> sint x" "sint x < 2 ^ 31"
    using assms sint_less [of x] by (simp_all add: word_sless_alt)
  have "uint x = sint x mod 2 ^ 32" by (simp add: uint_sint take_bit_eq_mod)
  also have "\<dots> = sint x" using s by simp
  finally show ?thesis by (simp add: nat_uint_eq [symmetric])
qed

lemma printd_digits:
  assumes "x \<noteq> 0x80000000"
  shows "printd x = Some ((if x <s 0 then ''-'' else []) @ digits 10 (nat \<bar>sint x\<bar>),
                          int (length (digits 10 (nat \<bar>sint x\<bar>))))"
proof (cases "x <s 0")
  case True
  then have "\<bar>sint x\<bar> = - sint x" by (simp add: word_sless_alt)
  with True assms neg_unat(1) [OF True] show ?thesis by (simp add: printd_def rpu_bases)
next
  case False
  then have "\<bar>sint x\<bar> = sint x" by (simp add: word_sless_alt)
  with False assms nonneg_unat [OF False] show ?thesis by (simp add: printd_def rpu_bases)
qed

text \<open>C22. Numbers are printed so that they read back: in base 10, 8 and 16 the text of an unsigned
  number has digits of the base and no leading zero, and its value is the number; printd prints
  the sign and the numeral of the absolute value. Zero is the exception: printd prints nothing
  for it and printx the prefix and a line break.\<close>

theorem numbers_read_back:
  "(\<exists>s n. printu x = Some (s, n) \<and> numeral_ok 10 s \<and> read_numeral 10 0 s = unat x)
   \<and> (\<exists>s n. printo x = Some (s, n) \<and> numeral_ok 8 s \<and> read_numeral 8 0 s = unat x)
   \<and> (\<exists>s n. printx x = Some (s, n) \<and> (if x = 0 then s = ''0x'' @ [newline]
        else numeral_ok 16 s \<and> read_numeral 16 0 s = unat x \<and> n = int (length s)))
   \<and> (if x = 0x80000000 then printd x = None
      else if x = 0 then printd x = Some ([], 0)
      else \<exists>s. printd x = Some ((if sint x < 0 then ''-'' else []) @ s, int (length s))
        \<and> numeral_ok 10 s \<and> int (read_numeral 10 0 s) = \<bar>sint x\<bar>)"
proof (intro conjI)
  show "\<exists>s n. printu x = Some (s, n) \<and> numeral_ok 10 s \<and> read_numeral 10 0 s = unat x"
    using dec.numeral_ok_digits [of "unat x"] dec.read_digits [of "unat x"]
    by (cases "x = 0") (auto simp: printu_def rpu_bases putchar_zero zero_numeral unat_eq_0)
  show "\<exists>s n. printo x = Some (s, n) \<and> numeral_ok 8 s \<and> read_numeral 8 0 s = unat x"
    using oct.numeral_ok_digits [of "unat x"] oct.read_digits [of "unat x"]
    by (cases "x = 0") (auto simp: printo_def rpu_bases putchar_zero zero_numeral unat_eq_0)
  show "\<exists>s n. printx x = Some (s, n) \<and> (if x = 0 then s = ''0x'' @ [newline]
      else numeral_ok 16 s \<and> read_numeral 16 0 s = unat x \<and> n = int (length s))"
    using hex.numeral_ok_digits [of "unat x"] hex.read_digits [of "unat x"]
    by (cases "x = 0") (auto simp: printx_def rpu_bases unat_eq_0)
  show "if x = 0x80000000 then printd x = None
    else if x = 0 then printd x = Some ([], 0)
    else \<exists>s. printd x = Some ((if sint x < 0 then ''-'' else []) @ s, int (length s))
      \<and> numeral_ok 10 s \<and> int (read_numeral 10 0 s) = \<bar>sint x\<bar>"
  proof (cases "x = 0x80000000 \<or> x = 0")
    case True
    moreover have "printd 0x80000000 = None" by (simp add: printd_def word_sless_alt)
    moreover have "printd 0 = Some ([], 0)" by (simp add: printd_def rpu_bases)
    ultimately show ?thesis by auto
  next
    case False
    then have "nat \<bar>sint x\<bar> \<noteq> 0" by (simp add: sint_0 signed_eq_0_iff)
    with False show ?thesis
      using dec.numeral_ok_digits [of "nat \<bar>sint x\<bar>"] dec.read_digits [of "nat \<bar>sint x\<bar>"]
      by (auto simp: printd_digits word_sless_alt)
  qed
qed

section \<open>Formats\<close>

text \<open>The format as the C string it is, cut into what is copied and what is converted.\<close>

datatype item = Lit char | Conv char

fun items :: "string \<Rightarrow> item list" where
  "items [] = []"
| "items [c] = (if c = CHR 0x00 then [] else [Lit c])"
| "items (c # t # cs) =
     (if c = CHR 0x00 then []
      else if c = CHR ''%'' \<and> t \<noteq> CHR 0x00 then Conv t # items cs
      else Lit c # items (t # cs))"

fun render :: "item list \<Rightarrow> arg list \<Rightarrow> string option" where
  "render [] ap = Some []"
| "render (Lit c # fs) ap = map_option (\<lambda>s. c # s) (render fs ap)"
| "render (Conv t # fs) ap = do {
     (out, ap') \<leftarrow> convert t ap;
     rest \<leftarrow> render fs ap';
     Some (out @ rest)
   }"

definition cstring :: "string \<Rightarrow> string" where
  "cstring s = takeWhile (\<lambda>c. c \<noteq> CHR 0x00) s"

lemma char_at_append: "char_at (p @ s) (length p + k) = char_at s k"
  by (simp add: char_at_def nth_append)

lemma char_at_simps [simp]:
  "char_at [] k = CHR 0x00" "char_at (c # s) 0 = c" "char_at (c # s) (Suc k) = char_at s k"
  by (simp_all add: char_at_def)

lemma format_loop_items:
  "format_loop (p @ s) (length p) ap
   = map_option (\<lambda>out. (out, length p + length (cstring s))) (render (items s) ap)"
proof (induction s arbitrary: p ap rule: items.induct)
  case 1
  then show ?case using char_at_append [of p "[]" 0] by (simp add: format_loop.simps cstring_def)
next
  case (2 c)
  have n: "format_loop (p @ [c]) (Suc (length p)) ap = Some ([], Suc (length p))"
    using char_at_append [of "p @ [c]" "[]" 0] by (simp add: format_loop.simps)
  show ?case using char_at_append [of p "[c]" 0] char_at_append [of p "[c]" 1] n
    by (subst format_loop.simps) (auto simp: cstring_def)
next
  case (3 c t cs)
  have at: "char_at (p @ c # t # cs) (length p) = c" "char_at (p @ c # t # cs) (Suc (length p)) = t"
    using char_at_append [of p "c # t # cs" 0] char_at_append [of p "c # t # cs" 1] by simp_all
  consider (stop) "c = CHR 0x00" | (conv) "c = CHR ''%''" "t \<noteq> CHR 0x00"
    | (lit) "c \<noteq> CHR 0x00" "\<not> (c = CHR ''%'' \<and> t \<noteq> CHR 0x00)" by auto
  then show ?case
  proof cases
    case stop
    with at show ?thesis by (subst format_loop.simps) (simp add: cstring_def)
  next
    case conv
    from conv at "3.IH"(1) [where p = "p @ [c, t]"] show ?thesis
      by (subst format_loop.simps)
        (auto simp: cstring_def bind_eq_Some_conv split: option.splits prod.splits bind_split)
  next
    case lit
    from lit at "3.IH"(2) [where p = "p @ [c]"] show ?thesis
      by (subst format_loop.simps, cases "render (items (t # cs)) ap") (auto simp: cstring_def)
  qed
qed

text \<open>C23. myprintf prints the format item by item: a character of the format as itself, a conversion
  as what its function prints of the next argument; it returns the length of the format (and not
  the number of characters printed). A newline of the format is no exception, it is printed as itself;
  the algorithm of \<^verbatim>\<open>Lab1/ReadMe.md\<close> asks for an extra carriage return behind each, which the code does not print.\<close>

theorem myprintf_renders:
  "myprintf fmt ap = map_option (\<lambda>out. (out, length (cstring fmt))) (render (items fmt) ap)"
  using format_loop_items [of "[]" fmt ap] by (simp add: myprintf_def)

text \<open>The arguments a format asks for.\<close>

fun arg_fits :: "char \<Rightarrow> arg \<Rightarrow> bool" where
  "arg_fits t (Str s) \<longleftrightarrow> t = CHR ''s''"
| "arg_fits t (Num x) \<longleftrightarrow> t \<noteq> CHR ''s'' \<and> \<not> (t = CHR ''d'' \<and> x = 0x80000000)"

fun fits :: "item list \<Rightarrow> arg list \<Rightarrow> bool" where
  "fits [] ap \<longleftrightarrow> True"
| "fits (Lit c # fs) ap \<longleftrightarrow> fits fs ap"
| "fits (Conv t # fs) [] \<longleftrightarrow> False"
| "fits (Conv t # fs) (a # ap) \<longleftrightarrow> arg_fits t a \<and> fits fs ap"

lemma prints_cstring: "prints s = (cstring s, int (length (cstring s)))"
  by (induction s) (auto simp: cstring_def)

lemma printers_return:
  "\<exists>s n. printu x = Some (s, n)" "\<exists>s n. printo x = Some (s, n)" "\<exists>s n. printx x = Some (s, n)"
  "x \<noteq> 0x80000000 \<Longrightarrow> \<exists>s n. printd x = Some (s, n)"
  by (simp_all add: printu_def printo_def printx_def rpu_bases printd_digits putchar_def)

lemma printd_least: "printd 0x80000000 = None"
  by (simp add: printd_def word_sless_alt)

lemma convert_fits: "arg_fits t a \<Longrightarrow> \<exists>out. convert t (a # ap) = Some (out, ap)"
proof (cases a)
  case (Num x)
  assume "arg_fits t a"
  with Num have "t \<noteq> CHR ''s''" "t = CHR ''d'' \<Longrightarrow> x \<noteq> 0x80000000" by auto
  with printers_return [of x] show ?thesis
    unfolding Num convert_def by (elim exE) (auto simp: putchar_def simp del: not_None_eq)
qed (simp add: convert_def)

lemma convert_unfit: "\<not> arg_fits t a \<Longrightarrow> convert t (a # ap) = None" "convert t [] = None"
  by (cases a) (auto simp: convert_def printd_least)

lemma render_fits: "fits fs ap \<longleftrightarrow> (\<exists>out. render fs ap = Some out)"
proof (induction fs ap rule: fits.induct)
  case (4 t fs a ap)
  then show ?case
    using convert_fits [of t a ap] convert_unfit(1) [of t a ap]
    by (cases "arg_fits t a") (auto simp: bind_eq_Some_conv)
qed (auto simp: convert_unfit)

text \<open>myprintf returns exactly when every conversion of the format has an argument of its own
  type, and the least integer is not printed by %d; arguments left over do no harm.\<close>

theorem myprintf_returns:
  "(\<exists>out n. myprintf fmt ap = Some (out, n)) \<longleftrightarrow> fits (items fmt) ap"
  using format_loop_items [of "[]" fmt ap] by (simp add: myprintf_def render_fits)

section \<open>The test output\<close>

lemma myprintf_items:
  "render (items fmt) ap = Some out \<Longrightarrow> myprintf fmt ap = Some (out, length (cstring fmt))"
  using format_loop_items [of "[]" fmt ap] by (simp add: myprintf_def)

lemma sint_least: "sint (0x80000000 :: u32) = - 2147483648"
  by simp

lemma printd_nat:
  assumes "n < 2 ^ 31"
  shows "printd (of_nat n) = Some (digits 10 n, int (length (digits 10 n)))"
proof -
  have "sint (of_nat n :: u32) = int n"
    using assms by (simp add: signed_of_nat signed_take_bit_int_eq_self)
  moreover from this have "(of_nat n :: u32) \<noteq> 0x80000000"
    using sint_least by (metis of_nat_0_le_iff neg_0_le_iff_le not_numeral_le_zero)
  ultimately show ?thesis
    using printd_digits [of "of_nat n"] by (auto simp: word_sless_alt)
qed

definition argv_line :: "nat \<Rightarrow> string \<Rightarrow> string" where
  "argv_line k a = ''argv['' @ digits 10 k @ ''] = '' @ cstring a @ [newline]"

lemma argv_line_prints:
  assumes "k < 2 ^ 31"
  shows "myprintf (''argv[%d] = %s'' @ [newline]) [Num (of_nat k), Str a]
    = Some (argv_line k a, 14)"
proof -
  have "render (items (''argv[%d] = %s'' @ [newline])) [Num (of_nat k), Str a] = Some (argv_line k a)"
    using printd_nat [OF assms] by (simp add: convert_def prints_cstring argv_line_def)
  from myprintf_items [OF this] show ?thesis by (simp add: cstring_def)
qed

fun argv_lines :: "nat \<Rightarrow> string list \<Rightarrow> string" where
  "argv_lines i [] = []"
| "argv_lines i (a # as) = argv_line (i + 1) a @ argv_lines (i + 1) as"

lemma argv_loop_lines:
  "i + length as < 2 ^ 31 \<Longrightarrow> argv_loop i as = Some (argv_lines i as)"
  using argv_line_prints by (induction as arbitrary: i) (simp_all del: of_nat_Suc of_nat_add)

lemma test_line:
  "myprintf test_format [Num 65, Str ''this is a test'', Num 100, Num 100, Num 100, Num (- 100)]
   = Some (''cha=A string=this is a test      dec=100 hex=64 oct=144 neg=-100'' @ [newline], 50)"
  by code_simp

text \<open>The program prints its test line, the number of its arguments and the arguments numbered
  from 1, and always ends.\<close>

theorem main_prints:
  assumes "length argv < 2 ^ 31"
  shows "main_out argv = Some
    (''***** Test Input *****'' @ [newline]
     @ ''cha=A string=this is a test      dec=100 hex=64 oct=144 neg=-100'' @ [newline]
     @ [newline] @ ''***** Print argc and argv[] *****'' @ [newline]
     @ ''argc = '' @ digits 10 (length argv) @ [newline] @ argv_lines 0 argv)"
proof -
  have "render (items ([newline] @ ''***** Print argc and argv[] *****'' @ [newline] @ ''argc = %d'' @ [newline]))
      [Num (of_nat (length argv))]
    = Some ([newline] @ ''***** Print argc and argv[] *****'' @ [newline]
        @ ''argc = '' @ digits 10 (length argv) @ [newline])"
    using printd_nat [OF assms] by (simp add: convert_def)
  from myprintf_items [OF this] assms show ?thesis
    by (simp add: main_out_def createPrintStatement_def test_line argv_loop_lines)
qed

theorem main_prints_witness:
  "main_out [''a.out'', ''x''] = Some
    (''***** Test Input *****'' @ [newline]
     @ ''cha=A string=this is a test      dec=100 hex=64 oct=144 neg=-100'' @ [newline]
     @ [newline] @ ''***** Print argc and argv[] *****'' @ [newline]
     @ ''argc = '' @ ''2'' @ [newline] @ argv_line 1 ''a.out'' @ argv_line 2 ''x'')"
proof -
  have d: "digits 10 (Suc (Suc 0)) = ''2''" by code_simp
  have s: "Suc (Suc 0) = 2" by simp
  show ?thesis using main_prints [of "[''a.out'', ''x'']"] by (simp add: d) (simp add: s)
qed

end
