(* ===== verification/Partitions.thy ===== *)
theory Partitions
  imports Text Words
begin

text \<open>
  \<^verbatim>\<open>Lab1/Partitions.c\<close>: the listing of the partitions of a virtual disk. The disk is the list of its
  bytes; the buffer is an array of bytes, the partition pointer an offset into it, and reading past
  the buffer is \<open>None\<close>. Sector numbers are 32-bit words, which wrap as in C. The two functions that
  call each other are one recursion over the calls; a recursion that never ends is \<open>None\<close>.
\<close>

section \<open>Data\<close>

record Partition =
  drive :: u8
  head :: u8
  sector :: u8
  cylinder :: u8
  sys_type :: u8
  end_head :: u8
  end_sector :: u8
  end_cylinder :: u8
  start_sector :: u32
  nr_sectors :: u32

definition BUFSIZE :: nat where "BUFSIZE = 512"

text \<open>The program state: the global buffer and what is printed.\<close>

record disk_listing =
  BUF :: "u8 list"
  printed :: "string list"

text \<open>\<^verbatim>\<open>*p\<close>, the record of 16 bytes at an offset.\<close>

definition deref :: "u8 list \<Rightarrow> nat \<Rightarrow> Partition option" where
  "deref b p =
     (if p + 16 \<le> length b then Some
        \<lparr>drive = b ! p, head = b ! (p + 1), sector = b ! (p + 2), cylinder = b ! (p + 3),
         sys_type = b ! (p + 4), end_head = b ! (p + 5), end_sector = b ! (p + 6),
         end_cylinder = b ! (p + 7), start_sector = load_u32 b (p + 8),
         nr_sectors = load_u32 b (p + 12)\<rparr>
      else None)"

text \<open>The partition table of a boot record, and the size of a partition record.\<close>

definition PTABLE :: nat where "PTABLE = 0x1BE"
definition PSIZE :: nat where "PSIZE = 16"

section \<open>Operations\<close>

text \<open>\<^verbatim>\<open>%w\<close>: right justified in a field of the width.\<close>

definition padded :: "nat \<Rightarrow> string \<Rightarrow> string" where
  "padded w s = replicate (w - length s) CHR '' '' @ s"

definition heading :: string where
  "heading = ''Device'' @ [CHR 0x09] @ ''   Boot Start   End Sectors  Id'' @ [newline]"

definition details :: "Partition \<Rightarrow> u32 \<Rightarrow> int \<Rightarrow> string" where
  "details p end device =
     ''vdisk'' @ dec device @ [CHR 0x09] @ ''   ''
     @ padded 10 (numeral_text 10 (unat (start_sector p))) @ ''  ''
     @ padded 4 (numeral_text 10 (unat end)) @ '' ''
     @ padded 7 (numeral_text 10 (unat (nr_sectors p))) @ ''  ''
     @ padded 2 (numeral_text 16 (unat (sys_type p))) @ [newline]"

definition printPartitionDetails :: "Partition \<Rightarrow> u32 \<Rightarrow> int \<Rightarrow> disk_listing \<Rightarrow> disk_listing" where
  "printPartitionDetails p end device s = s\<lparr>printed := printed s @ [details p end device]\<rparr>"

text \<open>\<^verbatim>\<open>read\<close> fills the buffer from the file offset, as far as the file goes.\<close>

definition read_at :: "u8 list \<Rightarrow> nat \<Rightarrow> disk_listing \<Rightarrow> disk_listing" where
  "read_at disk pos s =
     (let got = take BUFSIZE (drop pos disk)
      in s\<lparr>BUF := got @ drop (length got) (BUF s)\<rparr>)"

text \<open>The offset \<^verbatim>\<open>n * BUFSIZE\<close> is computed in 32 bits before it is widened.\<close>

definition getExtendedPartition :: "u8 list \<Rightarrow> u32 \<Rightarrow> disk_listing \<Rightarrow> nat \<times> disk_listing" where
  "getExtendedPartition disk n s =
     (let s1 = read_at disk (unat (n * of_nat BUFSIZE)) s;
          i = PTABLE + 8
      in (PTABLE, s1\<lparr>BUF := store_u32 i (load_u32 (BUF s1) i + n) (BUF s1)\<rparr>))"

datatype call = Load_Partitions nat int | Load_Extended nat u32 int

partial_function (option) run :: "u8 list \<Rightarrow> call \<Rightarrow> disk_listing \<Rightarrow> disk_listing option" where
  "run disk call s =
     (case call of
        Load_Partitions p pCount \<Rightarrow> do {
          q \<leftarrow> deref (BUF s) p;
          if start_sector q \<noteq> 0 then do {
            let start = start_sector q;
            let end = nr_sectors q + start - 1;
            let s1 = printPartitionDetails q end pCount s;
            s2 \<leftarrow> (if sys_type q = 5 then
                     (case getExtendedPartition disk start s1 of
                        (p_extend, s') \<Rightarrow> run disk (Load_Extended p_extend end (pCount + 1)) s')
                   else Some s1);
            run disk (Load_Partitions (p + PSIZE) (pCount + 1)) s2
          }
          else Some s
        }
      | Load_Extended p end pCount \<Rightarrow> do {
          q \<leftarrow> deref (BUF s) p;
          let currEnd = nr_sectors q + start_sector q - 1;
          if currEnd \<le> end then do {
            s1 \<leftarrow> (if sys_type q = 5 then run disk (Load_Partitions p pCount) s
                   else Some (printPartitionDetails q currEnd pCount s));
            (case getExtendedPartition disk (currEnd + 1) s1 of
               (p_extend, s2) \<Rightarrow> run disk (Load_Extended p_extend end (pCount + 1)) s2)
          }
          else Some s
        })"

declare run.simps [code]

definition LoadPartitions :: "u8 list \<Rightarrow> nat \<Rightarrow> int \<Rightarrow> disk_listing \<Rightarrow> disk_listing option" where
  "LoadPartitions disk p pCount s = run disk (Load_Partitions p pCount) s"

definition LoadExtendedPartitions :: "u8 list \<Rightarrow> nat \<Rightarrow> u32 \<Rightarrow> int \<Rightarrow> disk_listing \<Rightarrow> disk_listing option" where
  "LoadExtendedPartitions disk p end pCount s = run disk (Load_Extended p end pCount) s"

text \<open>
  The same recursion call by call: what is still to do, the next first. \<open>Fetch\<close> is the read of a local
  boot record and the call of \<^verbatim>\<open>LoadExtendedPartitions\<close> on it. A turn is \<open>None\<close> at a read outside of the
  buffer, and when nothing is left to do.
\<close>

datatype todo = Do call | Fetch u32 u32 int

definition load_turn :: "call \<Rightarrow> todo list \<Rightarrow> disk_listing \<Rightarrow> (todo list \<times> disk_listing) option" where
  "load_turn call rest s =
     (case call of
        Load_Partitions p pCount \<Rightarrow> do {
          q \<leftarrow> deref (BUF s) p;
          let end = nr_sectors q + start_sector q - 1;
          Some (if start_sector q \<noteq> 0
            then ((if sys_type q = 5 then [Fetch (start_sector q) end (pCount + 1)] else [])
                    @ Do (Load_Partitions (p + PSIZE) (pCount + 1)) # rest,
                  printPartitionDetails q end pCount s)
            else (rest, s))
        }
      | Load_Extended p end pCount \<Rightarrow> do {
          q \<leftarrow> deref (BUF s) p;
          let currEnd = nr_sectors q + start_sector q - 1;
          Some (if currEnd \<le> end
            then if sys_type q = 5
              then (Do (Load_Partitions p pCount) # Fetch (currEnd + 1) end (pCount + 1) # rest, s)
              else (Fetch (currEnd + 1) end (pCount + 1) # rest, printPartitionDetails q currEnd pCount s)
            else (rest, s))
        })"

fun turn :: "u8 list \<Rightarrow> todo list \<times> disk_listing \<Rightarrow> (todo list \<times> disk_listing) option" where
  "turn disk ([], s) = None"
| "turn disk (Do call # rest, s) = load_turn call rest s"
| "turn disk (Fetch n end pCount # rest, s) =
     (case getExtendedPartition disk n s of (p, s1) \<Rightarrow> Some (Do (Load_Extended p end pCount) # rest, s1))"

abbreviation turns :: "u8 list \<Rightarrow> todo list \<times> disk_listing \<Rightarrow> todo list \<times> disk_listing \<Rightarrow> bool" where
  "turns disk x y \<equiv> turn disk x = Some y"

text \<open>\<^verbatim>\<open>None\<close> for the disk is a file that cannot be opened; the buffer starts as zeros.\<close>

definition readDisk :: "u8 list option \<Rightarrow> disk_listing \<Rightarrow> disk_listing" where
  "readDisk file s =
     (case file of
        None \<Rightarrow> s\<lparr>printed := printed s @ [''Failed to open '' @ [CHR 0x27] @ ''vdisk'' @ [CHR 0x27]
                    @ '' to read from...'' @ [newline]]\<rparr>
      | Some disk \<Rightarrow> read_at disk 0 s)"

definition opened :: "u8 list option \<Rightarrow> disk_listing" where
  "opened file = readDisk file \<lparr>BUF = replicate BUFSIZE 0, printed = [heading]\<rparr>"

definition main_list :: "u8 list option \<Rightarrow> disk_listing option" where
  "main_list file =
     LoadPartitions (case file of None \<Rightarrow> [] | Some disk \<Rightarrow> disk) PTABLE 1 (opened file)"

end
