(* ===== verification/PartitionsProps.thy ===== *)
theory PartitionsProps
  imports Partitions
begin

text \<open>
  What \<^verbatim>\<open>Lab1/Partitions.c\<close> lists: on a disk whose extended partition is filled by contiguous
  logical partitions up to the end of the disk, all of them, numbered in order; on a disk with a gap
  in the chain, or with an extended partition that is empty, it never stops.
\<close>

section \<open>Records in the buffer\<close>

lemma deref_store_start:
  "deref (store_u32 (p + 8) w b) p = map_option (\<lambda>q. q\<lparr>start_sector := w\<rparr>) (deref b p)"
  by (simp add: deref_def load_store nth_store load_u32_def [of _ "p + 12"])

lemma deref_store_other: "p + 16 \<le> j \<Longrightarrow> deref (store_u32 (p + 8) w b) j = deref b j"
  by (simp add: deref_def nth_store load_u32_def)

lemma deref_start: "deref b p = Some q \<Longrightarrow> start_sector q = load_u32 b (p + 8)"
  by (auto simp: deref_def split: if_splits)

section \<open>The layout of a disk\<close>

definition sector_bytes :: "u8 list \<Rightarrow> nat \<Rightarrow> u8 list" where
  "sector_bytes disk n = take BUFSIZE (drop (BUFSIZE * n) disk)"

definition entry :: "u8 list \<Rightarrow> nat \<Rightarrow> nat \<Rightarrow> Partition option" where
  "entry disk n k = deref (sector_bytes disk n) (PTABLE + PSIZE * k)"

text \<open>A partition as an absolute one: its start counted from the beginning of the disk.\<close>

definition relocated :: "nat \<Rightarrow> Partition \<Rightarrow> Partition" where
  "relocated n q = q\<lparr>start_sector := start_sector q + of_nat n\<rparr>"

definition unused :: "Partition option \<Rightarrow> bool" where
  "unused e \<longleftrightarrow> (\<exists>q. e = Some q \<and> start_sector q = 0)"

text \<open>The logical partitions of the boot record in sector n, up to sector E.\<close>

fun logicals :: "u8 list \<Rightarrow> nat \<Rightarrow> Partition list \<Rightarrow> nat \<Rightarrow> bool" where
  "logicals disk n [] E \<longleftrightarrow> False"
| "logicals disk n (q # qs) E \<longleftrightarrow>
     (case entry disk n 0 of
        None \<Rightarrow> False
      | Some r \<Rightarrow>
          q = relocated n r \<and> sys_type r \<noteq> 5 \<and> nr_sectors r \<noteq> 0
          \<and> (let m = n + unat (start_sector r) + unat (nr_sectors r)
             in if qs = [] then m = E + 1 \<and> unused (entry disk n 1) \<and> unused (entry disk n 2)
                  \<and> unused (entry disk n 3)
                else m \<le> E \<and> logicals disk m qs E))"

text \<open>The entries of the boot record from slot k: plain partitions, and an extended one at the end of
  the table and of the disk.\<close>

fun primaries :: "u8 list \<Rightarrow> nat \<Rightarrow> Partition list \<Rightarrow> Partition list \<Rightarrow> bool" where
  "primaries disk k [] ls \<longleftrightarrow> k < 4 \<and> ls = [] \<and> unused (entry disk 0 k)"
| "primaries disk k (q # qs) ls \<longleftrightarrow>
     entry disk 0 k = Some q \<and> start_sector q \<noteq> 0
     \<and> (if sys_type q = 5 then
          qs = [] \<and> k < 3
          \<and> (let E = unat (start_sector q) + unat (nr_sectors q) - 1
             in length disk = BUFSIZE * (E + 1) \<and> E + 1 < 2 ^ 23
                \<and> logicals disk (unat (start_sector q)) ls E)
        else k < 4 \<and> primaries disk (k + 1) qs ls)"

text \<open>The printed lines, numbered from k.\<close>

fun numbered :: "int \<Rightarrow> Partition list \<Rightarrow> string list" where
  "numbered k [] = []"
| "numbered k (q # qs) = details q (nr_sectors q + start_sector q - 1) k # numbered (k + 1) qs"

lemma numbered_append: "numbered k (qs @ rs) = numbered k qs @ numbered (k + int (length qs)) rs"
  by (induction qs arbitrary: k) (simp_all add: algebra_simps)

section \<open>Reading a boot record\<close>

text \<open>What the buffer holds once sector n has been read as a local boot record.\<close>

definition loaded :: "u8 list \<Rightarrow> nat \<Rightarrow> disk_listing \<Rightarrow> bool" where
  "loaded disk n s \<longleftrightarrow>
     BUF s = store_u32 (PTABLE + 8) (load_u32 (sector_bytes disk n) (PTABLE + 8) + of_nat n) (sector_bytes disk n)
     \<and> length (sector_bytes disk n) = BUFSIZE"

lemma sizes [simp]: "PTABLE = 446" "PSIZE = 16" "BUFSIZE = 512"
  by (simp_all add: PTABLE_def PSIZE_def BUFSIZE_def)

lemma offset: "n < 2 ^ 23 \<Longrightarrow> unat (of_nat n * of_nat BUFSIZE :: u32) = 512 * n"
  by (simp add: unat_word_ariths unat_of_nat)

lemma getExtended_loads:
  assumes "512 * (n + 1) \<le> length disk" and "n < 2 ^ 23" and "length (BUF s) = 512"
  obtains s' where "getExtendedPartition disk (of_nat n) s = (PTABLE, s')" and "loaded disk n s'"
    and "printed s' = printed s"
proof -
  have len: "length (sector_bytes disk n) = 512" using assms(1) by (simp add: sector_bytes_def)
  then have "read_at disk (512 * n) s = s\<lparr>BUF := sector_bytes disk n\<rparr>"
    using assms(3) by (simp add: read_at_def sector_bytes_def Let_def)
  with len offset [OF assms(2)] show thesis
    using that [of "snd (getExtendedPartition disk (of_nat n) s)"]
    by (simp add: getExtendedPartition_def loaded_def Let_def)
qed

lemma getExtended_past_end:
  assumes "length disk \<le> 512 * n" and "n < 2 ^ 23"
  shows "getExtendedPartition disk (of_nat n) s
    = (PTABLE, s\<lparr>BUF := store_u32 (PTABLE + 8) (load_u32 (BUF s) (PTABLE + 8) + of_nat n) (BUF s)\<rparr>)"
  using assms offset [OF assms(2)] by (simp add: getExtendedPartition_def read_at_def Let_def)

lemma loaded_first:
  assumes "loaded disk n s" and "entry disk n 0 = Some r"
  shows "deref (BUF s) PTABLE = Some (relocated n r)" and "length (BUF s) = 512"
proof -
  from assms(2) have e: "deref (sector_bytes disk n) PTABLE = Some r" by (simp add: entry_def)
  with deref_start [OF e] assms(1) show "deref (BUF s) PTABLE = Some (relocated n r)"
    by (simp only: loaded_def deref_store_start) (simp add: relocated_def)
  show "length (BUF s) = 512" using assms(1) by (simp add: loaded_def)
qed

lemma loaded_rest: "loaded disk n s \<Longrightarrow> 0 < k \<Longrightarrow> deref (BUF s) (PTABLE + PSIZE * k) = entry disk n k"
  using deref_store_other [of PTABLE] by (simp add: loaded_def entry_def)

section \<open>One step of each loop\<close>

lemma run_unused: "unused (deref (BUF s) p) \<Longrightarrow> run disk (Load_Partitions p k) s = Some s"
  by (subst run.simps) (auto simp: unused_def)

lemma run_plain:
  assumes "deref (BUF s) p = Some q" and "start_sector q \<noteq> 0" and "sys_type q \<noteq> 5"
  shows "run disk (Load_Partitions p k) s = run disk (Load_Partitions (p + PSIZE) (k + 1))
    (printPartitionDetails q (nr_sectors q + start_sector q - 1) k s)"
  using assms by (subst run.simps) simp

lemma run_extended:
  assumes "deref (BUF s) p = Some q" and "start_sector q \<noteq> 0" and "sys_type q = 5"
    and "getExtendedPartition disk (start_sector q)
           (printPartitionDetails q (nr_sectors q + start_sector q - 1) k s) = (p', s1)"
  shows "run disk (Load_Partitions p k) s =
    Option.bind (run disk (Load_Extended p' (nr_sectors q + start_sector q - 1) (k + 1)) s1)
      (run disk (Load_Partitions (p + PSIZE) (k + 1)))"
  using assms by (subst run.simps) simp

lemma run_logical:
  assumes "deref (BUF s) p = Some q" and "sys_type q \<noteq> 5"
    and "nr_sectors q + start_sector q - 1 \<le> e"
    and "getExtendedPartition disk (nr_sectors q + start_sector q - 1 + 1)
           (printPartitionDetails q (nr_sectors q + start_sector q - 1) k s) = (p', s1)"
  shows "run disk (Load_Extended p e k) s = run disk (Load_Extended p' e (k + 1)) s1"
  using assms by (subst run.simps) (simp del: diff_add_cancel)

lemma run_beyond:
  assumes "deref (BUF s) p = Some q" and "\<not> nr_sectors q + start_sector q - 1 \<le> e"
  shows "run disk (Load_Extended p e k) s = Some s"
  using assms by (subst run.simps) simp

section \<open>The chain of logical partitions\<close>

lemma last_sector:
  fixes r :: Partition
  assumes "m = n + unat (start_sector r) + unat (nr_sectors r)" and "0 < m"
  shows "nr_sectors (relocated n r) + start_sector (relocated n r) - 1 = of_nat (m - 1)"
    and "nr_sectors (relocated n r) + start_sector (relocated n r) - 1 + 1 = of_nat m"
proof -
  have "nr_sectors r + (start_sector r + of_nat n) = of_nat m"
    unfolding assms(1) by simp
  then have e: "nr_sectors (relocated n r) + start_sector (relocated n r) = of_nat m"
    by (simp add: relocated_def)
  from assms(2) show "nr_sectors (relocated n r) + start_sector (relocated n r) - 1 = of_nat (m - 1)"
    unfolding e by (cases m) simp_all
  show "nr_sectors (relocated n r) + start_sector (relocated n r) - 1 + 1 = of_nat m"
    unfolding e by simp
qed

lemma of_nat_le: "a < 2 ^ 32 \<Longrightarrow> b < 2 ^ 32 \<Longrightarrow> (of_nat a :: u32) \<le> of_nat b \<longleftrightarrow> a \<le> b"
  by (simp add: word_le_nat_alt unat_of_nat)

lemma logicals_listed:
  assumes "logicals disk n qs E" and "loaded disk n s" and "length disk = 512 * (E + 1)" and "E + 1 < 2 ^ 23"
  shows "\<exists>s'. run disk (Load_Extended PTABLE (of_nat E) k) s = Some s'
    \<and> printed s' = printed s @ numbered k qs
    \<and> (\<forall>j \<in> {1, 2, 3}. unused (deref (BUF s') (PTABLE + PSIZE * j)))"
  using assms(1,2)
proof (induction qs arbitrary: n s k)
  case Nil
  then show ?case by simp
next
  case (Cons q qs)
  from Cons.prems obtain r m where r: "entry disk n 0 = Some r" "q = relocated n r" "sys_type r \<noteq> 5"
      "nr_sectors r \<noteq> 0" and m: "m = n + unat (start_sector r) + unat (nr_sectors r)"
    and rest: "if qs = [] then m = E + 1 \<and> unused (entry disk n 1) \<and> unused (entry disk n 2)
                 \<and> unused (entry disk n 3) else m \<le> E \<and> logicals disk m qs E"
    by (auto simp: Let_def split: option.splits)
  have m0: "0 < m" "m \<le> E + 1" using m r(4) rest by (auto simp: unat_gt_0 split: if_splits)
  from loaded_first [OF Cons.prems(2) r(1)] r(2,3) have q: "deref (BUF s) PTABLE = Some q" "sys_type q \<noteq> 5"
    and len: "length (BUF s) = 512" by (auto simp: relocated_def)
  note ends = last_sector [OF m m0(1), folded r(2)]
  have le: "nr_sectors q + start_sector q - 1 \<le> of_nat E"
    unfolding ends using m0 assms(4) by (subst of_nat_le) auto
  let ?s = "printPartitionDetails q (nr_sectors q + start_sector q - 1) k s"
  have pr: "BUF ?s = BUF s" "printed ?s = printed s @ [details q (nr_sectors q + start_sector q - 1) k]"
    by (simp_all add: printPartitionDetails_def)
  show ?case
  proof (cases "qs = []")
    case False
    with rest have ml: "512 * (m + 1) \<le> length disk" "m < 2 ^ 23" "logicals disk m qs E"
      using assms(3,4) by auto
    obtain s1 where g: "getExtendedPartition disk (of_nat m) ?s = (PTABLE, s1)" "loaded disk m s1"
      "printed s1 = printed ?s"
      using getExtended_loads [OF ml(1,2), of ?s] len pr(1) by metis
    from Cons.IH [OF ml(3) g(2)] obtain s' where
      "run disk (Load_Extended PTABLE (of_nat E) (k + 1)) s1 = Some s'"
      "printed s' = printed s1 @ numbered (k + 1) qs"
      "\<forall>j \<in> {1, 2, 3}. unused (deref (BUF s') (PTABLE + PSIZE * j))" by blast
    with run_logical [OF q le] g ends pr show ?thesis by auto
  next
    case True
    with rest have mE: "m = E + 1" and un: "unused (entry disk n 1)" "unused (entry disk n 2)"
      "unused (entry disk n 3)" by auto
    let ?b = "store_u32 (PTABLE + 8) (load_u32 (BUF s) (PTABLE + 8) + of_nat m) (BUF s)"
    have g: "getExtendedPartition disk (of_nat m) ?s = (PTABLE, ?s\<lparr>BUF := ?b\<rparr>)"
      using getExtended_past_end [of disk m ?s] assms(3,4) mE pr(1) by simp
    have d: "deref ?b PTABLE = Some (relocated m q)"
      using q(1) deref_start [OF q(1)] by (simp only: deref_store_start) (simp add: relocated_def)
    have b: "nr_sectors (relocated m q) + start_sector (relocated m q) - 1 = of_nat (m + E)"
      using ends(1) mE by (simp add: relocated_def algebra_simps)
    have "\<not> nr_sectors (relocated m q) + start_sector (relocated m q) - 1 \<le> of_nat E"
      unfolding b using assms(4) mE by (subst of_nat_le) auto
    then have stop: "run disk (Load_Extended PTABLE (of_nat E) (k + 1)) (?s\<lparr>BUF := ?b\<rparr>) = Some (?s\<lparr>BUF := ?b\<rparr>)"
      using run_beyond [of "?s\<lparr>BUF := ?b\<rparr>"] d by simp
    have "unused (deref ?b (PTABLE + PSIZE * j))" if "j \<in> {1, 2, 3}" for j
      using that un loaded_rest [OF Cons.prems(2), of j] deref_store_other [of PTABLE "PTABLE + PSIZE * j"]
      by auto
    then have "\<forall>j \<in> {1, 2, 3}. unused (deref ?b (PTABLE + PSIZE * j))" by blast
    with run_logical [OF q le, of disk k PTABLE] g ends stop True pr show ?thesis by simp
  qed
qed

section \<open>The boot record\<close>

definition boot_read :: "u8 list \<Rightarrow> disk_listing \<Rightarrow> bool" where
  "boot_read disk s \<longleftrightarrow> BUF s = sector_bytes disk 0"

lemma primaries_listed:
  assumes "primaries disk j qs ls" and "boot_read disk s" and "length (BUF s) = 512"
  shows "\<exists>s'. run disk (Load_Partitions (PTABLE + PSIZE * j) k) s = Some s'
    \<and> printed s' = printed s @ numbered k (qs @ ls)"
  using assms
proof (induction qs arbitrary: j s k)
  case Nil
  then show ?case by (auto simp: run_unused boot_read_def entry_def)
next
  case (Cons q qs)
  let ?p = "PTABLE + PSIZE * j" and ?e = "nr_sectors q + start_sector q - 1"
  let ?s = "printPartitionDetails q ?e k s"
  have q: "deref (BUF s) ?p = Some q" "start_sector q \<noteq> 0"
    using Cons.prems(1,2) by (auto simp: boot_read_def entry_def)
  have pr: "BUF ?s = BUF s" "printed ?s = printed s @ [details q ?e k]"
    by (simp_all add: printPartitionDetails_def)
  have next_slot: "?p + PSIZE = PTABLE + PSIZE * (j + 1)" by simp
  show ?case
  proof (cases "sys_type q = 5")
    case False
    with Cons.prems have "primaries disk (j + 1) qs ls" "boot_read disk ?s" "length (BUF ?s) = 512"
      by (auto simp: boot_read_def pr)
    from Cons.IH [OF this, of "k + 1"] show ?thesis
      using run_plain [OF q False, of disk k] pr(2) unfolding next_slot by auto
  next
    case True
    define S E where "S = unat (start_sector q)" and "E = S + unat (nr_sectors q) - 1"
    from Cons.prems(1) True have qs: "qs = []" and j: "j < 3" and disk: "length disk = 512 * (E + 1)"
        "E + 1 < 2 ^ 23" and ls: "logicals disk S ls E"
      by (auto simp: S_def E_def Let_def)
    have S0: "0 < S" using q(2) by (simp add: S_def unat_gt_0)
    have SE: "S \<le> E"
      using ls by (cases ls) (auto simp: Let_def simp flip: unat_gt_0 split: option.splits if_splits)
    have S: "start_sector q = of_nat S" by (simp add: S_def)
    have e: "?e = of_nat E"
      using last_sector(1) [of "S + unat (nr_sectors q)" 0 q] S0
      by (simp add: S_def E_def relocated_def)
    obtain s1 where g: "getExtendedPartition disk (of_nat S) ?s = (PTABLE, s1)" "loaded disk S s1"
      "printed s1 = printed ?s"
    proof -
      have "512 * (S + 1) \<le> length disk" "S < 2 ^ 23" "length (BUF ?s) = 512"
        using disk SE Cons.prems(3) pr(1) by auto
      from getExtended_loads [OF this] that show thesis by blast
    qed
    from logicals_listed [OF ls g(2) disk] obtain s' where
      s': "run disk (Load_Extended PTABLE (of_nat E) (k + 1)) s1 = Some s'"
      "printed s' = printed s1 @ numbered (k + 1) ls"
      and un: "\<forall>j \<in> {1, 2, 3}. unused (deref (BUF s') (PTABLE + PSIZE * j))" by blast
    have "unused (deref (BUF s') (PTABLE + PSIZE * (j + 1)))"
      using un j by (elim ballE [of _ _ "j + 1"]) auto
    then have "run disk (Load_Partitions (?p + PSIZE) (k + 1)) s' = Some s'"
      unfolding next_slot by (rule run_unused)
    with run_extended [OF q True, of disk k PTABLE s1] g s' e S pr(2) qs show ?thesis by simp
  qed
qed

text \<open>C24. On a disk whose boot record lists plain partitions and at most one extended partition, the
  last in the table, whose logical partitions lie one after the other up to the end of the disk, the
  program ends and prints every partition once, the logical ones after the extended one, with its
  absolute start and end and numbered from 1.\<close>

theorem partitions_listed:
  assumes "primaries disk 0 qs ls" and "512 \<le> length disk"
  shows "\<exists>s. main_list (Some disk) = Some s \<and> printed s = heading # numbered 1 (qs @ ls)"
proof -
  let ?s = "readDisk (Some disk) \<lparr>BUF = replicate BUFSIZE 0, printed = [heading]\<rparr>"
  have "BUF ?s = sector_bytes disk 0" "length (BUF ?s) = 512" "printed ?s = [heading]"
    using assms(2) by (auto simp: readDisk_def read_at_def sector_bytes_def Let_def)
  with primaries_listed [OF assms(1), of ?s 1] show ?thesis
    by (auto simp: main_list_def opened_def LoadPartitions_def boot_read_def Let_def)
qed

text \<open>A disk of six sectors: a plain partition in sector 1, and an extended one from sector 2 with two
  logical partitions of a sector each behind their boot records.\<close>

definition entry_bytes :: "u8 \<Rightarrow> u8 \<Rightarrow> u8 \<Rightarrow> u8 list" where
  "entry_bytes ty start nr = [0, 0, 0, 0, ty, 0, 0, 0, start, 0, 0, 0, nr, 0, 0, 0]"

definition record_bytes :: "u8 list \<Rightarrow> u8 list \<Rightarrow> u8 list" where
  "record_bytes e0 e1 = replicate 446 0 @ e0 @ e1 @ replicate 34 0"

definition empty_entry :: "u8 list" where "empty_entry = entry_bytes 0 0 0"

definition data_sector :: "u8 list" where "data_sector = replicate 512 0"

definition small_disk :: "u8 list" where
  "small_disk = record_bytes (entry_bytes 131 1 1) (entry_bytes 5 2 4) @ data_sector
     @ record_bytes (entry_bytes 130 1 1) empty_entry @ data_sector
     @ record_bytes (entry_bytes 131 1 1) empty_entry @ data_sector"

lemma sector_bytes_append:
  "length a = 512 \<Longrightarrow> sector_bytes (a @ b) n = (if n = 0 then a else sector_bytes b (n - 1))"
  by (cases n) (simp_all add: sector_bytes_def)

lemma length_record_bytes [simp]: "length e0 = 16 \<Longrightarrow> length e1 = 16 \<Longrightarrow> length (record_bytes e0 e1) = 512"
  by (simp add: record_bytes_def)

lemma length_entry_bytes [simp]: "length (entry_bytes a b c) = 16" "length empty_entry = 16"
    "length data_sector = 512"
  by (simp_all add: entry_bytes_def empty_entry_def data_sector_def)

lemma deref_record_bytes:
  assumes "length e0 = 16" and "length e1 = 16"
  shows "deref (record_bytes e0 e1) 446 = deref e0 0"
    and "deref (record_bytes e0 e1) 462 = deref e1 0"
    and "deref (record_bytes e0 e1) 478 = deref empty_entry 0"
    and "deref (record_bytes e0 e1) 494 = deref empty_entry 0"
  using assms by (simp_all add: deref_def load_u32_def record_bytes_def nth_append nth_Cons'
      empty_entry_def entry_bytes_def numeral_2_eq_2)

definition plain_part :: "u8 \<Rightarrow> u32 \<Rightarrow> u32 \<Rightarrow> Partition" where
  "plain_part ty start nr = \<lparr>drive = 0, head = 0, sector = 0, cylinder = 0, sys_type = ty, end_head = 0,
     end_sector = 0, end_cylinder = 0, start_sector = start, nr_sectors = nr\<rparr>"

lemma deref_entry_bytes:
  "deref (entry_bytes ty start nr) 0 = Some (plain_part ty (ucast start) (ucast nr))"
  by (simp add: deref_def entry_bytes_def plain_part_def load_u32_def)

lemmas small_disk_simps = small_disk_def entry_def sector_bytes_append deref_record_bytes
  deref_entry_bytes unused_def empty_entry_def plain_part_def relocated_def

lemma small_disk_logicals:
  "logicals small_disk 2 [plain_part 130 3 1, plain_part 131 5 1] 5"
  by (simp add: small_disk_simps)

lemma small_disk_primaries:
  "primaries small_disk 0 [plain_part 131 1 1, plain_part 5 2 4] [plain_part 130 3 1, plain_part 131 5 1]"
  using small_disk_logicals by (simp add: small_disk_simps)

theorem partitions_listed_witness:
  "\<exists>s. main_list (Some small_disk) = Some s \<and> printed s = heading # numbered 1
     [plain_part 131 1 1, plain_part 5 2 4, plain_part 130 3 1, plain_part 131 5 1]"
  using partitions_listed [OF small_disk_primaries] by (simp add: small_disk_def)

section \<open>A full table\<close>

text \<open>With four plain partitions the loop goes on to the record behind the buffer.\<close>

definition plain_used :: "Partition option \<Rightarrow> bool" where
  "plain_used e \<longleftrightarrow> (\<exists>q. e = Some q \<and> start_sector q \<noteq> 0 \<and> sys_type q \<noteq> 5)"

lemma run_plain_used:
  assumes "boot_read disk s" and "plain_used (entry disk 0 j)"
  obtains s' where "run disk (Load_Partitions (PTABLE + PSIZE * j) k) s
    = run disk (Load_Partitions (PTABLE + PSIZE * (j + 1)) (k + 1)) s'" and "boot_read disk s'"
proof -
  from assms obtain q where q: "deref (BUF s) (PTABLE + PSIZE * j) = Some q" "start_sector q \<noteq> 0" "sys_type q \<noteq> 5"
    by (auto simp: plain_used_def entry_def boot_read_def)
  have "PTABLE + PSIZE * j + PSIZE = PTABLE + PSIZE * (j + 1)" by simp
  with run_plain [OF q, of disk k] that [of "printPartitionDetails q (nr_sectors q + start_sector q - 1) k s"] assms(1)
  show thesis by (simp add: boot_read_def printPartitionDetails_def)
qed

lemma run_plain_table:
  "boot_read disk s \<Longrightarrow> \<forall>j < m. plain_used (entry disk 0 j) \<Longrightarrow>
   \<exists>s' k'. run disk (Load_Partitions (PTABLE + PSIZE * 0) k) s
     = run disk (Load_Partitions (PTABLE + PSIZE * m) k') s' \<and> boot_read disk s'"
proof (induction m)
  case (Suc m)
  then obtain s1 k1 where "run disk (Load_Partitions (PTABLE + PSIZE * 0) k) s
      = run disk (Load_Partitions (PTABLE + PSIZE * m) k1) s1" "boot_read disk s1" by auto
  with run_plain_used [of disk s1 m k1] Suc.prems(2) show ?case by (metis Suc_eq_plus1 lessI)
qed auto

theorem full_table_overruns:
  assumes "\<forall>j < 4. plain_used (entry disk 0 j)" and "512 \<le> length disk"
  shows "main_list (Some disk) = None"
proof -
  let ?s = "readDisk (Some disk) \<lparr>BUF = replicate BUFSIZE 0, printed = [heading]\<rparr>"
  have "boot_read disk ?s"
    using assms(2) by (simp add: boot_read_def readDisk_def read_at_def sector_bytes_def Let_def)
  then obtain s4 k where "run disk (Load_Partitions (PTABLE + PSIZE * 0) 1) ?s
      = run disk (Load_Partitions (PTABLE + PSIZE * 4) k) s4" and "boot_read disk s4"
    using run_plain_table [OF _ assms(1)] by blast
  moreover from this(2) have "deref (BUF s4) (PTABLE + PSIZE * 4) = None"
    by (simp add: boot_read_def deref_def sector_bytes_def)
  ultimately show ?thesis
    by (simp add: main_list_def opened_def LoadPartitions_def run.simps [of disk "Load_Partitions 510 k"] Let_def)
qed

section \<open>A gap\<close>

text \<open>A call that returns is a sequence of turns that does what was to be done first.\<close>

lemma run_turns:
  "run disk call s = Some s' \<Longrightarrow> (turns disk)\<^sup>*\<^sup>* (Do call # rest, s) (rest, s')"
proof (induction arbitrary: rest rule: run.raw_induct [rotated, consumes 1, case_names step])
  case (step go disk call s s')
  show ?case
  proof (cases call)
    case (Load_Partitions p k)
    with step.hyps obtain q where q: "deref (BUF s) p = Some q" by (auto simp: bind_eq_Some_conv)
    let ?e = "nr_sectors q + start_sector q - 1"
    let ?s = "printPartitionDetails q ?e k s" and ?d = "Do (Load_Partitions (p + PSIZE) (k + 1))"
    consider (stop) "start_sector q = 0" "s' = s"
      | (plain) "start_sector q \<noteq> 0" "sys_type q \<noteq> 5" "go disk (Load_Partitions (p + PSIZE) (k + 1)) ?s = Some s'"
      | (extended) p' s1 s2 where "start_sector q \<noteq> 0" "sys_type q = 5"
          "getExtendedPartition disk (start_sector q) ?s = (p', s1)"
          "go disk (Load_Extended p' ?e (k + 1)) s1 = Some s2" "go disk (Load_Partitions (p + PSIZE) (k + 1)) s2 = Some s'"
      using step.hyps q Load_Partitions
      by (auto simp: Let_def bind_eq_Some_conv simp del: sizes split: if_splits prod.splits)
    then show ?thesis
    proof cases
      case stop
      with q Load_Partitions have "turn disk (Do call # rest, s) = Some (rest, s')" by (simp add: load_turn_def Let_def)
      then show ?thesis by (rule r_into_rtranclp)
    next
      case plain
      with q Load_Partitions have "turn disk (Do call # rest, s) = Some (?d # rest, ?s)" by (simp add: load_turn_def Let_def)
      with step.IH [OF plain(3), of rest] show ?thesis by (rule_tac converse_rtranclp_into_rtranclp)
    next
      case extended
      with q Load_Partitions have "turn disk (Do call # rest, s) = Some (Fetch (start_sector q) ?e (k + 1) # ?d # rest, ?s)"
        by (simp add: load_turn_def Let_def)
      moreover have "turn disk (Fetch (start_sector q) ?e (k + 1) # ?d # rest, ?s)
          = Some (Do (Load_Extended p' ?e (k + 1)) # ?d # rest, s1)" using extended(3) by simp
      moreover note step.IH [OF extended(4), of "?d # rest"] step.IH [OF extended(5), of rest]
      ultimately show ?thesis by (meson converse_rtranclp_into_rtranclp rtranclp_trans)
    qed
  next
    case (Load_Extended p e k)
    with step.hyps obtain q where q: "deref (BUF s) p = Some q" by (auto simp: bind_eq_Some_conv)
    let ?c = "nr_sectors q + start_sector q - 1"
    let ?s = "printPartitionDetails q ?c k s" and ?f = "Fetch (?c + 1) e (k + 1)"
    have fetch: "(turns disk)\<^sup>*\<^sup>* (?f # rest, s0) (rest, s')"
      if "getExtendedPartition disk (?c + 1) s0 = (p', s1)" "go disk (Load_Extended p' e (k + 1)) s1 = Some s'" for s0 p' s1
    proof -
      have "turn disk (?f # rest, s0) = Some (Do (Load_Extended p' e (k + 1)) # rest, s1)" using that(1) by (simp del: diff_add_cancel)
      with step.IH [OF that(2), of rest] show ?thesis by (rule_tac converse_rtranclp_into_rtranclp)
    qed
    consider (stop) "\<not> ?c \<le> e" "s' = s"
      | (plain) p' s1 where "?c \<le> e" "sys_type q \<noteq> 5" "getExtendedPartition disk (?c + 1) ?s = (p', s1)"
          "go disk (Load_Extended p' e (k + 1)) s1 = Some s'"
      | (extended) s0 p' s1 where "?c \<le> e" "sys_type q = 5" "go disk (Load_Partitions p k) s = Some s0"
          "getExtendedPartition disk (?c + 1) s0 = (p', s1)" "go disk (Load_Extended p' e (k + 1)) s1 = Some s'"
      using step.hyps q Load_Extended
      by (auto simp: Let_def bind_eq_Some_conv simp del: sizes diff_add_cancel split: if_splits prod.splits) (metis surj_pair)
    then show ?thesis
    proof cases
      case stop
      with q Load_Extended have "turn disk (Do call # rest, s) = Some (rest, s')" by (simp add: load_turn_def Let_def)
      then show ?thesis by (rule r_into_rtranclp)
    next
      case plain
      with q Load_Extended have "turn disk (Do call # rest, s) = Some (?f # rest, ?s)"
        by (simp add: load_turn_def Let_def del: diff_add_cancel)
      with fetch [OF plain(3,4)] show ?thesis by (rule_tac converse_rtranclp_into_rtranclp)
    next
      case extended
      with q Load_Extended have "turn disk (Do call # rest, s) = Some (Do (Load_Partitions p k) # ?f # rest, s)"
        by (simp add: load_turn_def Let_def del: diff_add_cancel)
      with step.IH [OF extended(3), of "?f # rest"] fetch [OF extended(4,5)] show ?thesis
        by (meson converse_rtranclp_into_rtranclp rtranclp_trans)
    qed
  qed
qed

text \<open>At a record without a partition inside the extended partition the program makes the same round again and
  again, of two turns, and prints a line in each.\<close>

definition at_gap :: "u8 list \<Rightarrow> nat \<Rightarrow> nat \<Rightarrow> todo list \<times> disk_listing \<Rightarrow> bool" where
  "at_gap disk n E x \<longleftrightarrow>
     (\<exists>k rest s. x = (Do (Load_Extended PTABLE (of_nat E) k) # rest, s) \<and> loaded disk n s)"

abbreviation lines_printed :: "todo list \<times> disk_listing \<Rightarrow> nat" where
  "lines_printed x \<equiv> length (printed (snd x))"

lemma gap_round:
  assumes "at_gap disk n E x" and "entry disk n 0 = Some r" and "start_sector r = 0" and "nr_sectors r = 0"
    and "sys_type r \<noteq> 5" and "0 < n" and "n \<le> E" and "512 * (E + 1) \<le> length disk" and "E + 1 < 2 ^ 23"
  shows "\<exists>y. (turns disk)\<^sup>+\<^sup>+ x y \<and> at_gap disk n E y \<and> lines_printed y = lines_printed x + 1"
proof -
  from assms(1) obtain k rest s where x: "x = (Do (Load_Extended PTABLE (of_nat E) k) # rest, s)"
    and ld: "loaded disk n s" by (auto simp: at_gap_def)
  let ?q = "relocated n r"
  let ?s = "printPartitionDetails ?q (nr_sectors ?q + start_sector ?q - 1) k s"
  note q = loaded_first [OF ld assms(2)]
  have ends: "nr_sectors ?q + start_sector ?q - 1 = of_nat (n - 1)"
      "nr_sectors ?q + start_sector ?q - 1 + 1 = of_nat n"
    using last_sector [of n n r] assms(3,4,6) by auto
  have le: "nr_sectors ?q + start_sector ?q - 1 \<le> of_nat E"
    unfolding ends using assms(7,9) by (subst of_nat_le) auto
  have "512 * (n + 1) \<le> length disk" "n < 2 ^ 23" "length (BUF ?s) = 512"
    using assms(7-9) q(2) by (simp_all add: printPartitionDetails_def)
  from getExtended_loads [OF this] obtain s1 where
    g: "getExtendedPartition disk (of_nat n) ?s = (PTABLE, s1)" "loaded disk n s1" "printed s1 = printed ?s" by blast
  let ?y = "(Do (Load_Extended PTABLE (of_nat E) (k + 1)) # rest, s1)"
  have "sys_type ?q \<noteq> 5" using assms(5) by (simp add: relocated_def)
  with q(1) le have "turn disk x = Some (Fetch (of_nat n) (of_nat E) (k + 1) # rest, ?s)"
    by (simp add: x load_turn_def Let_def ends(2) del: sizes diff_add_cancel)
  moreover have "turn disk (Fetch (of_nat n) (of_nat E) (k + 1) # rest, ?s) = Some ?y" using g(1) by simp
  ultimately have "(turns disk)\<^sup>+\<^sup>+ x ?y" by (meson tranclp.intros)
  moreover have "lines_printed ?y = lines_printed x + 1" by (simp add: x g(3) printPartitionDetails_def)
  ultimately show ?thesis using g(2) by (auto simp: at_gap_def)
qed

lemma gap_forever:
  assumes "(turns disk)\<^sup>*\<^sup>* x y" and "at_gap disk n E y"
    and "entry disk n 0 = Some r" and "start_sector r = 0" and "nr_sectors r = 0"
    and "sys_type r \<noteq> 5" and "0 < n" and "n \<le> E" and "512 * (E + 1) \<le> length disk" and "E + 1 < 2 ^ 23"
  shows "runs_forever (turns disk) x" and "\<exists>z. (turns disk)\<^sup>*\<^sup>* x z \<and> at_gap disk n E z \<and> l \<le> lines_printed z"
proof -
  note round = gap_round [OF _ assms(3-10)]
  show "runs_forever (turns disk) x"
    by (rule runs_forever_rounds [where P = "at_gap disk n E", OF assms(1,2)]) (use round in blast)
  show "\<exists>z. (turns disk)\<^sup>*\<^sup>* x z \<and> at_gap disk n E z \<and> l \<le> lines_printed z"
  proof (induction l)
    case 0
    from assms(1,2) show ?case by blast
  next
    case (Suc l)
    then obtain z where z: "(turns disk)\<^sup>*\<^sup>* x z" "at_gap disk n E z" "l \<le> lines_printed z" by blast
    from round [OF z(2)] obtain w where "(turns disk)\<^sup>+\<^sup>+ z w" "at_gap disk n E w" "lines_printed w = lines_printed z + 1"
      by blast
    moreover from this(1) z(1) have "(turns disk)\<^sup>*\<^sup>* x w" by (meson rtranclp_trans tranclp_into_rtranclp)
    ultimately show ?case using z(3) by (intro exI [of _ w]) simp
  qed
qed

lemma plain_table_turns:
  "boot_read disk s \<Longrightarrow> \<forall>j < m. plain_used (entry disk 0 j) \<Longrightarrow>
   \<exists>s' k'. (turns disk)\<^sup>*\<^sup>* ([Do (Load_Partitions (PTABLE + PSIZE * 0) k)], s)
     ([Do (Load_Partitions (PTABLE + PSIZE * m) k')], s') \<and> boot_read disk s'"
proof (induction m)
  case (Suc m)
  then obtain s1 k1 where s1: "(turns disk)\<^sup>*\<^sup>* ([Do (Load_Partitions (PTABLE + PSIZE * 0) k)], s)
      ([Do (Load_Partitions (PTABLE + PSIZE * m) k1)], s1)" "boot_read disk s1" by auto
  from Suc.prems(2) obtain q where q: "deref (BUF s1) (PTABLE + PSIZE * m) = Some q" "start_sector q \<noteq> 0" "sys_type q \<noteq> 5"
    using s1(2) by (auto simp: plain_used_def entry_def boot_read_def)
  let ?s = "printPartitionDetails q (nr_sectors q + start_sector q - 1) k1 s1"
  have "PTABLE + PSIZE * m + PSIZE = PTABLE + PSIZE * Suc m" by simp
  with q have "turn disk ([Do (Load_Partitions (PTABLE + PSIZE * m) k1)], s1)
      = Some ([Do (Load_Partitions (PTABLE + PSIZE * Suc m) (k1 + 1))], ?s)"
    by (simp add: load_turn_def Let_def del: sizes)
  moreover have "boot_read disk ?s" using s1(2) by (simp add: boot_read_def printPartitionDetails_def)
  ultimately show ?case using s1(1) by (meson rtranclp.rtrancl_into_rtrancl)
qed auto

text \<open>C25. An extended partition without a logical partition (its boot record is empty), first in the table
  or behind plain partitions: the program never ends. It reads the same sector for ever, printing a line each
  time; no read of this run is outside of the buffer.\<close>

theorem empty_extended_never_ends:
  assumes "\<forall>j < m. plain_used (entry disk 0 j)" and "m < 4"
    and "entry disk 0 m = Some x" and "sys_type x = 5" and "start_sector x \<noteq> 0"
    and "entry disk (unat (start_sector x)) 0 = Some r" and "start_sector r = 0" and "nr_sectors r = 0"
    and "sys_type r \<noteq> 5"
    and "E = unat (start_sector x) + unat (nr_sectors x) - 1" and "nr_sectors x \<noteq> 0"
    and "512 * (E + 1) \<le> length disk" and "E + 1 < 2 ^ 23"
  shows "runs_forever (turns disk) ([Do (Load_Partitions PTABLE 1)], opened (Some disk))
    \<and> (\<forall>l. \<exists>z. (turns disk)\<^sup>*\<^sup>* ([Do (Load_Partitions PTABLE 1)], opened (Some disk)) z \<and> l \<le> lines_printed z)
    \<and> main_list (Some disk) = None"
proof -
  define S where "S = unat (start_sector x)"
  let ?a = "([Do (Load_Partitions PTABLE 1)], opened (Some disk))"
  have S: "0 < S" "S \<le> E" "start_sector x = of_nat S"
    using assms(5,10,11) by (auto simp: S_def simp flip: unat_gt_0)
  have e: "nr_sectors x + start_sector x - 1 = of_nat E"
  proof -
    have "E + 1 = 0 + unat (start_sector x) + unat (nr_sectors x)"
      using S(1) assms(10) unfolding S_def by simp
    from last_sector(1) [OF this] show ?thesis by (simp add: relocated_def)
  qed
  have "boot_read disk (opened (Some disk))"
    using assms(12) by (simp add: boot_read_def opened_def readDisk_def read_at_def sector_bytes_def Let_def)
  from plain_table_turns [OF this assms(1), of 1] obtain s k where
    s: "(turns disk)\<^sup>*\<^sup>* ?a ([Do (Load_Partitions (PTABLE + PSIZE * m) k)], s)" "boot_read disk s" by auto
  from s(2) assms(3) have x: "deref (BUF s) (PTABLE + PSIZE * m) = Some x" by (simp add: boot_read_def entry_def)
  let ?t = "printPartitionDetails x (of_nat E) k s" and ?d = "Do (Load_Partitions (PTABLE + PSIZE * m + PSIZE) (k + 1))"
  have "512 * (S + 1) \<le> length disk" "S < 2 ^ 23" "length (BUF ?t) = 512"
    using S assms(12,13) s(2) by (auto simp: boot_read_def printPartitionDetails_def sector_bytes_def)
  from getExtended_loads [OF this] obtain s1 where
    g: "getExtendedPartition disk (start_sector x) ?t = (PTABLE, s1)" "loaded disk S s1" unfolding S(3) by blast
  let ?g = "([Do (Load_Extended PTABLE (of_nat E) (k + 1)), ?d], s1)"
  have "turn disk ([Do (Load_Partitions (PTABLE + PSIZE * m) k)], s)
      = Some ([Fetch (start_sector x) (of_nat E) (k + 1), ?d], ?t)"
    using x assms(4,5) e by (simp add: load_turn_def Let_def del: sizes)
  moreover have "turn disk ([Fetch (start_sector x) (of_nat E) (k + 1), ?d], ?t) = Some ?g" using g(1) by simp
  ultimately have to: "(turns disk)\<^sup>*\<^sup>* ?a ?g" using s(1) by (meson rtranclp.rtrancl_into_rtrancl)
  have "at_gap disk S E ?g" using g(2) by (auto simp: at_gap_def)
  note gap = gap_forever [OF to this assms(6) [folded S_def] assms(7-9) S(1,2) assms(12,13)]
  have "main_list (Some disk) = None"
  proof (rule ccontr)
    assume "main_list (Some disk) \<noteq> None"
    then obtain s' where "run disk (Load_Partitions PTABLE 1) (opened (Some disk)) = Some s'"
      by (auto simp: main_list_def LoadPartitions_def)
    from runs_forever_unending [OF gap(1) run_turns [OF this, of "[]"]] show False by simp
  qed
  with gap show ?thesis by blast
qed

text \<open>A disk of a plain partition of a sector and an empty extended one of two.\<close>

definition empty_extended_disk :: "u8 list" where
  "empty_extended_disk = record_bytes (entry_bytes 131 1 1) (entry_bytes 5 2 2) @ data_sector @ data_sector @ data_sector"

lemma data_sector_record: "data_sector = record_bytes empty_entry empty_entry"
  by (simp add: data_sector_def record_bytes_def empty_entry_def entry_bytes_def
      numeral_eq_Suc replicate_app_Cons_same)

theorem empty_extended_never_ends_witness:
  "runs_forever (turns empty_extended_disk)
     ([Do (Load_Partitions PTABLE 1)], opened (Some empty_extended_disk)) \<and>
   main_list (Some empty_extended_disk) = None"
proof -
  have e: "\<forall>j < 1. plain_used (entry empty_extended_disk 0 j)"
    "entry empty_extended_disk 0 1 = Some (plain_part 5 2 2)"
    by (simp_all add: plain_used_def empty_extended_disk_def small_disk_simps)
  have "entry empty_extended_disk (unat (start_sector (plain_part 5 2 2))) 0 = Some (plain_part 0 0 0)"
    by (simp add: empty_extended_disk_def data_sector_record small_disk_simps)
  note r = this
  have len: "512 * (3 + 1) \<le> length empty_extended_disk" by (simp add: empty_extended_disk_def)
  have p: "3 = unat (start_sector (plain_part 5 2 2)) + unat (nr_sectors (plain_part 5 2 2)) - 1"
    "sys_type (plain_part 5 2 2) = 5" "start_sector (plain_part 5 2 2) \<noteq> 0" "nr_sectors (plain_part 5 2 2) \<noteq> 0"
    "start_sector (plain_part 0 0 0) = 0" "nr_sectors (plain_part 0 0 0) = 0" "sys_type (plain_part 0 0 0) \<noteq> 5"
    by (simp_all add: plain_part_def)
  have "(1::nat) < 4" "3 + 1 < (2::nat) ^ 23" by simp_all
  from empty_extended_never_ends [OF e(1) this(1) e(2) p(2,3) r p(5-7) p(1) p(4) len this(2)] show ?thesis by blast
qed

end
