(* ===== verification/ForkJoin.thy ===== *)
theory ForkJoin
  imports Main
begin

text \<open>
  Threads that a main thread creates and joins, as both matrix programs of \<^verbatim>\<open>PreLab4\<close> do: the
  interleaving of the main thread with the created ones, given what one thread does in a step, and
  the contract under which every interleaving ends with all threads joined.
\<close>

section \<open>The main thread and the interleaving\<close>

datatype phase = Create nat | Join nat | Joined

record ('l, 'g) forkjoin =
  phase :: phase
  thread :: "nat \<Rightarrow> 'l option"
  shared :: 'g

datatype actor = Main_Thread | Thread nat

text \<open>The loops of \<^verbatim>\<open>pthread_create\<close> and \<^verbatim>\<open>pthread_join\<close>; \<open>None\<close> is a call that blocks.\<close>

definition forkjoin_main :: "nat \<Rightarrow> 'l \<Rightarrow> ('l \<Rightarrow> bool) \<Rightarrow> ('l, 'g) forkjoin \<Rightarrow> ('l, 'g) forkjoin option" where
  "forkjoin_main m fresh exited s =
     (case phase s of
        Create i \<Rightarrow>
          if i < m then Some (s\<lparr>phase := Create (i + 1), thread := (thread s)(i \<mapsto> fresh)\<rparr>)
          else Some (s\<lparr>phase := Join 0\<rparr>)
      | Join i \<Rightarrow>
          if i < m then
            (case thread s i of
               None \<Rightarrow> None
             | Some l \<Rightarrow> if exited l then Some (s\<lparr>phase := Join (i + 1)\<rparr>) else None)
          else Some (s\<lparr>phase := Joined\<rparr>)
      | Joined \<Rightarrow> None)"

definition thread_step :: "(nat \<Rightarrow> 'l \<Rightarrow> 'g \<Rightarrow> ('l \<times> 'g) option) \<Rightarrow> nat \<Rightarrow> ('l, 'g) forkjoin \<Rightarrow> ('l, 'g) forkjoin option" where
  "thread_step tstep r s =
     (case thread s r of
        None \<Rightarrow> None
      | Some l \<Rightarrow>
          (case tstep r l (shared s) of
             None \<Rightarrow> None
           | Some (l', g) \<Rightarrow> Some (s\<lparr>thread := (thread s)(r \<mapsto> l'), shared := g\<rparr>)))"

fun exec :: "nat \<Rightarrow> 'l \<Rightarrow> ('l \<Rightarrow> bool) \<Rightarrow> (nat \<Rightarrow> 'l \<Rightarrow> 'g \<Rightarrow> ('l \<times> 'g) option) \<Rightarrow> actor list
    \<Rightarrow> ('l, 'g) forkjoin \<Rightarrow> ('l, 'g) forkjoin option" where
  "exec m fresh exited tstep [] s = Some s"
| "exec m fresh exited tstep (a # as) s =
     (case (case a of Main_Thread \<Rightarrow> forkjoin_main m fresh exited s | Thread r \<Rightarrow> thread_step tstep r s) of
        None \<Rightarrow> None
      | Some s' \<Rightarrow> exec m fresh exited tstep as s')"

definition before :: "'g \<Rightarrow> ('l, 'g) forkjoin" where
  "before g = \<lparr>phase = Create 0, thread = Map.empty, shared = g\<rparr>"

section \<open>The contract of a thread\<close>

locale fork_join =
  fixes m :: nat
    and fresh :: 'l
    and exited :: "'l \<Rightarrow> bool"
    and tstep :: "nat \<Rightarrow> 'l \<Rightarrow> 'g \<Rightarrow> ('l \<times> 'g) option"
    and g0 :: 'g
    and inv :: "(nat \<Rightarrow> 'l option) \<Rightarrow> 'g \<Rightarrow> bool"
    and weight :: "'l \<Rightarrow> nat"
  assumes inv_start: "inv Map.empty g0"
    and inv_create: "inv th g \<Longrightarrow> r < m \<Longrightarrow> th r = None \<Longrightarrow> inv (th(r \<mapsto> fresh)) g"
    and inv_step: "inv th g \<Longrightarrow> r < m \<Longrightarrow> th r = Some l \<Longrightarrow> tstep r l g = Some (l', g') \<Longrightarrow> inv (th(r \<mapsto> l')) g'"
    and progress: "inv th g \<Longrightarrow> th r = Some l \<Longrightarrow> \<not> exited l \<Longrightarrow>
      \<exists>r l. th r = Some l \<and> tstep r l g \<noteq> None"
    and exited_stays: "exited l \<Longrightarrow> tstep r l g = None"
    and weight_less: "tstep r l g = Some (l', g') \<Longrightarrow> weight l' < weight l"
begin

abbreviation do_step :: "actor \<Rightarrow> ('l, 'g) forkjoin \<Rightarrow> ('l, 'g) forkjoin option" where
  "do_step a s \<equiv> (case a of Main_Thread \<Rightarrow> forkjoin_main m fresh exited s | Thread r \<Rightarrow> thread_step tstep r s)"

text \<open>What the main thread knows of the others in each phase.\<close>

definition coherent :: "('l, 'g) forkjoin \<Rightarrow> bool" where
  "coherent s \<longleftrightarrow>
     (case phase s of
        Create i \<Rightarrow> i \<le> m \<and> dom (thread s) = {..<i}
      | Join i \<Rightarrow> i \<le> m \<and> dom (thread s) = {..<m} \<and> (\<forall>r < i. \<exists>l. thread s r = Some l \<and> exited l)
      | Joined \<Rightarrow> dom (thread s) = {..<m} \<and> (\<forall>r < m. \<exists>l. thread s r = Some l \<and> exited l))"

definition ok :: "('l, 'g) forkjoin \<Rightarrow> bool" where
  "ok s \<longleftrightarrow> coherent s \<and> inv (thread s) (shared s)"

lemma ok_before: "ok (before g0)"
  by (simp add: ok_def coherent_def before_def inv_start)

lemma ok_main:
  assumes "ok s" and "forkjoin_main m fresh exited s = Some s'"
  shows "ok s'"
proof (cases "phase s")
  case (Create i)
  with assms(1) have "thread s i = None" by (auto simp: ok_def coherent_def dom_def set_eq_iff)
  with Create assms show ?thesis
    using inv_create [of "thread s" "shared s" i]
    by (auto simp: ok_def coherent_def forkjoin_main_def lessThan_Suc split: if_splits)
next
  case (Join i)
  with assms show ?thesis
    by (auto simp: ok_def coherent_def forkjoin_main_def less_Suc_eq split: if_splits option.splits)
next
  case Joined
  with assms show ?thesis by (simp add: forkjoin_main_def)
qed

lemma dom_bound: "ok s \<Longrightarrow> thread s r = Some l \<Longrightarrow> r < m"
  by (auto simp: ok_def coherent_def dom_def set_eq_iff split: phase.splits) (metis less_le_trans)

lemma ok_thread:
  assumes "ok s" and "thread_step tstep r s = Some s'"
  shows "ok s'"
proof -
  from assms(2) obtain l l' g where l: "thread s r = Some l" and t: "tstep r l (shared s) = Some (l', g)"
    and s': "s' = s\<lparr>thread := (thread s)(r \<mapsto> l'), shared := g\<rparr>"
    by (auto simp: thread_step_def split: option.splits)
  have "inv ((thread s)(r \<mapsto> l')) g"
    using inv_step [of "thread s" "shared s" r l l' g] dom_bound [OF assms(1) l] l t assms(1)
    by (simp add: ok_def)
  moreover have "dom ((thread s)(r \<mapsto> l')) = dom (thread s)" using l by auto
  moreover have "\<not> exited l" using exited_stays t by force
  ultimately show ?thesis
    using assms(1) l unfolding s' ok_def coherent_def by (fastforce split: phase.splits)
qed

lemma ok_exec: "ok s \<Longrightarrow> exec m fresh exited tstep as s = Some s' \<Longrightarrow> ok s'"
  by (induction as arbitrary: s) (auto split: option.splits actor.splits dest: ok_main ok_thread)

text \<open>No reachable state but the last is stuck.\<close>

lemma not_stuck:
  assumes "ok s" and "phase s \<noteq> Joined"
  shows "\<exists>a. do_step a s \<noteq> None"
proof (cases "forkjoin_main m fresh exited s")
  case None
  with assms(2) obtain i where i: "phase s = Join i" "i < m"
    by (auto simp: forkjoin_main_def split: phase.splits if_splits)
  with assms(1) obtain l where l: "thread s i = Some l" by (auto simp: ok_def coherent_def dom_def set_eq_iff)
  with None i have "\<not> exited l" by (auto simp: forkjoin_main_def)
  with progress l assms(1) obtain r l' where "thread s r = Some l'" "tstep r l' (shared s) \<noteq> None"
    unfolding ok_def by metis
  then have "do_step (Thread r) s \<noteq> None" by (auto simp: thread_step_def split: option.splits)
  then show ?thesis by blast
next
  case (Some s')
  then have "do_step Main_Thread s \<noteq> None" by simp
  then show ?thesis by blast
qed

text \<open>The steps that are left.\<close>

definition left :: "('l, 'g) forkjoin \<Rightarrow> nat" where
  "left s =
     (case phase s of Create i \<Rightarrow> 2 * m + 2 - i | Join i \<Rightarrow> m + 1 - i | Joined \<Rightarrow> 0)
     + (\<Sum>r<m. case thread s r of None \<Rightarrow> weight fresh | Some l \<Rightarrow> weight l)"

lemma left_main: "ok s \<Longrightarrow> forkjoin_main m fresh exited s = Some s' \<Longrightarrow> left s' < left s"
proof (cases "phase s")
  case (Create i)
  assume "ok s" "forkjoin_main m fresh exited s = Some s'"
  moreover from this(1) Create have "thread s i = None"
    by (auto simp: ok_def coherent_def dom_def set_eq_iff)
  then have "(\<Sum>r<m. case ((thread s)(i \<mapsto> fresh)) r of None \<Rightarrow> weight fresh | Some l \<Rightarrow> weight l)
    = (\<Sum>r<m. case thread s r of None \<Rightarrow> weight fresh | Some l \<Rightarrow> weight l)"
    by (intro sum.cong) auto
  ultimately show ?thesis
    using Create by (auto simp: left_def forkjoin_main_def ok_def coherent_def split: if_splits)
qed (auto simp: left_def forkjoin_main_def ok_def coherent_def split: if_splits option.splits)

lemma left_thread:
  assumes "ok s" and "thread_step tstep r s = Some s'"
  shows "left s' < left s"
proof -
  from assms(2) obtain l l' g where l: "thread s r = Some l" and t: "tstep r l (shared s) = Some (l', g)"
    and s': "s' = s\<lparr>thread := (thread s)(r \<mapsto> l'), shared := g\<rparr>"
    by (auto simp: thread_step_def split: option.splits)
  have "(\<Sum>k<m. case ((thread s)(r \<mapsto> l')) k of None \<Rightarrow> weight fresh | Some l \<Rightarrow> weight l)
    < (\<Sum>k<m. case thread s k of None \<Rightarrow> weight fresh | Some l \<Rightarrow> weight l)"
    using dom_bound [OF assms(1) l] l weight_less [OF t]
    by (intro sum_strict_mono_ex1) (auto intro!: bexI [of _ r])
  then show ?thesis by (simp add: left_def s')
qed

lemma exec_short: "ok s \<Longrightarrow> exec m fresh exited tstep as s = Some s' \<Longrightarrow> length as + left s' \<le> left s"
proof (induction as arbitrary: s)
  case (Cons a as)
  from Cons.prems(2) obtain s1 where s1: "do_step a s = Some s1" "exec m fresh exited tstep as s1 = Some s'"
    by (auto split: option.splits)
  then have "ok s1" "left s1 < left s"
    using Cons.prems(1) by (auto split: actor.splits dest: ok_main ok_thread left_main left_thread)
  with Cons.IH s1(2) show ?case by fastforce
qed simp

lemma exec_append:
  "exec m fresh exited tstep (as @ bs) s = Option.bind (exec m fresh exited tstep as s) (exec m fresh exited tstep bs)"
  by (induction as arbitrary: s) (auto split: option.splits)

text \<open>Every run can be continued to the end.\<close>

lemma finishes:
  "ok s \<Longrightarrow> \<exists>as s'. exec m fresh exited tstep as s = Some s' \<and> phase s' = Joined"
proof (induction "left s" arbitrary: s rule: less_induct)
  case less
  show ?case
  proof (cases "phase s = Joined")
    case True
    then have "exec m fresh exited tstep [] s = Some s \<and> phase s = Joined" by simp
    then show ?thesis by blast
  next
    case False
    from not_stuck [OF less.prems False] obtain a s1 where a: "do_step a s = Some s1" by blast
    then have "ok s1" "left s1 < left s"
      using less.prems by (auto split: actor.splits dest: ok_main ok_thread left_main left_thread)
    with less.hyps obtain as s' where "exec m fresh exited tstep as s1 = Some s'" "phase s' = Joined" by blast
    with a have "exec m fresh exited tstep (a # as) s = Some s' \<and> phase s' = Joined" by simp
    then show ?thesis by blast
  qed
qed

text \<open>The contract as one statement: a schedule is bounded, can be continued to the end, and at the
  end all threads have exited and the invariant holds.\<close>

theorem schedule:
  assumes "exec m fresh exited tstep as (before g0) = Some s"
  shows "length as \<le> 2 * m + 2 + m * weight fresh"
    and "\<exists>bs s'. exec m fresh exited tstep (as @ bs) (before g0) = Some s' \<and> phase s' = Joined"
    and "phase s = Joined \<Longrightarrow> (\<forall>r < m. \<exists>l. thread s r = Some l \<and> exited l) \<and> dom (thread s) = {..<m}"
    and "inv (thread s) (shared s)"
proof -
  note ok = ok_exec [OF ok_before assms]
  have "left (before g0) = 2 * m + 2 + m * weight fresh" by (simp add: left_def before_def)
  with exec_short [OF ok_before assms] show "length as \<le> 2 * m + 2 + m * weight fresh" by simp
  from finishes [OF ok] obtain bs s' where "exec m fresh exited tstep bs s = Some s'" "phase s' = Joined" by blast
  with assms show "\<exists>bs s'. exec m fresh exited tstep (as @ bs) (before g0) = Some s' \<and> phase s' = Joined"
    by (auto simp: exec_append intro!: exI [of _ bs] exI [of _ s'])
  show "phase s = Joined \<Longrightarrow> (\<forall>r < m. \<exists>l. thread s r = Some l \<and> exited l) \<and> dom (thread s) = {..<m}"
    and "inv (thread s) (shared s)"
    using ok by (simp_all add: ok_def coherent_def)
qed

end

end
