(* ===== verification/MatrixSum.thy ===== *)
theory MatrixSum
  imports ForkJoin Text Words
begin

text \<open>
  \<^verbatim>\<open>PreLab4/Code/Part1.c\<close> and \<^verbatim>\<open>Part2.c\<close>: a matrix summed by a thread per row. In the first
  program each thread stores its row sum in a place of its own; in the second all add to one total
  under a mutex. The scripts build both with \<^verbatim>\<open>-m32\<close>: an \<^verbatim>\<open>int\<close> and a \<^verbatim>\<open>long\<close> are words of 32 bits, and
  sums of them that do not fit wrap. A step of a thread is one iteration of its loop or one statement
  behind it.
\<close>

type_synonym long = u32

section \<open>The matrix\<close>

definition ROWS :: nat where "ROWS = 4"
definition COLS1 :: nat where "COLS1 = 50000"
definition COLS2 :: nat where "COLS2 = 50"

definition A :: "nat \<Rightarrow> nat \<Rightarrow> u32" where
  "A i j = of_nat i + of_nat j + 1"

section \<open>Part 1: a sum per thread\<close>

datatype summing = Begin | Sum nat u32 | Stored | Ended

record part1 =
  row_sums :: "nat \<Rightarrow> long"
  messages :: "string list"

definition func1 :: "nat \<Rightarrow> summing \<Rightarrow> part1 \<Rightarrow> (summing \<times> part1) option" where
  "func1 row l g =
     (case l of
        Begin \<Rightarrow> Some (Sum 0 0, g\<lparr>messages := messages g @
          [''Thread '' @ dec (int row) @ '' computes sum of row '' @ dec (int row) @ [newline]]\<rparr>)
      | Sum j mysum \<Rightarrow>
          if j < COLS1 then Some (Sum (j + 1) (mysum + A row j), g)
          else Some (Stored, g\<lparr>row_sums := (row_sums g)(row := mysum)\<rparr>)
      | Stored \<Rightarrow> Some (Ended, g\<lparr>messages := messages g @
          [''Thread '' @ dec (int row) @ '' Done: sum['' @ dec (int row) @ ''] = ''
            @ dec (sint (row_sums g row)) @ [newline]]\<rparr>)
      | Ended \<Rightarrow> None)"

definition globals1 :: part1 where
  "globals1 = \<lparr>row_sums = \<lambda>_. 0, messages = []\<rparr>"

fun total_loop :: "(nat \<Rightarrow> long) \<Rightarrow> nat \<Rightarrow> long" where
  "total_loop sums 0 = 0"
| "total_loop sums (Suc i) = total_loop sums i + sums i"

definition run1 :: "actor list \<Rightarrow> (summing, part1) forkjoin option" where
  "run1 sched = exec ROWS Begin (\<lambda>l. l = Ended) func1 sched (before globals1)"

definition total1 :: "(summing, part1) forkjoin \<Rightarrow> long" where
  "total1 s = total_loop (row_sums (shared s)) ROWS"

section \<open>Part 2: one total under a mutex\<close>

text \<open>The points of \<^verbatim>\<open>func\<close>: the loop, the lock, the four statements of the critical region, the unlock
  and the exit.\<close>

datatype adding = Add nat u32 | Lock u32 | Get u32 | Plus u32 u32 | Sleep u32 | Put u32 | Unlock | Leave | Gone

record part2 =
  mutex :: "nat option"
  total :: long

definition func2 :: "nat \<Rightarrow> adding \<Rightarrow> part2 \<Rightarrow> (adding \<times> part2) option" where
  "func2 row l g =
     (case l of
        Add i mysum \<Rightarrow> if i < COLS2 then Some (Add (i + 1) (mysum + A row i), g) else Some (Lock mysum, g)
      | Lock mysum \<Rightarrow> if mutex g = None then Some (Get mysum, g\<lparr>mutex := Some row\<rparr>) else None
      | Get mysum \<Rightarrow> Some (Plus mysum (total g), g)
      | Plus mysum temp \<Rightarrow> Some (Sleep (temp + mysum), g)
      | Sleep temp \<Rightarrow> Some (Put temp, g)
      | Put temp \<Rightarrow> Some (Unlock, g\<lparr>total := temp\<rparr>)
      | Unlock \<Rightarrow> Some (Leave, g\<lparr>mutex := None\<rparr>)
      | Leave \<Rightarrow> Some (Gone, g)
      | Gone \<Rightarrow> None)"

text \<open>A test starts with the total reset and the mutex free.\<close>

definition globals2 :: part2 where
  "globals2 = \<lparr>mutex = None, total = 0\<rparr>"

definition run2 :: "actor list \<Rightarrow> (adding, part2) forkjoin option" where
  "run2 sched = exec ROWS (Add 0 0) (\<lambda>l. l = Gone) func2 sched (before globals2)"

text \<open>What main makes of the totals of its tests: the first is the answer, the others are compared.\<close>

fun count_tests :: "nat \<Rightarrow> long \<Rightarrow> nat \<Rightarrow> long list \<Rightarrow> nat" where
  "count_tests count answer incorrectCount [] = incorrectCount"
| "count_tests count answer incorrectCount (t # ts) =
     (if count = 1 then count_tests (count + 1) t incorrectCount ts
      else if t \<noteq> answer then count_tests (count + 1) answer (incorrectCount + 1) ts
      else count_tests (count + 1) answer incorrectCount ts)"

definition incorrect_totals :: "long list \<Rightarrow> nat" where
  "incorrect_totals totals = count_tests 1 0 0 totals"

section \<open>Row sums\<close>

definition row_part :: "nat \<Rightarrow> nat \<Rightarrow> nat" where
  "row_part r j = (\<Sum>k<j. r + k + 1)"

lemma row_part_closed: "2 * row_part r j = j * (2 * r + j + 1)"
  by (induction j) (simp_all add: row_part_def algebra_simps)

lemma row_part_simps [simp]: "row_part r 0 = 0" "row_part r (Suc j) = row_part r j + (r + j + 1)"
  by (simp_all add: row_part_def)

lemma row1: "row_part r COLS1 = 50000 * r + 1250025000"
  using row_part_closed [of r COLS1] by (simp add: COLS1_def)

lemma row2: "row_part r COLS2 = 50 * r + 1275"
  using row_part_closed [of r COLS2] by (simp add: COLS2_def)

lemma sint_long: "n < 2 ^ 31 \<Longrightarrow> sint (of_nat n :: long) = int n"
  by (simp add: signed_of_nat signed_take_bit_int_eq_self)

lemma total_loop_rows: "total_loop f ROWS = f 0 + f 1 + f 2 + f 3"
  by (simp add: ROWS_def numeral_eq_Suc)

lemma sum_rows: "(\<Sum>r<ROWS. f r) = f 0 + f 1 + f 2 + (f 3 :: nat)"
  by (simp add: ROWS_def numeral_eq_Suc)

section \<open>Part 1 keeps the contract\<close>

definition local1 :: "nat \<Rightarrow> summing \<Rightarrow> part1 \<Rightarrow> bool" where
  "local1 r l g \<longleftrightarrow>
     (case l of
        Begin \<Rightarrow> True
      | Sum j a \<Rightarrow> j \<le> COLS1 \<and> a = of_nat (row_part r j)
      | _ \<Rightarrow> row_sums g r = of_nat (row_part r COLS1))"

definition inv1 :: "(nat \<Rightarrow> summing option) \<Rightarrow> part1 \<Rightarrow> bool" where
  "inv1 th g \<longleftrightarrow> (\<forall>r l. th r = Some l \<longrightarrow> local1 r l g)"

fun weight1 :: "summing \<Rightarrow> nat" where
  "weight1 Begin = COLS1 + 3"
| "weight1 (Sum j a) = COLS1 - j + 2"
| "weight1 Stored = 1"
| "weight1 Ended = 0"

lemma local1_step:
  assumes "local1 r l g" and "r < ROWS" and "func1 r l g = Some (l', g')"
  shows "local1 r l' g'" and "\<forall>k. k \<noteq> r \<longrightarrow> row_sums g' k = row_sums g k"
proof -
  show "local1 r l' g'"
    using assms(1,3)
    by (auto simp: local1_def func1_def A_def algebra_simps split: summing.splits if_splits)
  show "\<forall>k. k \<noteq> r \<longrightarrow> row_sums g' k = row_sums g k"
    using assms(3) by (auto simp: func1_def split: summing.splits if_splits)
qed

lemma local1_frame: "row_sums g' r = row_sums g r \<Longrightarrow> local1 r l g \<Longrightarrow> local1 r l g'"
  by (simp add: local1_def split: summing.splits)

interpretation p1: fork_join ROWS Begin "\<lambda>l. l = Ended" func1 globals1 inv1 weight1
proof
  show "inv1 (th(r \<mapsto> l')) g'"
    if "inv1 th g" "r < ROWS" "th r = Some l" "func1 r l g = Some (l', g')" for th g r l l' g'
  proof -
    from that(1,3) have "local1 r l g" by (simp add: inv1_def)
    from local1_step [OF this that(2,4)] that(1) local1_frame show ?thesis
      by (auto simp: inv1_def)
  qed
  show "\<exists>r l. th r = Some l \<and> func1 r l g \<noteq> None"
    if "inv1 th g" "th r = Some l" "l \<noteq> Ended" for th g r l
    using that by (intro exI [of _ r] exI [of _ l]) (auto simp: func1_def split: summing.splits)
qed (auto simp: inv1_def local1_def func1_def split: summing.splits if_splits)

text \<open>C28. Whatever the order of the steps of the five threads, the program of part 1 does not get stuck
  and ends after a bounded number of steps. At the end the row sums are exact, but their total, which
  the program prints, is not their sum: \<^verbatim>\<open>long\<close> has 32 bits, and what is left of 5000400000 is 705432704.\<close>

theorem part1_any_schedule:
  assumes "run1 sched = Some s"
  shows "length sched \<le> 200022
    \<and> (\<exists>rest s'. run1 (sched @ rest) = Some s' \<and> phase s' = Joined)
    \<and> (phase s = Joined \<longrightarrow> (\<forall>r < 4. sint (row_sums (shared s) r) = 50000 * int r + 1250025000)
      \<and> (\<Sum>r<4. sint (row_sums (shared s) r)) = 5000400000
      \<and> sint (total1 s) = 705432704)"
proof (intro conjI impI)
  note sch = p1.schedule [OF assms [unfolded run1_def]]
  show "length sched \<le> 200022" using sch(1) by (simp add: ROWS_def COLS1_def)
  show "\<exists>rest s'. run1 (sched @ rest) = Some s' \<and> phase s' = Joined" using sch(2) by (simp add: run1_def)
  assume "phase s = Joined"
  with sch(3,4) have rows: "row_sums (shared s) r = of_nat (50000 * r + 1250025000)" if "r < 4" for r
    using that by (fastforce simp: inv1_def local1_def row1 ROWS_def)
  have exact: "sint (row_sums (shared s) r) = 50000 * int r + 1250025000" if "r < 4" for r
    using that unfolding rows [OF that] by (subst sint_long) simp_all
  then show "\<forall>r < 4. sint (row_sums (shared s) r) = 50000 * int r + 1250025000"
    and "(\<Sum>r<4. sint (row_sums (shared s) r)) = 5000400000"
    by (simp_all add: lessThan_Suc eval_nat_numeral)
  show "sint (total1 s) = 705432704"
    by (simp add: total1_def total_loop_rows rows)
qed

theorem part1_any_schedule_witness:
  "\<exists>sched s. run1 sched = Some s \<and> phase s = Joined \<and> sint (total1 s) = 705432704"
proof -
  have "run1 [] = Some (before globals1)" by (simp add: run1_def)
  from part1_any_schedule [OF this] obtain sched s where s: "run1 sched = Some s" "phase s = Joined" by auto
  with part1_any_schedule [OF s(1)] show ?thesis by blast
qed

section \<open>Part 2 keeps the contract\<close>

definition in_region :: "adding \<Rightarrow> bool" where
  "in_region l = (case l of Add i a \<Rightarrow> False | Lock a \<Rightarrow> False | Leave \<Rightarrow> False | Gone \<Rightarrow> False | _ \<Rightarrow> True)"

definition written :: "adding option \<Rightarrow> bool" where
  "written l = (case l of Some Unlock \<Rightarrow> True | Some Leave \<Rightarrow> True | Some Gone \<Rightarrow> True | _ \<Rightarrow> False)"

text \<open>The sum of the rows that have been added to the total.\<close>

definition added :: "(nat \<Rightarrow> adding option) \<Rightarrow> nat" where
  "added th = (\<Sum>r<ROWS. if written (th r) then row_part r COLS2 else 0)"

definition local2 :: "nat \<Rightarrow> adding \<Rightarrow> part2 \<Rightarrow> bool" where
  "local2 r l g \<longleftrightarrow>
     (case l of
        Add j a \<Rightarrow> j \<le> COLS2 \<and> a = of_nat (row_part r j)
      | Lock a \<Rightarrow> a = of_nat (row_part r COLS2)
      | Get a \<Rightarrow> a = of_nat (row_part r COLS2)
      | Plus a temp \<Rightarrow> a = of_nat (row_part r COLS2) \<and> temp = total g
      | Sleep temp \<Rightarrow> temp = total g + of_nat (row_part r COLS2)
      | Put temp \<Rightarrow> temp = total g + of_nat (row_part r COLS2)
      | _ \<Rightarrow> True)"

definition inv2 :: "(nat \<Rightarrow> adding option) \<Rightarrow> part2 \<Rightarrow> bool" where
  "inv2 th g \<longleftrightarrow>
     (\<forall>r l. th r = Some l \<longrightarrow> local2 r l g \<and> (in_region l \<longleftrightarrow> mutex g = Some r))
     \<and> (\<forall>r. mutex g = Some r \<longrightarrow> th r \<noteq> None)
     \<and> total g = of_nat (added th)"

fun weight2 :: "adding \<Rightarrow> nat" where
  "weight2 (Add j a) = COLS2 - j + 8"
| "weight2 (Lock a) = 7"
| "weight2 (Get a) = 6"
| "weight2 (Plus a t) = 5"
| "weight2 (Sleep t) = 4"
| "weight2 (Put t) = 3"
| "weight2 Unlock = 2"
| "weight2 Leave = 1"
| "weight2 Gone = 0"

lemma added_upd:
  "r < ROWS \<Longrightarrow> added (th(r \<mapsto> l)) + (if written (th r) then row_part r COLS2 else 0)
    = added th + (if written (Some l) then row_part r COLS2 else 0)"
  by (simp add: added_def sum.remove [of "{..<ROWS}" r])

lemma func2_frame:
  assumes "inv2 th g" and "th r = Some l" and "func2 r l g = Some (l', g')" and "k \<noteq> r" and "th k = Some lk"
  shows "local2 k lk g'" and "in_region lk \<longleftrightarrow> mutex g' = Some k"
proof -
  from assms(1,5) have k: "local2 k lk g" "in_region lk \<longleftrightarrow> mutex g = Some k" by (auto simp: inv2_def)
  from assms(1,2) have r: "in_region l \<longleftrightarrow> mutex g = Some r" by (auto simp: inv2_def)
  have keep: "total g' = total g \<or> \<not> in_region lk"
    using assms(3,4) r k(2) by (auto simp: func2_def in_region_def split: adding.splits if_splits)
  then show "local2 k lk g'"
    using k(1) by (auto simp: local2_def in_region_def split: adding.splits)
  show "in_region lk \<longleftrightarrow> mutex g' = Some k"
    using assms(3,4) r k(2) by (auto simp: func2_def in_region_def split: adding.splits if_splits)
qed

lemma inv2_step:
  assumes inv: "inv2 th g" and r: "r < ROWS" and l: "th r = Some l" and st: "func2 r l g = Some (l', g')"
  shows "inv2 (th(r \<mapsto> l')) g'"
proof -
  from inv l have lr: "local2 r l g" "in_region l \<longleftrightarrow> mutex g = Some r" "total g = of_nat (added th)"
    by (auto simp: inv2_def)
  note up = added_upd [OF r, of th l']
  have own: "local2 r l' g' \<and> (in_region l' \<longleftrightarrow> mutex g' = Some r)"
    using st lr(1,2) by (auto simp: func2_def local2_def in_region_def A_def algebra_simps split: adding.splits if_splits)
  have tot: "total g' = of_nat (added (th(r \<mapsto> l')))"
  proof (cases l)
    case (Put temp)
    with st lr(1,3) have "total g' = of_nat (added th + row_part r COLS2)"
      by (auto simp: func2_def local2_def)
    then show ?thesis using up st l Put by (auto simp: func2_def written_def)
  qed (use up st l lr(3) in \<open>auto simp: func2_def written_def split: if_splits\<close>)
  have ms: "\<forall>k. mutex g' = Some k \<longrightarrow> (th(r \<mapsto> l')) k \<noteq> None"
    using st inv by (auto simp: func2_def inv2_def split: adding.splits if_splits)
  from own tot ms func2_frame [OF inv l st] show ?thesis by (auto simp: inv2_def)
qed

lemma progress2:
  assumes inv: "inv2 th g" and l: "th r = Some l" "l \<noteq> Gone"
  shows "\<exists>r l. th r = Some l \<and> func2 r l g \<noteq> None"
proof (cases "mutex g")
  case None
  with l show ?thesis by (intro exI [of _ r] exI [of _ l]) (auto simp: func2_def split: adding.splits)
next
  case (Some k)
  with inv obtain lk where "th k = Some lk" "in_region lk" by (auto simp: inv2_def)
  then show ?thesis
    by (intro exI [of _ k] exI [of _ lk]) (auto simp: func2_def in_region_def split: adding.splits)
qed

interpretation p2: fork_join ROWS "Add 0 0" "\<lambda>l. l = Gone" func2 globals2 inv2 weight2
proof
  show "inv2 Map.empty globals2" by (simp add: inv2_def globals2_def added_def written_def)
  show "inv2 (th(r \<mapsto> Add 0 0)) g" if "inv2 th g" "r < ROWS" "th r = None" for th g r
    using that added_upd [OF that(2), of th "Add 0 0"]
    by (auto simp: inv2_def local2_def in_region_def written_def)
  show "\<exists>r l. th r = Some l \<and> func2 r l g \<noteq> None" if "inv2 th g" "th r = Some l" "l \<noteq> Gone" for th g r l
    using that by (rule progress2)
qed (auto simp: inv2_step func2_def split: adding.splits if_splits)

lemma added_all:
  assumes "\<forall>r < ROWS. thread s r = Some Gone"
  shows "added (thread s) = 5400"
proof -
  have "added (thread s) = (\<Sum>r<ROWS. row_part r COLS2)"
    using assms unfolding added_def by (intro sum.cong) (auto simp: written_def)
  then show ?thesis by (simp add: row2 sum_rows)
qed

lemma run2_end:
  assumes "run2 sched = Some s" and "phase s = Joined"
  shows "mutex (shared s) = None" and "total (shared s) = 5400"
proof -
  note sch = p2.schedule [OF assms(1) [unfolded run2_def]]
  from sch(3) assms(2) have gone: "\<forall>r < ROWS. thread s r = Some Gone" and dom: "dom (thread s) = {..<ROWS}"
    by auto
  show "mutex (shared s) = None"
  proof (rule ccontr)
    assume "mutex (shared s) \<noteq> None"
    then obtain r l where "mutex (shared s) = Some r" "thread s r = Some l" "in_region l"
      using sch(4) by (fastforce simp: inv2_def)
    moreover from this(2) dom have "r < ROWS" by auto
    ultimately show False using gone by (auto simp: in_region_def)
  qed
  show "total (shared s) = 5400" using sch(4) added_all [OF gone] by (simp add: inv2_def)
qed

definition exclusive :: "(adding, part2) forkjoin \<Rightarrow> bool" where
  "exclusive s \<longleftrightarrow> (\<forall>i j li lj. thread s i = Some li \<longrightarrow> thread s j = Some lj \<longrightarrow>
     in_region li \<longrightarrow> in_region lj \<longrightarrow> i = j)"

text \<open>C29. Whatever the order of the steps, in part 2 at most one thread is in the critical region, the
  total is always the sum of the rows added so far, nothing gets stuck, and every schedule is bounded
  and can be continued to the end, where the mutex is free and the total is 5400.\<close>

theorem part2_any_schedule:
  assumes "run2 sched = Some s"
  shows "exclusive s
    \<and> total (shared s) = of_nat (added (thread s))
    \<and> length sched \<le> 242
    \<and> (\<exists>rest s'. run2 (sched @ rest) = Some s' \<and> phase s' = Joined)
    \<and> (phase s = Joined \<longrightarrow> mutex (shared s) = None \<and> sint (total (shared s)) = 5400)"
proof (intro conjI impI)
  note sch = p2.schedule [OF assms [unfolded run2_def]]
  show "length sched \<le> 242" using sch(1) by (simp add: ROWS_def COLS2_def)
  show "\<exists>rest s'. run2 (sched @ rest) = Some s' \<and> phase s' = Joined" using sch(2) by (simp add: run2_def)
  show "exclusive s" "total (shared s) = of_nat (added (thread s))"
    using sch(4) by (auto simp: inv2_def exclusive_def)
  assume "phase s = Joined"
  with run2_end [OF assms] show "mutex (shared s) = None" "sint (total (shared s)) = 5400" by simp_all
qed

theorem part2_any_schedule_witness:
  "\<exists>sched s. run2 sched = Some s \<and> phase s = Joined \<and> exclusive s \<and> sint (total (shared s)) = 5400"
proof -
  have "run2 [] = Some (before globals2)" by (simp add: run2_def)
  from part2_any_schedule [OF this] obtain sched s where s: "run2 sched = Some s" "phase s = Joined" by auto
  with part2_any_schedule [OF s(1)] show ?thesis by blast
qed

section \<open>The tests\<close>

lemma count_tests_same:
  "\<forall>t \<in> set ts. t = answer \<Longrightarrow> 1 < count \<Longrightarrow> count_tests count answer n ts = n"
  by (induction ts arbitrary: count) auto

lemma incorrect_totals_same: "\<forall>t \<in> set ts. t = x \<Longrightarrow> incorrect_totals ts = 0"
  by (cases ts) (auto simp: incorrect_totals_def count_tests_same)

text \<open>Ten tests, or any number, whose threads have all been joined, in whatever orders, never count
  an incorrect total.\<close>

theorem part2_tests_agree:
  assumes "\<forall>t \<in> set totals. \<exists>sched s. run2 sched = Some s \<and> phase s = Joined \<and> t = total (shared s)"
  shows "incorrect_totals totals = 0"
  using assms run2_end(2) by (intro incorrect_totals_same [where x = 5400]) auto

theorem part2_tests_agree_witness: "incorrect_totals [5400, 5400] = 0"
proof (rule part2_tests_agree)
  have "run2 [] = Some (before globals2)" by (simp add: run2_def)
  from p2.schedule(2) [OF this [unfolded run2_def]] obtain sched s where
    "run2 sched = Some s" "phase s = Joined" by (auto simp: run2_def)
  with run2_end(2) show "\<forall>t \<in> set [5400, 5400].
      \<exists>sched s. run2 sched = Some s \<and> phase s = Joined \<and> t = total (shared s)" by fastforce
qed

section \<open>The time taken\<close>

text \<open>\<^verbatim>\<open>gettimeofday\<close> before and after, subtracted field by field, and \<^verbatim>\<open>%ld.%06ld\<close>: a sign counts as one of the six
  places.\<close>

record timeval =
  tv_sec :: int
  tv_usec :: int

definition six_places :: "int \<Rightarrow> string" where
  "six_places i =
     (let d = dec (abs i); sign = (if i < 0 then ''-'' else '''')
      in sign @ replicate (6 - length sign - length d) CHR ''0'' @ d)"

definition elapsed :: "timeval \<Rightarrow> timeval \<Rightarrow> timeval" where
  "elapsed t1 t2 = t2\<lparr>tv_sec := tv_sec t2 - tv_sec t1, tv_usec := tv_usec t2 - tv_usec t1\<rparr>"

definition time_line :: "timeval \<Rightarrow> string" where
  "time_line t = ''Time: '' @ dec (tv_sec t) @ ''.'' @ six_places (tv_usec t) @ '' seconds'' @ [newline]"

definition test_time_line :: "nat \<Rightarrow> timeval \<Rightarrow> string" where
  "test_time_line count t =
     ''Time '' @ dec (int count) @ '': '' @ dec (tv_sec t) @ ''.'' @ six_places (tv_usec t) @ '' seconds'' @ [newline]"

definition results_text :: "timeval \<Rightarrow> nat \<Rightarrow> string" where
  "results_text t incorrectCount =
     [newline] @ ''***** Mutex Test Results *****'' @ [newline] @
     ''Total RunTime: '' @ dec (tv_sec t) @ ''.'' @ six_places (tv_usec t) @ '' seconds'' @ [newline] @
     ''Amount of threads with the incorrect total: '' @ dec (int incorrectCount) @ [newline]"

text \<open>The two fields together are the time between, but nothing is carried from one to the other: when the
  microseconds of the end are less than those of the start, a negative number stands behind the point.\<close>

theorem elapsed_not_normal:
  assumes "0 \<le> tv_usec t1" "tv_usec t1 < 1000000" "0 \<le> tv_usec t2" "tv_usec t2 < 1000000"
  shows "tv_sec (elapsed t1 t2) * 1000000 + tv_usec (elapsed t1 t2)
      = (tv_sec t2 * 1000000 + tv_usec t2) - (tv_sec t1 * 1000000 + tv_usec t1)"
    and "tv_usec t1 \<le> tv_usec t2 \<longleftrightarrow> 0 \<le> tv_usec (elapsed t1 t2)"
    and "tv_usec t2 < tv_usec t1 \<Longrightarrow> \<exists>x. six_places (tv_usec (elapsed t1 t2)) = CHR ''-'' # x"
  using assms by (simp_all add: elapsed_def six_places_def algebra_simps Let_def)

theorem elapsed_example:
  "time_line (elapsed \<lparr>tv_sec = 10, tv_usec = 999990\<rparr> \<lparr>tv_sec = 11, tv_usec = 20\<rparr>) = ''Time: 1.-999970 seconds'' @ [newline]"
proof -
  have "digit 0 = CHR ''0''" "digit (Suc 0) = CHR ''1''" "digit 7 = CHR ''7''" "digit 9 = CHR ''9''" by code_simp+
  then have "dec 1 = ''1''" "dec 999970 = ''999970''" by (simp_all add: dec_def numeral_text.simps)
  then show ?thesis by (simp add: time_line_def elapsed_def six_places_def)
qed

end
