(* ===== verification/WallClock.thy ===== *)
theory WallClock
  imports Text
begin

text \<open>
  \<^verbatim>\<open>PreLab4/Code/Part3.c\<close>: a wall clock driven by the signals of an interval timer. The handler is a
  function of the clock, \<open>Inl\<close> when it leaves the program through \<^verbatim>\<open>exit\<close>; the values it computes are
  never negative and stay far below the range of an \<^verbatim>\<open>int\<close>, so they are integers.
\<close>

section \<open>The program\<close>

definition START :: int where "START = 500000"
definition INTERVAL :: int where "INTERVAL = 1000"
definition USEC_IN_SEC :: int where "USEC_IN_SEC = 1000000"
definition STOPTICK :: int where "STOPTICK = 30"

record clock =
  hh :: int
  mm :: int
  ss :: int
  tick :: int
  uss :: int
  timerStarted :: bool
  shown :: "string list"

text \<open>\<^verbatim>\<open>%02d\<close> of a number that is not negative.\<close>

definition two_digits :: "int \<Rightarrow> string" where
  "two_digits i = replicate (2 - length (dec i)) CHR ''0'' @ dec i"

definition clock_line :: "int \<Rightarrow> int \<Rightarrow> int \<Rightarrow> string" where
  "clock_line h m s =
     ''Wall Clock: '' @ two_digits h @ '' : '' @ two_digits m @ '' : '' @ two_digits s @ [newline]"

definition advance :: "clock \<Rightarrow> clock" where
  "advance c =
     (if \<not> timerStarted c then c\<lparr>uss := START, timerStarted := True\<rparr>
      else
        let c = c\<lparr>uss := uss c + INTERVAL\<rparr>;
            c = c\<lparr>ss := ss c + uss c div USEC_IN_SEC\<rparr>;
            c = c\<lparr>uss := uss c mod USEC_IN_SEC\<rparr>;
            c = c\<lparr>mm := mm c + ss c div 60\<rparr>;
            c = c\<lparr>ss := ss c mod 60\<rparr>;
            c = c\<lparr>hh := hh c + mm c div 60\<rparr>;
            c = c\<lparr>mm := mm c mod 60\<rparr>
        in c)"

definition timer_handler :: "clock \<Rightarrow> clock + clock" where
  "timer_handler c =
     (let startSec = ss c;
          c1 = advance c;
          c2 = (if startSec \<noteq> ss c1
                then c1\<lparr>shown := shown c1 @ [clock_line (hh c1) (mm c1) (ss c1)], tick := tick c1 + 1\<rparr>
                else c1)
      in if tick c2 \<ge> STOPTICK then Inl c2 else Inr c2)"

definition initial :: clock where
  "initial = \<lparr>hh = 0, mm = 0, ss = 0, tick = 0, uss = 0, timerStarted = False, shown = []\<rparr>"

text \<open>The main loop waits for signals: the state after a number of them.\<close>

primrec signals :: "nat \<Rightarrow> clock + clock" where
  "signals 0 = Inr initial"
| "signals (Suc n) = (case signals n of Inl c \<Rightarrow> Inl c | Inr c \<Rightarrow> timer_handler c)"

text \<open>What \<^verbatim>\<open>main\<close> prints and the timer it sets, in microseconds: the first signal comes after the value, each
  further one after the interval.\<close>

definition clock_start :: string where
  "clock_start = [newline, newline, newline] @ ''***** Part 3 *****'' @ [newline, newline] @
     ''looping: enter Control-C to terminate'' @ [newline]"

record itimer =
  it_value :: int
  it_interval :: int

definition itimer_set :: itimer where
  "itimer_set = \<lparr>it_value = START, it_interval = INTERVAL\<rparr>"

definition signal_time :: "itimer \<Rightarrow> nat \<Rightarrow> int" where
  "signal_time t n = (if n = 0 then 0 else it_value t + it_interval t * int (n - 1))"

section \<open>The time shown\<close>

text \<open>The clock k seconds and u microseconds after the start; a line has been printed for each second.\<close>

definition second_line :: "int \<Rightarrow> string" where
  "second_line k = clock_line (k div 3600) (k div 60 mod 60) (k mod 60)"

definition clock_at :: "int \<Rightarrow> int \<Rightarrow> clock" where
  "clock_at k u =
     \<lparr>hh = k div 3600, mm = k div 60 mod 60, ss = k mod 60, tick = k, uss = u, timerStarted = True,
      shown = map second_line [1..k]\<rparr>"

text \<open>How seconds carry into minutes and hours.\<close>

lemma next_60:
  fixes k :: int
  obtains (same) "(k + 1) div 60 = k div 60" "(k + 1) mod 60 = k mod 60 + 1" "(k mod 60 + 1) div 60 = 0"
    | (turn) "(k + 1) div 60 = k div 60 + 1" "(k + 1) mod 60 = 0" "k mod 60 = 59"
proof -
  obtain q r where k: "k = q * 60 + r" "0 \<le> r" "r < 60"
    using div_mult_mod_eq [of k 60] by (metis pos_mod_bound pos_mod_sign zero_less_numeral)
  show thesis
  proof (cases "r = 59")
    case True
    with k have "k + 1 = (q + 1) * 60" by simp
    then have "(k + 1) div 60 = q + 1" "(k + 1) mod 60 = 0" by simp_all
    with True turn k show thesis by simp
  next
    case False
    with k have b: "k + 1 = q * 60 + (r + 1)" "0 \<le> r + 1" "r + 1 < 60" by simp_all
    have "(k + 1) div 60 = q" "(k + 1) mod 60 = r + 1"
      unfolding b(1) using b(2,3) by simp_all
    with same k b(2,3) show thesis by simp
  qed
qed

lemma carry:
  fixes k :: int
  shows "(k mod 60 + 1) mod 60 = (k + 1) mod 60"
    and "(k div 60 mod 60 + (k mod 60 + 1) div 60) mod 60 = (k + 1) div 60 mod 60"
    and "k div 3600 + (k div 60 mod 60 + (k mod 60 + 1) div 60) div 60 = (k + 1) div 3600"
    and "k mod 60 \<noteq> (k + 1) mod 60"
proof -
  have h: "j div 3600 = j div 60 div 60" for j :: int by (simp add: zdiv_zmult2_eq [symmetric])
  show "(k mod 60 + 1) mod 60 = (k + 1) mod 60" by (simp add: mod_add_left_eq)
  show "k mod 60 \<noteq> (k + 1) mod 60" by (cases rule: next_60 [of k]) simp_all
  show "(k div 60 mod 60 + (k mod 60 + 1) div 60) mod 60 = (k + 1) div 60 mod 60"
    by (cases rule: next_60 [of k]) (simp_all add: mod_add_left_eq)
  show "k div 3600 + (k div 60 mod 60 + (k mod 60 + 1) div 60) div 60 = (k + 1) div 3600"
    unfolding h
  proof (cases rule: next_60 [of k])
    case turn
    then show "k div 60 div 60 + (k div 60 mod 60 + (k mod 60 + 1) div 60) div 60 = (k + 1) div 60 div 60"
      by (cases rule: next_60 [of "k div 60"]) simp_all
  qed simp
qed

lemma carry_none: "k div 3600 + (k div 60 mod 60 + (k mod 60) div 60) div 60 = k div (3600 :: int)"
    "(k div 60 mod 60 + (k mod 60) div 60) mod 60 = k div 60 mod (60 :: int)"
  by simp_all

lemma advance_clock_at:
  "u + INTERVAL < USEC_IN_SEC \<Longrightarrow> 0 \<le> u \<Longrightarrow> advance (clock_at k u) = clock_at k (u + INTERVAL)"
  by (simp add: advance_def clock_at_def Let_def div_pos_pos_trivial mod_pos_pos_trivial INTERVAL_def)

lemma advance_turn:
  assumes "u + INTERVAL = USEC_IN_SEC"
  shows "advance (clock_at k u) = (clock_at (k + 1) 0)\<lparr>tick := k, shown := map second_line [1..k]\<rparr>"
proof -
  have "(u + INTERVAL) div USEC_IN_SEC = 1" "(u + INTERVAL) mod USEC_IN_SEC = 0"
    unfolding assms by (simp_all add: USEC_IN_SEC_def)
  then show ?thesis by (simp add: advance_def clock_at_def Let_def carry)
qed

lemma handler_same:
  "u + INTERVAL < USEC_IN_SEC \<Longrightarrow> 0 \<le> u \<Longrightarrow> k < STOPTICK \<Longrightarrow>
   timer_handler (clock_at k u) = Inr (clock_at k (u + INTERVAL))"
  by (simp add: timer_handler_def advance_clock_at Let_def) (simp add: clock_at_def)

lemma handler_turn:
  assumes "u + INTERVAL = USEC_IN_SEC" and "0 \<le> k"
  shows "timer_handler (clock_at k u) =
    (if k + 1 \<ge> STOPTICK then Inl (clock_at (k + 1) 0) else Inr (clock_at (k + 1) 0))"
proof -
  have "[1..k + 1] = [1..k] @ [k + 1]" using assms(2) by (simp add: upto_rec2)
  with carry(4) [of k] show ?thesis
    by (simp add: timer_handler_def advance_turn [OF assms(1)] Let_def)
      (simp add: clock_at_def second_line_def)
qed

lemma signals_clock:
  "signals (Suc n) =
     (if n < 29500 then Inr (clock_at (int ((500 + n) div 1000)) (1000 * int ((500 + n) mod 1000)))
      else Inl (clock_at 30 0))"
proof (induction n)
  case 0
  then show ?case
    by (simp add: initial_def timer_handler_def advance_def clock_at_def START_def STOPTICK_def Let_def)
next
  case (Suc n)
  define m where "m = 500 + n"
  have w: "m mod 1000 < 1000" by simp
  show ?case
  proof (cases "n < 29500")
    case True
    then have k: "m div 1000 < 30" unfolding m_def by (simp add: less_mult_imp_div_less)
    show ?thesis
    proof (cases "Suc (m mod 1000) = 1000")
      case turn: True
      then have "1000 * int (m mod 1000) + INTERVAL = USEC_IN_SEC"
        by (simp add: INTERVAL_def USEC_IN_SEC_def)
      note h = handler_turn [OF this, of "int (m div 1000)"]
      have "int (m div 1000) + 1 \<ge> STOPTICK \<longleftrightarrow> \<not> Suc n < 29500"
        using turn True mult_div_mod_eq [of 1000 m] unfolding STOPTICK_def m_def by linarith
      moreover have "Suc m div 1000 = Suc (m div 1000)" "Suc m mod 1000 = 0"
        using turn by (simp_all add: div_Suc mod_Suc)
      moreover have "int (m div 1000) + 1 \<ge> STOPTICK \<Longrightarrow> int (m div 1000) + 1 = 30"
        using k by (simp add: STOPTICK_def)
      ultimately show ?thesis using Suc.IH True h unfolding m_def by (auto simp: algebra_simps)
    next
      case False
      then have "1000 * int (m mod 1000) + INTERVAL < USEC_IN_SEC"
        using w unfolding INTERVAL_def USEC_IN_SEC_def by linarith
      note h = handler_same [OF this _ , of "int (m div 1000)"]
      have "Suc n < 29500" using False True unfolding m_def by (cases "n = 29499") auto
      moreover have "Suc m div 1000 = m div 1000" "Suc m mod 1000 = Suc (m mod 1000)"
        using False by (simp_all add: div_Suc mod_Suc)
      ultimately show ?thesis
        using Suc.IH True h k unfolding m_def by (simp add: STOPTICK_def INTERVAL_def algebra_simps)
    qed
  qed (use Suc.IH in auto)
qed

text \<open>C30. The clock after any number of signals: the first, half a second after the start, starts it,
  each further one adds a millisecond; a line with hours, minutes and seconds is printed for every
  full second, and the program exits with the signal that completes the thirtieth second.\<close>

theorem clock_shows_time:
  "signals (Suc n) =
     (if n < 29500 then Inr (clock_at (int ((500 + n) div 1000)) (1000 * int ((500 + n) mod 1000)))
      else Inl (clock_at 30 0))"
  by (rule signals_clock)

text \<open>The clock keeps the time of the timer: at every signal its hours, minutes, seconds and microseconds are the
  time since the timer was set.\<close>

definition shown_time :: "clock \<Rightarrow> int" where
  "shown_time c = ((hh c * 60 + mm c) * 60 + ss c) * USEC_IN_SEC + uss c"

theorem clock_keeps_time:
  "(case signals n of Inr c \<Rightarrow> shown_time c = signal_time itimer_set n
    | Inl c \<Rightarrow> shown_time c = signal_time itimer_set 29501 \<and> tick c = STOPTICK)"
proof (cases n)
  case 0
  then show ?thesis by (simp add: initial_def shown_time_def signal_time_def)
next
  case (Suc k)
  define q r where "q = (500 + k) div 1000" and "r = (500 + k) mod 1000"
  have "int (500 + k) = int q * 1000 + int r" unfolding q_def r_def by (metis div_mult_mod_eq of_nat_add of_nat_mult of_nat_numeral)
  then have k: "500000 + 1000 * int k = int q * 1000000 + 1000 * int r" by simp
  have shown: "shown_time (clock_at (int p) u) = int p * 1000000 + u" for p u
  proof -
    have "int p div 3600 = int p div 60 div 60" by (simp add: zdiv_zmult2_eq [symmetric])
    then have "int p div 3600 * 60 + int p div 60 mod 60 = int p div 60"
      by (simp only: div_mult_mod_eq)
    then have "(int p div 3600 * 60 + int p div 60 mod 60) * 60 + int p mod 60 = int p"
      by (simp only: div_mult_mod_eq)
    then show ?thesis by (simp add: shown_time_def clock_at_def USEC_IN_SEC_def)
  qed
  have "shown_time (clock_at (int q) (1000 * int r)) = signal_time itimer_set (Suc k)"
    using k by (simp add: shown signal_time_def itimer_set_def START_def INTERVAL_def)
  moreover have "shown_time (clock_at 30 0) = signal_time itimer_set 29501"
    using shown [of 30 0] by (simp add: signal_time_def itimer_set_def START_def INTERVAL_def)
  ultimately show ?thesis
    unfolding Suc signals_clock q_def r_def by (simp add: clock_at_def STOPTICK_def)
qed

end
