(* ===== verification/Shell.thy ===== *)
theory Shell
  imports Text "HOL-Library.Monad_Syntax"
begin

text \<open>
  \<^verbatim>\<open>Lab3/Lab3.c\<close>, a shell with pipes and redirection. An array of strings is a list of its slots,
  \<open>None\<close> for a NULL; \<open>None\<close> as a result is a write or read outside an array or block, or a NULL
  handed to a string function. What \<^verbatim>\<open>malloc\<close> finds in a fresh block and what lies behind a local array
  are parameters. Of the messages those at the start are kept.
\<close>

section \<open>Constants and globals\<close>

definition LINE :: nat where "LINE = 100"
definition DIR :: nat where "DIR = 50"
definition CHARSIZE :: nat where "CHARSIZE = 4"
definition BIN :: string where "BIN = ''/bin''"
definition ARGS :: nat where "ARGS = 20"
definition HALF :: nat where "HALF = 10"

type_synonym slots = "string option list"

text \<open>The strings of an array up to its first NULL.\<close>

fun strings :: "slots \<Rightarrow> string list" where
  "strings (Some a # as) = a # strings as"
| "strings _ = []"

definition slots_of :: "nat \<Rightarrow> string list \<Rightarrow> slots" where
  "slots_of n ws = map Some ws @ replicate (n - length ws) None"

section \<open>Strings\<close>

text \<open>A zero-terminated string at the start of a block.\<close>

definition string_in :: "string \<Rightarrow> string option" where
  "string_in block = (if CHR 0x00 \<in> set block then Some (takeWhile (\<lambda>c. c \<noteq> CHR 0x00) block) else None)"

text \<open>The loop of \<^verbatim>\<open>removeWhiteSpace\<close>, with \<open>first\<close> for \<^verbatim>\<open>i == 0\<close>; it writes no terminator.\<close>

fun squeeze :: "bool \<Rightarrow> bool \<Rightarrow> string \<Rightarrow> string" where
  "squeeze first prevSpace [] = []"
| "squeeze first prevSpace (c # cs) =
     (if c = CHR '' '' then
        (if \<not> prevSpace \<and> \<not> first then c # squeeze False True cs else squeeze False True cs)
      else c # squeeze False False cs)"

definition removeWhiteSpace :: "(nat \<Rightarrow> string) \<Rightarrow> string \<Rightarrow> string option" where
  "removeWhiteSpace malloc str =
     (let block = malloc (CHARSIZE * length str + 1);
          out = squeeze True False str
      in string_in (out @ drop (length out) block))"

text \<open>\<^verbatim>\<open>strcat\<close> of the strings of an array into a buffer of a given size.\<close>

definition ArrtoStr :: "nat \<Rightarrow> slots \<Rightarrow> string option" where
  "ArrtoStr n arr =
     (let s = join '' '' (strings arr) in if length s < n then Some s else None)"

section \<open>Reading a command\<close>

text \<open>A line from the terminal: without its newline, or cut when it is too long, and then the input is skipped
  up to the next newline. What follows a zero is not seen.\<close>

definition read_line :: "string \<Rightarrow> string \<times> string" where
  "read_line input =
     (case fgets LINE [] input of (got, rest) \<Rightarrow>
        let line = takeWhile (\<lambda>c. c \<noteq> CHR 0x00) got
        in if got = [] then ([], rest)
           else if newline \<in> set line then (takeWhile (\<lambda>c. c \<noteq> newline) line, rest)
           else (line, tl (dropWhile (\<lambda>c. c \<noteq> newline) rest)))"

text \<open>What becomes of a line. It is copied to a block of four times its length; the last character of the copy
  is read also when there is none.\<close>

definition getInput :: "(nat \<Rightarrow> string) \<Rightarrow> string \<Rightarrow> string option" where
  "getInput malloc input = do {
     let line = take (LINE - 1) input;
     str \<leftarrow> removeWhiteSpace malloc line;
     if str = [] \<or> CHARSIZE * length line \<le> length str then None
     else Some (if last str = newline then butlast str else str)
   }"

text \<open>A copy of a string: its block has room for the terminator unless the string is empty.\<close>

definition createCopyStr :: "string \<Rightarrow> string option" where
  "createCopyStr str = (if length str < CHARSIZE * length str then Some str else None)"

definition argvInfo :: "nat \<Rightarrow> string \<Rightarrow> slots option" where
  "argvInfo n line =
     do {
       copy \<leftarrow> createCopyStr line;
       let toks = strtok_all '' '' copy;
       if length toks < n then Some (slots_of n toks) else None
     }"

section \<open>Environment\<close>

text \<open>\<^verbatim>\<open>token + 5\<close> of the first token; a first token of at most five characters leaves nothing, or a place behind
  the end, and its block of no bytes has no room for the terminator.\<close>

definition getDirectories :: "string \<Rightarrow> slots option" where
  "getDirectories path =
     (case strtok_all '':'' path of
        [] \<Rightarrow> Some (slots_of DIR [])
      | t # ts \<Rightarrow>
          if length t \<le> 5 \<or> DIR \<le> Suc (length ts) then None
          else Some (slots_of DIR (drop 5 t # ts)))"

record env_info =
  HOME :: string
  PATH_var :: string
  DIRS :: slots

fun envInfo :: "string list \<Rightarrow> env_info \<Rightarrow> env_info option" where
  "envInfo [] g = Some g"
| "envInfo (e # es) g =
     (if strstr e ''PATH=/'' \<noteq> None then do {
        dirs \<leftarrow> getDirectories e;
        envInfo es (g\<lparr>PATH_var := e, DIRS := dirs\<rparr>)
      }
      else if strstr e ''HOME=/'' \<noteq> None then envInfo es (g\<lparr>HOME := e\<rparr>)
      else envInfo es g)"

text \<open>The lines that show an array of strings, and what \<^verbatim>\<open>main\<close> prints before its loop.\<close>

fun str_lines :: "string \<Rightarrow> nat \<Rightarrow> string list \<Rightarrow> string" where
  "str_lines name i [] = []"
| "str_lines name i (a # as) = name @ '' '' @ dec (int i) @ '': '' @ [CHR 0x27] @ a @ [CHR 0x27] @ '' '' @ [newline] @ str_lines name (i + 1) as"

definition printStrArray :: "string \<Rightarrow> slots \<Rightarrow> string" where
  "printStrArray name arr = str_lines name 0 (strings arr)"

definition welcome_text :: "int \<Rightarrow> env_info \<Rightarrow> string" where
  "welcome_text ppid g =
     ''************* Welcome to kcsh ************** '' @ [newline] @
     ''Parent Processor ID: '' @ dec ppid @ '' '' @ [newline] @
     ''Home Directory: '' @ HOME g @ '' '' @ [newline] @
     ''Path: '' @ PATH_var g @ [newline] @
     ''Decompose Path into Directory Strings: '' @ [newline] @ printStrArray ''  * Dir'' (DIRS g) @
     ''*********** kcsh processing loop *********** '' @ [newline]"

text \<open>\<^verbatim>\<open>forkInfo\<close>, with the numbers of the parent and the process.\<close>

definition forkInfo :: "int \<Rightarrow> int \<Rightarrow> string" where
  "forkInfo ppid pid =
     ''Parent kcsh PROC '' @ dec ppid @ '' forks a child process '' @ dec pid @ '' '' @ [newline] @
     ''Parent sh PROC '' @ dec ppid @ '' waits '' @ [newline]"

text \<open>\<^verbatim>\<open>cleanStrArr\<close>, which nothing calls: the strings up to the first NULL become empty.\<close>

fun cleanStrArr :: "slots \<Rightarrow> slots" where
  "cleanStrArr (Some a # as) = Some [] # cleanStrArr as"
| "cleanStrArr as = as"

section \<open>Pipes and redirections in the arguments\<close>

text \<open>The loop over the arguments from a slot on. The block for the first string behind the bar is
  allocated with the size of the bar.\<close>

fun split_pipe :: "slots \<Rightarrow> bool \<Rightarrow> string list \<Rightarrow> string list \<Rightarrow> (bool \<times> string list \<times> string list) option" where
  "split_pipe [] foundPipe h t = None"
| "split_pipe (None # as) foundPipe h t = Some (foundPipe, h, t)"
| "split_pipe (Some a # as) foundPipe h t =
     (if foundPipe then split_pipe as foundPipe h (t @ [a])
      else if a = ''|'' then
        (case as of
           Some b # bs \<Rightarrow>
             if length b < CHARSIZE * (length a + 1) then split_pipe bs True h (t @ [b]) else None
         | _ \<Rightarrow> None)
      else split_pipe as foundPipe (h @ [a]) t)"

definition hasPipe :: "slots \<Rightarrow> (bool \<times> slots \<times> slots) option" where
  "hasPipe args = do {
     (foundPipe, head, tail) \<leftarrow> split_pipe args False [] [];
     if length head < HALF \<and> length tail < HALF
     then Some (foundPipe, slots_of HALF head, slots_of HALF tail) else None
   }"

text \<open>\<^verbatim>\<open>removeIOArgs\<close> from a slot on; two slots are cleared and skipped at a redirection sign.\<close>

fun removeIOArgs :: "slots \<Rightarrow> slots option" where
  "removeIOArgs [] = None"
| "removeIOArgs (None # as) = Some (None # as)"
| "removeIOArgs (Some s # as) =
     (if s = ''>'' \<or> s = ''<'' \<or> s = ''>>'' then
        (case as of
           [] \<Rightarrow> None
         | b # bs \<Rightarrow> do { bs' \<leftarrow> removeIOArgs bs; Some (None # None # bs') })
      else do { as' \<leftarrow> removeIOArgs as; Some (Some s # as') })"

text \<open>The directory of the commands is searched for in the list; the block of a copy is four times the
  directory's length.\<close>

fun getCMD_loop :: "slots \<Rightarrow> string \<Rightarrow> string option option" where
  "getCMD_loop [] name = None"
| "getCMD_loop (None # ds) name = Some None"
| "getCMD_loop (Some d # ds) name =
     (let cmd = d @ ''/'' @ name
      in if length cmd < CHARSIZE * length d then
           (if d = BIN then Some (Some cmd) else getCMD_loop ds name)
         else None)"

definition getCMD :: "slots \<Rightarrow> slots \<Rightarrow> string option option" where
  "getCMD dirs args =
     (case dirs of
        Some d # ds \<Rightarrow> (case args of Some name # as \<Rightarrow> getCMD_loop dirs name | _ \<Rightarrow> None)
      | None # ds \<Rightarrow> Some None
      | [] \<Rightarrow> None)"

end
