(* ===== verification/ShellExec.thy ===== *)
theory ShellExec
  imports Shell
begin

text \<open>
  \<^verbatim>\<open>Lab3/Lab3.c\<close>: how the shell of \<^verbatim>\<open>Shell\<close> runs a command. A process is its table of open files; what
  becomes of the processes a command makes is the list of their fates: an image of a command with
  its arguments and files, a return to the loop of the shell, or the end. The answers of the operating
  system are the fields of a record.
\<close>

section \<open>Open files\<close>

datatype handle = Terminal | Pipe_Read nat | Pipe_Write nat | Input string | Output string | Append string

type_synonym fds = "handle option list"

definition fd :: "fds \<Rightarrow> nat \<Rightarrow> handle option" where
  "fd f n = (if n < length f then f ! n else None)"

text \<open>A new descriptor is the lowest free one.\<close>

definition put_fd :: "handle \<Rightarrow> fds \<Rightarrow> nat \<times> fds" where
  "put_fd h f =
     (let n = length (takeWhile (\<lambda>x. x \<noteq> None) f)
      in (n, if n < length f then f[n := Some h] else f @ [Some h]))"

definition close_fd :: "nat \<Rightarrow> fds \<Rightarrow> fds" where
  "close_fd n f = f[n := None]"

definition dup_fd :: "nat \<Rightarrow> fds \<Rightarrow> fds" where
  "dup_fd n f = (case fd f n of None \<Rightarrow> f | Some h \<Rightarrow> snd (put_fd h f))"

section \<open>The operating system\<close>

record sys =
  malloc :: "nat \<Rightarrow> string"
  behind :: string
  can_read :: "string \<Rightarrow> bool"
  can_append :: "string \<Rightarrow> bool"
  can_write :: "string \<Rightarrow> bool"
  can_exec :: "string \<Rightarrow> bool"
  can_chdir :: "string \<Rightarrow> bool"
  home_dir :: "string option"
  fork_ok :: "nat \<Rightarrow> bool"
  pipe_ok :: "nat \<Rightarrow> bool"
  path_dirs :: slots

datatype fate = Exec string "string list" fds | Shell int fds | Exited

section \<open>Commands\<close>

text \<open>\<^verbatim>\<open>open\<close> after the standard file has been closed.\<close>

definition reopen :: "nat \<Rightarrow> handle \<Rightarrow> bool \<Rightarrow> fds \<Rightarrow> int \<times> fds" where
  "reopen n h ok f =
     (let f1 = close_fd n f
      in if ok then (let (m, f2) = put_fd h f1 in (int m, f2)) else (- 1, f1))"

definition file_name :: "sys \<Rightarrow> string \<Rightarrow> string option" where
  "file_name s bytes = do { str \<leftarrow> string_in bytes; removeWhiteSpace (malloc s) str }"

text \<open>The line is the 100 bytes that \<^verbatim>\<open>memchr\<close> searches; \<^verbatim>\<open>strstr\<close> stops at its end.\<close>

definition handleIO :: "sys \<Rightarrow> string \<Rightarrow> fds \<Rightarrow> (int \<times> fds) option" where
  "handleIO s line f =
     (case dropWhile (\<lambda>c. c \<noteq> CHR ''<'') line of
        c # rest \<Rightarrow> do {
          file \<leftarrow> file_name s rest;
          Some (reopen 0 (Input file) (can_read s file) f)
        }
      | [] \<Rightarrow> do {
          str \<leftarrow> string_in line;
          (case strstr str ''>>'' of
             Some rest \<Rightarrow> do {
               file \<leftarrow> removeWhiteSpace (malloc s) (drop 2 rest);
               Some (reopen 1 (Append file) (can_append s file) f)
             }
           | None \<Rightarrow>
               (case dropWhile (\<lambda>c. c \<noteq> CHR ''>'') line of
                  c # rest \<Rightarrow> do {
                    file \<leftarrow> file_name s rest;
                    Some (reopen 1 (Output file) (can_write s file) f)
                  }
                | [] \<Rightarrow> Some (- 1, f)))
        })"

text \<open>When \<^verbatim>\<open>execve\<close> fails the process returns \<^verbatim>\<open>-1\<close> to the loop of the shell.\<close>

definition linuxExe :: "sys \<Rightarrow> string \<Rightarrow> slots \<Rightarrow> fds \<Rightarrow> fate option" where
  "linuxExe s line args f = do {
     cmd \<leftarrow> getCMD (path_dirs s) args;
     (io, f1) \<leftarrow> handleIO s line f;
     args1 \<leftarrow> (if io \<noteq> - 1 then removeIOArgs args else Some args);
     (case cmd of
        Some c \<Rightarrow> if can_exec s c then Some (Exec c (strings args1) f1) else Some (Shell (- 1) f1)
      | None \<Rightarrow> Some (Shell (- 1) f1))
   }"

text \<open>A local line buffer as \<^verbatim>\<open>memchr\<close> sees it: the string, its zeros and what follows it in memory.\<close>

definition seen :: "sys \<Rightarrow> nat \<Rightarrow> string \<Rightarrow> string" where
  "seen s n line = take LINE (line @ replicate (n - length line) (CHR 0x00) @ behind s)"

text \<open>\<^verbatim>\<open>PIPE\<close> holds the descriptors of the pipes; a failing \<^verbatim>\<open>pipe\<close> leaves them and the files alone.\<close>

definition make_pipe :: "sys \<Rightarrow> nat \<Rightarrow> nat list \<Rightarrow> fds \<Rightarrow> nat list \<times> fds" where
  "make_pipe s pCount pd f =
     (if pipe_ok s pCount then
        (let (r, f1) = put_fd (Pipe_Read pCount) f;
             (w, f2) = put_fd (Pipe_Write pCount) f1
         in (pd[pCount := r, pCount + 1 := w], f2))
      else (pd, f))"

partial_function (option) handlePipes :: "sys \<Rightarrow> slots \<Rightarrow> slots \<Rightarrow> nat \<Rightarrow> nat list \<Rightarrow> fds \<Rightarrow> fate list option" where
  "handlePipes s head tail pCount pd f = do {
     hLine \<leftarrow> ArrtoStr DIR head;
     tLine \<leftarrow> ArrtoStr DIR tail;
     if length pd \<le> pCount + 1 then None
     else
       (case make_pipe s pCount pd f of (pd1, f1) \<Rightarrow>
          (let r = pd1 ! pCount;
               w = pd1 ! (pCount + 1);
               writer = close_fd w (dup_fd w (close_fd 1 (close_fd r f1)));
               reader = close_fd r (dup_fd r (close_fd 0 (close_fd w f1)))
           in do {
             parent \<leftarrow> linuxExe s (seen s DIR hLine) head writer;
             if fork_ok s (pCount + 1) then do {
               (more, h, t) \<leftarrow> hasPipe tail;
               children \<leftarrow> (if more then handlePipes s h t (pCount + 1) pd1 reader
                             else do { child \<leftarrow> linuxExe s (seen s DIR tLine) tail reader; Some [child] });
               Some (parent # children)
             }
             else Some [parent]
           }))
   }"

declare handlePipes.simps [code]

text \<open>The result of \<^verbatim>\<open>chdir\<close>; without a path the home directory is taken.\<close>

definition cd_shell :: "sys \<Rightarrow> string option \<Rightarrow> int option" where
  "cd_shell s path =
     (case (case path of None \<Rightarrow> home_dir s | Some p \<Rightarrow> if p = [] then home_dir s else Some p) of
        None \<Rightarrow> None
      | Some p \<Rightarrow> Some (if can_chdir s p then 0 else - 1))"

text \<open>\<^verbatim>\<open>simpleCommands\<close>: \<open>Inl\<close> when it leaves the program.\<close>

definition simpleCommands :: "sys \<Rightarrow> slots \<Rightarrow> (unit + bool) option" where
  "simpleCommands s args =
     (case args of
        Some a # as \<Rightarrow>
          if a = ''exit'' then Some (Inl ())
          else if a = ''cd'' then
            (case as of [] \<Rightarrow> None | p # ps \<Rightarrow> do { result \<leftarrow> cd_shell s p; Some (Inr True) })
          else Some (Inr False)
      | _ \<Rightarrow> None)"

text \<open>The parent waits for all its children and goes on; the status it prints is left out.\<close>

definition run_command :: "sys \<Rightarrow> slots \<Rightarrow> fds \<Rightarrow> fate list option" where
  "run_command s args f = do {
     line \<leftarrow> ArrtoStr LINE args;
     simple \<leftarrow> simpleCommands s args;
     (case simple of
        Inl u \<Rightarrow> Some [Exited]
      | Inr isSimple \<Rightarrow>
          if isSimple then Some [Shell 1 f]
          else do {
            (containsPipe, head, tail) \<leftarrow> hasPipe args;
            if fork_ok s 0 then do {
              children \<leftarrow> (if containsPipe then handlePipes s head tail 0 [0, 0, 0, 0] f
                            else do { child \<leftarrow> linuxExe s (seen s LINE line) args f; Some [child] });
              Some (Shell 1 f # children)
            }
            else Some [Shell 1 f]
          })
   }"

text \<open>One turn of the main loop on a line: it is copied to an array of its own.\<close>

definition shell_turn :: "sys \<Rightarrow> string \<Rightarrow> fds \<Rightarrow> fate list option" where
  "shell_turn s input f = do {
     str \<leftarrow> getInput (malloc s) input;
     line \<leftarrow> (if length str < LINE then Some str else None);
     args \<leftarrow> argvInfo ARGS line;
     run_command s args f
   }"

end
