(* ===== verification/ShellProps.thy ===== *)
theory ShellProps
  imports ShellExec
begin

text \<open>
  What the shell of \<^verbatim>\<open>Lab3/Lab3.c\<close> makes of a line: the words of the line, a
  pipeline as a row of processes each wired to the next, a redirected command with its file in the
  place of the terminal, and what is left of a command that cannot be executed.
\<close>

section \<open>Words\<close>

text \<open>Removing spaces does not change the words of a line.\<close>

lemma split_words_squeeze:
  "first \<or> p \<longrightarrow> w = [] \<Longrightarrow> split_words '' '' w (squeeze first p cs) = split_words '' '' w cs"
  by (induction cs arbitrary: first p w) simp_all

lemma strtok_all_squeeze: "strtok_all '' '' (squeeze True False cs) = strtok_all '' '' cs"
  by (simp add: strtok_all_def split_words_squeeze)

lemma squeeze_set: "set (squeeze first p cs) \<subseteq> set cs"
  by (induction cs arbitrary: first p) auto

lemma squeeze_length: "length (squeeze first p cs) \<le> length cs"
  by (induction cs arbitrary: first p) (auto simp: le_SucI)

lemma takeWhile_zeros: "CHR 0x00 \<notin> set w \<Longrightarrow> takeWhile (\<lambda>c. c \<noteq> CHR 0x00) (w @ CHR 0x00 # r) = w"
  by (subst takeWhile_append2) auto

lemma string_in_zeros: "CHR 0x00 \<notin> set w \<Longrightarrow> 0 < n \<Longrightarrow> string_in (w @ replicate n (CHR 0x00)) = Some w"
  by (cases n) (simp_all add: string_in_def takeWhile_zeros)

text \<open>
  \<^verbatim>\<open>removeWhiteSpace\<close> ends its result with nothing: behind the squeezed text comes what the block of \<^verbatim>\<open>malloc\<close>
  held, up to its first zero. Only when that is the very next byte the words of the line are those typed.
\<close>

lemma removeWhiteSpace_ends:
  assumes "removeWhiteSpace m str = Some r" and "CHR 0x00 \<notin> set str"
  shows "\<exists>junk. r = squeeze True False str @ junk"
proof -
  let ?out = "squeeze True False str"
  have "CHR 0x00 \<notin> set ?out" using squeeze_set assms(2) by blast
  with assms(1) show ?thesis
    by (auto simp: removeWhiteSpace_def Let_def string_in_def takeWhile_append split: if_splits)
qed

lemma removeWhiteSpace_zero:
  assumes "length (m (CHARSIZE * length str + 1)) = CHARSIZE * length str + 1"
    and "m (CHARSIZE * length str + 1) ! length (squeeze True False str) = CHR 0x00" and "CHR 0x00 \<notin> set str"
  shows "removeWhiteSpace m str = Some (squeeze True False str)"
proof -
  let ?out = "squeeze True False str" and ?b = "m (CHARSIZE * length str + 1)"
  have z: "CHR 0x00 \<notin> set ?out" using squeeze_set assms(3) by blast
  have "length ?out < length ?b" using squeeze_length [of True False str] assms(1) by (simp add: CHARSIZE_def)
  then have "drop (length ?out) ?b = CHR 0x00 # drop (Suc (length ?out)) ?b"
    using assms(2) by (simp add: Cons_nth_drop_Suc [symmetric])
  then show ?thesis using takeWhile_zeros [OF z]
    by (simp add: removeWhiteSpace_def string_in_def Let_def)
qed

lemma getInput_words:
  assumes "length (m (CHARSIZE * length input + 1)) = CHARSIZE * length input + 1"
    and "m (CHARSIZE * length input + 1) ! length (squeeze True False input) = CHR 0x00"
    and "CHR 0x00 \<notin> set input" and "newline \<notin> set input" and "length input < LINE"
    and "strtok_all '' '' input \<noteq> []"
  obtains str where "getInput m input = Some str" and "strtok_all '' '' str = strtok_all '' '' input"
    and "length str < LINE"
proof -
  have ne: "squeeze True False input \<noteq> []"
    using assms(6) strtok_all_squeeze [of input] by (auto simp: strtok_all_def)
  then have "last (squeeze True False input) \<noteq> newline" using squeeze_set [of True False input] assms(4) by (metis last_in_set subsetD)
  moreover have len: "length (squeeze True False input) \<le> length input" by (rule squeeze_length)
  moreover from this ne have "length (squeeze True False input) < CHARSIZE * length input"
    by (cases "squeeze True False input") (auto simp: CHARSIZE_def)
  ultimately have "getInput m input = Some (squeeze True False input)"
    using ne removeWhiteSpace_zero [where m = m and str = input, OF assms(1-3)] assms(5) by (simp add: getInput_def LINE_def)
  with that strtok_all_squeeze [of input] len assms(5) show thesis by simp
qed

lemma createCopyStr_some: "str \<noteq> [] \<Longrightarrow> createCopyStr str = Some str"
  by (cases str) (simp_all add: createCopyStr_def CHARSIZE_def)

lemma strings_slots_of [simp]: "strings (slots_of n ws) = ws"
proof -
  have "strings (map Some ws @ replicate k None) = ws" for k
    by (induction ws) (cases k, auto)
  then show ?thesis by (simp add: slots_of_def)
qed

section \<open>Bars\<close>

fun pipe_words :: "string list list \<Rightarrow> string list" where
  "pipe_words [] = []"
| "pipe_words [st] = st"
| "pipe_words (st # sts) = st @ ''|'' # pipe_words sts"

lemma split_pipe_rest: "split_pipe (map Some ws @ None # r) True h t = Some (True, h, t @ ws)"
  by (induction ws arbitrary: t) auto

lemma split_pipe_none:
  "''|'' \<notin> set ws \<Longrightarrow> split_pipe (map Some ws @ None # r) False h t = Some (False, h @ ws, t)"
  by (induction ws arbitrary: h) auto

lemma split_pipe_bar:
  "''|'' \<notin> set ws \<Longrightarrow> length b < 8 \<Longrightarrow>
   split_pipe (map Some (ws @ ''|'' # b # bs) @ None # r) False h t = Some (True, h @ ws, t @ b # bs)"
  by (induction ws arbitrary: h) (auto simp: split_pipe_rest CHARSIZE_def)

lemma slots_of_Nones:
  assumes "length ws < n"
  obtains r where "slots_of n ws = map Some ws @ None # r"
proof -
  from assms have "replicate (n - length ws) None = (None :: string option) # replicate (n - length ws - 1) None"
    by (cases "n - length ws") auto
  with that show thesis by (simp add: slots_of_def)
qed

lemma hasPipe_none:
  assumes "''|'' \<notin> set ws" and "length ws < n" and "length ws < HALF"
  shows "hasPipe (slots_of n ws) = Some (False, slots_of HALF ws, slots_of HALF [])"
proof -
  obtain r where "slots_of n ws = map Some ws @ None # r" using slots_of_Nones [OF assms(2)] .
  with split_pipe_none [OF assms(1)] assms(3) show ?thesis by (simp add: hasPipe_def HALF_def)
qed

lemma hasPipe_bar:
  assumes "''|'' \<notin> set ws" and "length (ws @ ''|'' # b # bs) < n" and "length ws < HALF"
    and "length (b # bs) < HALF" and "length b < 8"
  shows "hasPipe (slots_of n (ws @ ''|'' # b # bs)) = Some (True, slots_of HALF ws, slots_of HALF (b # bs))"
proof -
  obtain r where "slots_of n (ws @ ''|'' # b # bs) = map Some (ws @ ''|'' # b # bs) @ None # r"
    using slots_of_Nones [OF assms(2)] .
  with split_pipe_bar [OF assms(1,5), of bs r "[]" "[]"] assms(3,4) show ?thesis by (simp add: hasPipe_def)
qed

section \<open>Executing one command\<close>

lemma strstr_absent: "c \<notin> set s \<Longrightarrow> strstr s (c # p) = None"
  by (induction s) auto

lemma handleIO_none:
  assumes "CHR ''<'' \<notin> set line" and "CHR ''>'' \<notin> set line" and "CHR 0x00 \<in> set line"
  shows "handleIO s line f = Some (- 1, f)"
proof -
  have "dropWhile (\<lambda>c. c \<noteq> CHR ''<'') line = []" "dropWhile (\<lambda>c. c \<noteq> CHR ''>'') line = []"
    using assms(1,2) by auto
  moreover have "strstr (takeWhile (\<lambda>c. c \<noteq> CHR 0x00) line) ''>>'' = None"
    using assms(2) by (intro strstr_absent) (auto dest: set_takeWhileD)
  ultimately show ?thesis using assms(3) unfolding handleIO_def string_in_def
    by (simp del: dropWhile_eq_Nil_conv)
qed

definition plain :: "string \<Rightarrow> bool" where
  "plain w \<longleftrightarrow> w \<noteq> [] \<and> set w \<inter> {CHR ''<'', CHR ''>'', CHR 0x00, CHR '' ''} = {} \<and> w \<noteq> ''|''"

text \<open>A command the shell finds in \<^verbatim>\<open>/bin\<close> and that can be executed.\<close>

definition runnable :: "sys \<Rightarrow> string \<Rightarrow> bool" where
  "runnable s c \<longleftrightarrow> path_dirs s \<noteq> [] \<and> hd (path_dirs s) \<noteq> None
     \<and> getCMD_loop (path_dirs s) c = Some (Some (''/bin/'' @ c)) \<and> can_exec s (''/bin/'' @ c)"

lemma getCMD_runnable: "runnable s c \<Longrightarrow> getCMD (path_dirs s) (Some c # r) = Some (Some (''/bin/'' @ c))"
  by (cases "path_dirs s") (auto simp: runnable_def getCMD_def split: option.splits)

lemma join_set: "set (join '' '' ws) \<subseteq> {CHR '' ''} \<union> \<Union> (set ` set ws)"
  by (induction "'' ''" ws rule: join.induct) auto

text \<open>No sign of a redirection in the bytes behind a buffer of \<open>n\<close> that \<^verbatim>\<open>memchr\<close> still searches.\<close>

definition quiet :: "sys \<Rightarrow> nat \<Rightarrow> bool" where
  "quiet s n \<longleftrightarrow> set (take (LINE - n) (behind s)) \<inter> {CHR ''<'', CHR ''>''} = {}"

lemma quiet_LINE [simp]: "quiet s LINE"
  by (simp add: quiet_def)

lemma seen_plain:
  assumes "quiet s n" and "\<forall>w \<in> set ws. plain w \<or> w = ''|''" and "length (join '' '' ws) < n" and "n \<le> LINE"
  shows "CHR ''<'' \<notin> set (seen s n (join '' '' ws))" and "CHR ''>'' \<notin> set (seen s n (join '' '' ws))"
    and "CHR 0x00 \<in> set (seen s n (join '' '' ws))"
proof -
  let ?l = "join '' '' ws"
  have l: "set ?l \<inter> {CHR ''<'', CHR ''>''} = {}"
    using join_set [of ws] assms(2) by (fastforce simp: plain_def)
  have "set (seen s n ?l) \<subseteq> set ?l \<union> {CHR 0x00} \<union> set (take (LINE - n) (behind s))"
    using assms(3,4) by (auto simp: seen_def dest: in_set_takeD)
  with l assms(1) show "CHR ''<'' \<notin> set (seen s n ?l)" "CHR ''>'' \<notin> set (seen s n ?l)"
    by (auto simp: quiet_def)
  have "seen s n ?l ! length ?l = CHR 0x00" "length ?l < length (seen s n ?l)"
    using assms(3,4) by (auto simp: seen_def nth_append)
  then show "CHR 0x00 \<in> set (seen s n ?l)" by (metis nth_mem)
qed

lemma seen_line: "length l < LINE \<Longrightarrow> seen s LINE l = l @ replicate (LINE - length l) (CHR 0x00)"
  by (simp add: seen_def)

lemma linuxExe_plain:
  assumes "quiet s n" and "\<forall>w \<in> set (c # ws). plain w \<or> w = ''|''"
    and "length (join '' '' (c # ws)) < n" and "n \<le> LINE" and "runnable s c"
  shows "linuxExe s (seen s n (join '' '' (c # ws))) (slots_of m (c # ws)) f = Some (Exec (''/bin/'' @ c) (c # ws) f)"
proof -
  have "slots_of m (c # ws) = Some c # tl (slots_of m (c # ws))" by (simp add: slots_of_def)
  with getCMD_runnable [OF assms(5)] have "getCMD (path_dirs s) (slots_of m (c # ws)) = Some (Some (''/bin/'' @ c))"
    by metis
  with handleIO_none [OF seen_plain [OF assms(1-4)]] assms(5) show ?thesis
    by (simp add: linuxExe_def runnable_def)
qed

section \<open>Wiring a pipeline\<close>

text \<open>The open files of a process that has the three standard ones only.\<close>

definition std :: "handle \<Rightarrow> handle \<Rightarrow> handle \<Rightarrow> fds \<Rightarrow> bool" where
  "std i o' e f \<longleftrightarrow> (\<exists>m. f = Some i # Some o' # Some e # replicate m None)"

lemma std_fd:
  assumes "std i o' e f"
  shows "fd f 0 = Some i" and "fd f 1 = Some o'" and "fd f 2 = Some e" and "3 \<le> n \<Longrightarrow> fd f n = None"
proof -
  from assms obtain m where f: "f = Some i # Some o' # Some e # replicate m None" by (auto simp: std_def)
  then show "fd f 0 = Some i" "fd f 1 = Some o'" "fd f 2 = Some e" by (simp_all add: fd_def)
  show "fd f n = None" if "3 \<le> n"
    using that unfolding f fd_def by (auto simp: nth_Cons' less_Suc_eq_le)
qed

text \<open>A pipe between two processes: the writer's output and the reader's input.\<close>

lemma pipe_ends:
  assumes "std i o' e f" and "pipe_ok s k" and "length pd = 4" and "k < 3"
    and "make_pipe s k pd f = (pd1, f1)"
  shows "length pd1 = 4"
    and "let r = pd1 ! k; w = pd1 ! (k + 1)
         in std i (Pipe_Write k) e (close_fd w (dup_fd w (close_fd 1 (close_fd r f1))))
            \<and> std (Pipe_Read k) o' e (close_fd r (dup_fd r (close_fd 0 (close_fd w f1))))"
proof -
  from assms(1) obtain m where f: "f = Some i # Some o' # Some e # replicate m None" by (auto simp: std_def)
  consider "m = 0" | "m = 1" | m' where "m = Suc (Suc m')" by (metis One_nat_def not0_implies_Suc)
  then obtain m' where p: "pd1 = pd[k := 3, k + 1 := 4]"
    and f1: "f1 = Some i # Some o' # Some e # Some (Pipe_Read k) # Some (Pipe_Write k) # replicate m' None"
    using assms(2,5) unfolding f
    by cases (auto simp: make_pipe_def put_fd_def Let_def numeral_eq_Suc split: prod.splits)
  from p assms(3) show "length pd1 = 4" by simp
  have "pd1 ! k = 3" "pd1 ! (k + 1) = 4" using p assms(3,4) by auto
  then show "let r = pd1 ! k; w = pd1 ! (k + 1)
         in std i (Pipe_Write k) e (close_fd w (dup_fd w (close_fd 1 (close_fd r f1))))
            \<and> std (Pipe_Read k) o' e (close_fd r (dup_fd r (close_fd 0 (close_fd w f1))))"
    unfolding f1 Let_def
    by (auto simp: close_fd_def dup_fd_def fd_def put_fd_def std_def numeral_eq_Suc
        intro: exI [of _ "Suc (Suc m')"])
qed

text \<open>The files of a pipeline: process j has the pipes on its two sides.\<close>

fun piped :: "handle \<Rightarrow> handle \<Rightarrow> handle \<Rightarrow> nat \<Rightarrow> string list list \<Rightarrow> fds list \<Rightarrow> bool" where
  "piped i o' e k [st] [f] \<longleftrightarrow> std i o' e f"
| "piped i o' e k (st # st' # sts) (f # fs) \<longleftrightarrow>
     std i (Pipe_Write k) e f \<and> piped (Pipe_Read k) o' e (k + 1) (st' # sts) fs"
| "piped i o' e k _ _ \<longleftrightarrow> False"

lemma piped_length: "piped i o' e k sts fs \<Longrightarrow> length fs = length sts"
  by (induction i o' e k sts fs rule: piped.induct) auto

definition words_ok :: "string list \<Rightarrow> bool" where
  "words_ok st \<longleftrightarrow> st \<noteq> [] \<and> (\<forall>w \<in> set st. plain w)"

text \<open>What becomes of the process of a stage, with its files: alone, or as one of several.\<close>

definition stage_line :: "nat \<Rightarrow> nat" where
  "stage_line n = (if n = 1 then LINE else DIR)"

definition stage_fate :: "sys \<Rightarrow> nat \<Rightarrow> string list \<Rightarrow> fds \<Rightarrow> fate option" where
  "stage_fate s n st f =
     linuxExe s (seen s (stage_line n) (join '' '' st)) (slots_of (if n = 1 then ARGS else HALF) st) f"

lemma those_Cons: "those (x # xs) = Option.bind x (\<lambda>y. map_option ((#) y) (those xs))"
  by (cases x) simp_all

text \<open>What fits into the arrays of the program.\<close>

definition halves_fit :: "string list \<Rightarrow> string list \<Rightarrow> bool" where
  "halves_fit h t \<longleftrightarrow> length h < HALF \<and> length t < HALF \<and> length (hd t) < 8
     \<and> length (join '' '' h) < DIR \<and> length (join '' '' t) < DIR"

fun fits_arrays :: "string list list \<Rightarrow> bool" where
  "fits_arrays (st # st' # sts) \<longleftrightarrow> halves_fit st (pipe_words (st' # sts)) \<and> fits_arrays (st' # sts)"
| "fits_arrays [st] \<longleftrightarrow> length st < HALF"
| "fits_arrays [] \<longleftrightarrow> True"

lemma pipe_words_Cons: "sts \<noteq> [] \<Longrightarrow> pipe_words (st # sts) = st @ ''|'' # pipe_words sts"
  by (cases sts) auto

lemma pipe_words_hd: "st \<noteq> [] \<Longrightarrow> \<exists>ws. pipe_words (st # sts) = hd st # ws"
  by (cases sts; cases st) auto

lemma pipe_words_plain:
  "\<forall>st \<in> set sts. words_ok st \<Longrightarrow> \<forall>w \<in> set (pipe_words sts). plain w \<or> w = ''|''"
  by (induction sts rule: pipe_words.induct) (auto simp: words_ok_def)

lemma handlePipes_files:
  assumes "\<forall>k. fork_ok s k" and "\<forall>k. pipe_ok s k"
  shows "std i o' e f \<Longrightarrow> length pd = 4 \<Longrightarrow> k + length sts \<le> 3 \<Longrightarrow> sts \<noteq> [] \<Longrightarrow>
    \<forall>x \<in> set (st # sts). words_ok x \<and> ''|'' \<notin> set x \<Longrightarrow> fits_arrays (st # sts) \<Longrightarrow>
    \<exists>files. piped i o' e k (st # sts) files \<and>
      handlePipes s (slots_of HALF st) (slots_of HALF (pipe_words sts)) k pd f
        = those (map2 (\<lambda>st. linuxExe s (seen s DIR (join '' '' st)) (slots_of HALF st)) (st # sts) files)"
proof (induction sts arbitrary: st i f k pd)
  case Nil
  then show ?case by simp
next
  case (Cons st' sts)
  let ?tw = "pipe_words (st' # sts)"
  let ?L = "\<lambda>st. linuxExe s (seen s DIR (join '' '' st)) (slots_of HALF st)"
  have fit: "halves_fit st ?tw" and more: "fits_arrays (st' # sts)" using Cons.prems(6) by simp_all
  from Cons.prems(5) have ok: "''|'' \<notin> set st'" and ne: "st' \<noteq> []" by (auto simp: words_ok_def)
  have k: "k < 3" using Cons.prems(3) by simp
  obtain pd1 f1 where mp: "make_pipe s k pd f = (pd1, f1)" by fastforce
  define writer where "writer = close_fd (pd1 ! Suc k) (dup_fd (pd1 ! Suc k) (close_fd 1 (close_fd (pd1 ! k) f1)))"
  define reader where "reader = close_fd (pd1 ! k) (dup_fd (pd1 ! k) (close_fd 0 (close_fd (pd1 ! Suc k) f1)))"
  note pe = pipe_ends [OF Cons.prems(1) _ Cons.prems(2) k mp]
  have ends: "length pd1 = 4" "std i (Pipe_Write k) e writer" "std (Pipe_Read k) o' e reader"
    using pe assms(2) by (simp_all add: writer_def reader_def Let_def)
  have lines: "ArrtoStr DIR (slots_of HALF st) = Some (join '' '' st)"
      "ArrtoStr DIR (slots_of HALF ?tw) = Some (join '' '' ?tw)"
    using fit by (simp_all add: ArrtoStr_def halves_fit_def)
  have unfold: "handlePipes s (slots_of HALF st) (slots_of HALF ?tw) k pd f =
      Option.bind (?L st writer) (\<lambda>parent. Option.bind (hasPipe (slots_of HALF ?tw)) (\<lambda>(more, h, t). Option.bind
        (if more then handlePipes s h t (k + 1) pd1 reader
         else Option.bind (?L ?tw reader) (\<lambda>child. Some [child]))
        (\<lambda>children. Some (parent # children))))"
    using Cons.prems(2) k assms(1) unfolding writer_def reader_def
    by (subst handlePipes.simps) (simp add: lines mp Let_def)
  show ?case
  proof (cases "sts = []")
    case True
    then have tw': "?tw = st'" by simp
    have "hasPipe (slots_of HALF st') = Some (False, slots_of HALF st', slots_of HALF [])"
      using hasPipe_none [OF ok, of HALF] fit tw' by (simp add: halves_fit_def)
    then have "handlePipes s (slots_of HALF st) (slots_of HALF ?tw) k pd f = those [?L st writer, ?L st' reader]"
      using unfold unfolding tw' by (simp add: those_Cons map_conv_bind_option comp_def del: those.simps(2))
    then show ?thesis using True ends(2,3) by (intro exI [of _ "[writer, reader]"]) simp
  next
    case False
    then obtain st2 sts2 where sts: "sts = st2 # sts2" by (cases sts) auto
    with Cons.prems(5) have "st2 \<noteq> []" by (auto simp: words_ok_def)
    from pipe_words_hd [OF this, of sts2] obtain as where pw: "pipe_words sts = hd st2 # as" unfolding sts by blast
    have fit': "halves_fit st' (pipe_words sts)" using more sts by simp
    have "?tw = st' @ ''|'' # hd st2 # as" using pipe_words_Cons [OF False] pw by simp
    moreover have "hasPipe (slots_of HALF (st' @ ''|'' # hd st2 # as))
        = Some (True, slots_of HALF st', slots_of HALF (hd st2 # as))"
      using fit fit' ok unfolding halves_fit_def calculation pw by (intro hasPipe_bar) auto
    ultimately have hp: "hasPipe (slots_of HALF ?tw) = Some (True, slots_of HALF st', slots_of HALF (pipe_words sts))"
      using pw by simp
    from Cons.IH [OF ends(3,1) _ False _ more, of "Suc k"] Cons.prems(3,5) obtain files where
      fs: "piped (Pipe_Read k) o' e (Suc k) (st' # sts) files"
      "handlePipes s (slots_of HALF st') (slots_of HALF (pipe_words sts)) (Suc k) pd1 reader
        = those (map2 ?L (st' # sts) files)" by auto
    have "handlePipes s (slots_of HALF st) (slots_of HALF ?tw) k pd f
        = those (map2 ?L (st # st' # sts) (writer # files))"
      unfolding unfold hp list.map zip_Cons_Cons those_Cons
      by (simp add: fs(2) map_conv_bind_option comp_def del: those.simps(2) list.map zip_Cons_Cons zip_Cons)
    then show ?thesis using fs(1) ends(2) by (intro exI [of _ "writer # files"] conjI) simp_all
  qed
qed

section \<open>A line of input\<close>

lemma join_split_length: "length (join '' '' (split_words '' '' w s)) \<le> length w + length s"
proof (induction s arbitrary: w)
  case (Cons c s)
  show ?case
  proof (cases "c = CHR '' ''")
    case True
    have "length (join '' '' (v # vs)) \<le> length v + 1 + length (join '' '' vs)" for v vs
      by (cases vs) auto
    from this [of w "split_words '' '' [] s"] Cons.IH [of "[]"] True show ?thesis by auto
  next
    case False
    with Cons.IH [of "w @ [c]"] show ?thesis by simp
  qed
qed auto

lemma shell_turn_runs:
  assumes "getInput (malloc s) input = Some str" and "length str < LINE"
    and "strtok_all '' '' str = ws" and "ws \<noteq> []" and "length ws < ARGS"
  shows "shell_turn s input f = run_command s (slots_of ARGS ws) f" and "length (join '' '' ws) < LINE"
proof -
  have "str \<noteq> []" using assms(3,4) by (auto simp: strtok_all_def)
  with assms createCopyStr_some [of str] show "shell_turn s input f = run_command s (slots_of ARGS ws) f"
    by (simp add: shell_turn_def argvInfo_def)
  show "length (join '' '' ws) < LINE"
    using join_split_length [of "[]" str] assms(2,3) by (simp add: strtok_all_def)
qed

text \<open>A command that is not the shell's own.\<close>

lemma run_command_forks:
  assumes "length (join '' '' (c # ws)) < LINE" and "c \<noteq> ''exit''" and "c \<noteq> ''cd''" and "fork_ok s 0"
    and "hasPipe (slots_of ARGS (c # ws)) = Some (p, h, t)"
  shows "run_command s (slots_of ARGS (c # ws)) f =
    Option.bind (if p then handlePipes s h t 0 [0, 0, 0, 0] f
      else map_option (\<lambda>x. [x]) (linuxExe s (seen s LINE (join '' '' (c # ws))) (slots_of ARGS (c # ws)) f))
      (\<lambda>fs. Some (Shell 1 f # fs))"
proof -
  obtain r where r: "slots_of ARGS (c # ws) = Some c # r" by (simp add: slots_of_def)
  have "simpleCommands s (slots_of ARGS (c # ws)) = Some (Inr False)"
    using assms(2,3) by (simp add: simpleCommands_def r)
  moreover have "ArrtoStr LINE (slots_of ARGS (c # ws)) = Some (join '' '' (c # ws))"
    using assms(1) by (simp add: ArrtoStr_def)
  ultimately show ?thesis using assms(4,5) by (cases p) (simp_all add: run_command_def map_conv_bind_option comp_def)
qed

lemma stages_run:
  assumes "quiet s (stage_line n)" and "\<forall>st \<in> set stages. words_ok st \<and> runnable s (hd st)"
    and "\<forall>st \<in> set stages. length (join '' '' st) < stage_line n" and "length files = length stages"
  shows "those (map2 (stage_fate s n) stages files) = Some (map2 (\<lambda>st. Exec (''/bin/'' @ hd st) st) stages files)"
  using assms(2-4)
proof (induction stages arbitrary: files)
  case (Cons st stages)
  then obtain f fs where files: "files = f # fs" "length fs = length stages" by (cases files) auto
  from Cons.prems(1) obtain c ws where st: "st = c # ws" by (cases st) (auto simp: words_ok_def)
  have "stage_line n \<le> LINE" by (simp add: stage_line_def LINE_def DIR_def)
  with linuxExe_plain [OF assms(1), of c ws _ f] Cons.prems(1,2) st have
    "stage_fate s n st f = Some (Exec (''/bin/'' @ hd st) st f)" by (simp add: stage_fate_def words_ok_def)
  with Cons.IH [OF _ _ files(2)] Cons.prems(1,2) show ?case by (simp add: files(1))
qed simp

lemma fits_arrays_line:
  "fits_arrays stages \<Longrightarrow> 2 \<le> length stages \<Longrightarrow> st \<in> set stages \<Longrightarrow> length (join '' '' st) < DIR"
proof (induction stages rule: fits_arrays.induct)
  case (1 st1 st2 sts)
  then show ?case by (cases sts) (auto simp: halves_fit_def)
qed auto

text \<open>C26. A line that getInput returns and whose words are a pipeline of up to four commands, which fit the
  arrays of the program, is run as a row of processes. Each reads from the pipe of the one before it and
  writes to the pipe of the one after it, the first and the last use the files of the shell, and no
  process has a pipe end open beside its own two; with these files each goes on to look for its command. When
  the commands are executable in /bin, and no sign of a redirection lies in the memory behind the buffer of
  50 that each process of several searches for 100 bytes, each executes its command with its words as
  arguments. The shell itself goes on.\<close>

theorem shell_wires_pipeline:
  assumes "\<forall>k. fork_ok s k" and "\<forall>k. pipe_ok s k" and "std i o' e f"
    and "getInput (malloc s) input = Some str" and "length str < LINE"
    and "strtok_all '' '' str = pipe_words stages" and "stages \<noteq> []" and "length stages \<le> 4"
    and "\<forall>st \<in> set stages. words_ok st" and "fits_arrays stages" and "length (pipe_words stages) < ARGS"
    and "hd (hd stages) \<noteq> ''exit''" and "hd (hd stages) \<noteq> ''cd''"
  shows "\<exists>files. piped i o' e 0 stages files \<and>
    shell_turn s input f = map_option ((#) (Shell 1 f)) (those (map2 (stage_fate s (length stages)) stages files)) \<and>
    ((\<forall>st \<in> set stages. runnable s (hd st)) \<and> quiet s (stage_line (length stages)) \<longrightarrow>
      shell_turn s input f = Some (Shell 1 f # map2 (\<lambda>st. Exec (''/bin/'' @ hd st) st) stages files))"
proof -
  obtain st sts where stages: "stages = st # sts" using assms(7) by (cases stages) auto
  have ok: "\<forall>x \<in> set stages. words_ok x \<and> ''|'' \<notin> set x"
    using assms(9) by (auto simp: words_ok_def plain_def)
  with stages have "st \<noteq> []" by (auto simp: words_ok_def)
  then obtain c ws where st: "st = c # ws" by (cases st) auto
  from pipe_words_hd [of st sts] st obtain as where pw: "pipe_words stages = c # as" unfolding stages by auto
  note turn = shell_turn_runs [OF assms(4-6) _ assms(11)]
  have len: "length (join '' '' (c # as)) < LINE" and c: "c \<noteq> ''exit''" "c \<noteq> ''cd''"
    using turn(2) assms(12,13) pw stages st by simp_all
  have tr: "shell_turn s input f = run_command s (slots_of ARGS (c # as)) f" using turn(1) pw by simp
  have fork0: "fork_ok s 0" using assms(1) by simp
  have "\<exists>files. piped i o' e 0 stages files \<and>
    shell_turn s input f = map_option ((#) (Shell 1 f)) (those (map2 (stage_fate s (length stages)) stages files))"
  proof (cases sts)
    case Nil
    then have as: "as = ws" using pw stages st by simp
    have hp: "hasPipe (slots_of ARGS (c # as)) = Some (False, slots_of HALF (c # as), slots_of HALF [])"
      using hasPipe_none [of "c # ws" ARGS] ok assms(10,11) pw stages st as Nil by simp
    have "shell_turn s input f = map_option ((#) (Shell 1 f)) (those (map2 (stage_fate s (length stages)) stages [f]))"
      using run_command_forks [OF len c fork0 hp] tr as Nil stages st
      by (simp add: stage_fate_def stage_line_def those_Cons map_conv_bind_option comp_def del: those.simps(2))
    with Nil stages assms(3) show ?thesis by (intro exI [of _ "[f]"]) simp
  next
    case (Cons st' sts')
    have ne: "st' \<noteq> []" using ok stages Cons by (auto simp: words_ok_def)
    from pipe_words_hd [OF this, of sts'] obtain bs where pw': "pipe_words (st' # sts') = hd st' # bs" by blast
    have split: "c # as = st @ ''|'' # hd st' # bs" using pw pw' stages Cons by simp
    have hp: "hasPipe (slots_of ARGS (c # as)) = Some (True, slots_of HALF st, slots_of HALF (pipe_words sts))"
      unfolding split Cons pw' using ok assms(10,11) pw split pw' stages Cons
      by (intro hasPipe_bar) (auto simp: halves_fit_def)
    from handlePipes_files [OF assms(1-3), of "[0, 0, 0, 0]" 0 sts st] ok assms(8,10) stages Cons obtain files where
      fs: "handlePipes s (slots_of HALF st) (slots_of HALF (pipe_words sts)) 0 [0, 0, 0, 0] f
        = those (map2 (\<lambda>st. linuxExe s (seen s DIR (join '' '' st)) (slots_of HALF st)) stages files)"
      "piped i o' e 0 stages files" by auto
    have "stage_fate s (length stages) = (\<lambda>st. linuxExe s (seen s DIR (join '' '' st)) (slots_of HALF st))"
      by (intro ext) (simp add: stage_fate_def stage_line_def stages Cons)
    with run_command_forks [OF len c fork0 hp] tr fs show ?thesis
      by (intro exI [of _ files]) (simp add: map_conv_bind_option comp_def)
  qed
  then obtain files where fs: "piped i o' e 0 stages files"
    "shell_turn s input f = map_option ((#) (Shell 1 f)) (those (map2 (stage_fate s (length stages)) stages files))" by blast
  have "length (join '' '' x) < stage_line (length stages)" if "x \<in> set stages" for x
  proof (cases sts)
    case Nil
    with that stages len pw show ?thesis by (simp add: stage_line_def)
  next
    case (Cons st' sts')
    with stages fits_arrays_line [OF assms(10) _ that] show ?thesis by (simp add: stage_line_def)
  qed
  then have "shell_turn s input f = Some (Shell 1 f # map2 (\<lambda>st. Exec (''/bin/'' @ hd st) st) stages files)"
    if "\<forall>st \<in> set stages. runnable s (hd st)" "quiet s (stage_line (length stages))"
    using stages_run [OF that(2), of stages files] that(1) assms(9) piped_length [OF fs(1)] fs(2) by simp
  with fs show ?thesis by blast
qed

text \<open>A system whose calls succeed, with two directories in its path.\<close>

definition friendly :: sys where
  "friendly = \<lparr>malloc = (\<lambda>n. replicate n (CHR 0x00)), behind = replicate DIR (CHR 0x00),
     can_read = (\<lambda>_. True), can_append = (\<lambda>_. True), can_write = (\<lambda>_. True), can_exec = (\<lambda>_. True),
     can_chdir = (\<lambda>_. True), home_dir = None, fork_ok = (\<lambda>_. True), pipe_ok = (\<lambda>_. True),
     path_dirs = [Some ''/usr/bin'', Some ''/bin'', None]\<rparr>"

lemma friendly_simps [simp]: "fork_ok friendly k" "pipe_ok friendly k" "can_read friendly p" "can_exec friendly p"
    "malloc friendly n = replicate n (CHR 0x00)" "quiet friendly m"
  by (auto simp: friendly_def quiet_def dest: in_set_takeD)

lemma friendly_input:
  assumes "CHR 0x00 \<notin> set input" and "newline \<notin> set input" and "length input < LINE" and "strtok_all '' '' input \<noteq> []"
  obtains str where "getInput (malloc friendly) input = Some str" and "strtok_all '' '' str = strtok_all '' '' input"
    and "length str < LINE"
proof -
  have "length (squeeze True False input) < CHARSIZE * length input + 1"
    using squeeze_length [of True False input] by (simp add: CHARSIZE_def)
  then have "malloc friendly (CHARSIZE * length input + 1) ! length (squeeze True False input) = CHR 0x00"
    by (simp del: replicate_Suc)
  moreover have "length (malloc friendly (CHARSIZE * length input + 1)) = CHARSIZE * length input + 1"
    by (simp del: replicate_Suc)
  ultimately show thesis using getInput_words [of "malloc friendly", OF _ _ assms] that by blast
qed

lemma runnable_friendly: "length c < 11 \<Longrightarrow> runnable friendly c"
  by (simp add: runnable_def friendly_def CHARSIZE_def BIN_def Let_def)

definition terminals :: fds where
  "terminals = [Some Terminal, Some Terminal, Some Terminal]"

lemma std_terminals: "std Terminal Terminal Terminal terminals"
  unfolding std_def terminals_def by (intro exI [of _ 0]) simp

theorem shell_wires_pipeline_witness:
  "\<exists>f1 f2. std Terminal (Pipe_Write 0) Terminal f1 \<and> std (Pipe_Read 0) Terminal Terminal f2 \<and>
     shell_turn friendly ''  ls -l |  wc '' terminals = Some
       [Shell 1 terminals, Exec ''/bin/ls'' [''ls'', ''-l''] f1, Exec ''/bin/wc'' [''wc''] f2]"
proof -
  let ?line = "''  ls -l |  wc ''" and ?stages = "[[''ls'', ''-l''], [''wc'']]"
  have w: "strtok_all '' '' ?line = pipe_words ?stages" by code_simp
  obtain str where str: "getInput (malloc friendly) ?line = Some str" "length str < LINE"
    "strtok_all '' '' str = pipe_words ?stages"
    using friendly_input [of ?line] w by (auto simp: LINE_def)
  have st: "\<forall>st \<in> set ?stages. words_ok st" "\<forall>st \<in> set ?stages. runnable friendly (hd st)"
    by (simp_all add: words_ok_def plain_def runnable_friendly)
  have fit: "fits_arrays ?stages" by code_simp
  from shell_wires_pipeline [OF _ _ std_terminals str _ _ st(1) fit] obtain files where
    fs: "piped Terminal Terminal Terminal 0 ?stages files"
    "shell_turn friendly ?line terminals = Some (Shell 1 terminals # map2 (\<lambda>st. Exec (''/bin/'' @ hd st) st) ?stages files)"
    using st(2) by (auto simp: ARGS_def)
  then obtain f1 f2 where "files = [f1, f2]" using piped_length [OF fs(1)] by (auto simp: length_Suc_conv)
  with fs show ?thesis by auto
qed

section \<open>Redirection\<close>

text \<open>What a sign does: the descriptor it replaces, the file it opens there, and whether it can.\<close>

definition redirect :: "sys \<Rightarrow> string \<Rightarrow> string \<Rightarrow> (nat \<times> handle \<times> bool) option" where
  "redirect s sign fname =
     (if sign = ''<'' then Some (0, Input fname, can_read s fname)
      else if sign = ''>>'' then Some (1, Append fname, can_append s fname)
      else if sign = ''>'' then Some (1, Output fname, can_write s fname)
      else None)"

lemma squeeze_word: "CHR '' '' \<notin> set w \<Longrightarrow> squeeze True False (CHR '' '' # w) = w"
proof -
  have "CHR '' '' \<notin> set w \<Longrightarrow> squeeze False p w = w" for p by (induction w arbitrary: p) auto
  then show "CHR '' '' \<notin> set w \<Longrightarrow> squeeze True False (CHR '' '' # w) = w" by simp
qed

lemma file_name_zeros:
  assumes "CHR 0x00 \<notin> set w" and "0 < n"
  shows "file_name s (CHR '' '' # w @ replicate n (CHR 0x00)) = removeWhiteSpace (malloc s) (CHR '' '' # w)"
  using string_in_zeros [of "CHR '' '' # w" n] assms by (simp add: file_name_def)

lemma strstr_after: "CHR ''>'' \<notin> set a \<Longrightarrow> strstr (a @ CHR ''>'' # CHR ''>'' # r) ''>>'' = Some (CHR ''>'' # CHR ''>'' # r)"
  by (induction a) auto

lemma strstr_one: "CHR ''>'' \<notin> set a \<Longrightarrow> CHR ''>'' \<notin> set r \<Longrightarrow> strstr (a @ CHR ''>'' # r) ''>>'' = None"
proof (induction a)
  case Nil
  then show ?case using strstr_absent [of "CHR ''>''" r "''>''"] by (cases r) auto
qed auto

lemma dropWhile_until: "c \<notin> set a \<Longrightarrow> dropWhile (\<lambda>x. x \<noteq> c) (a @ c # r) = c # r"
  by (induction a) auto

lemma handleIO_redirects:
  assumes "set a \<inter> {CHR ''<'', CHR ''>'', CHR 0x00} = {}" and "plain fname" and "0 < n"
    and "removeWhiteSpace (malloc s) (CHR '' '' # fname) = Some opens" and "redirect s sign opens = Some (d, h, ok)"
  shows "handleIO s (a @ sign @ CHR '' '' # fname @ replicate n (CHR 0x00)) f = Some (reopen d h ok f)"
proof -
  let ?r = "CHR '' '' # fname @ replicate n (CHR 0x00)"
  have chars: "CHR 0x00 \<notin> set fname" "CHR '' '' \<notin> set fname" "CHR ''<'' \<notin> set fname" "CHR ''>'' \<notin> set fname"
    using assms(2) by (auto simp: plain_def)
  have a: "CHR ''<'' \<notin> set a" "CHR ''>'' \<notin> set a" "CHR 0x00 \<notin> set a" using assms(1) by auto
  have name: "file_name s ?r = Some opens" using file_name_zeros [OF chars(1) assms(3)] assms(4) by simp
  have "sign = ''<'' \<or> sign = ''>>'' \<or> sign = ''>''"
    using assms(5) by (auto simp: redirect_def split: if_splits)
  then show ?thesis
  proof (elim disjE)
    assume sg: "sign = ''<''"
    show ?thesis
      using dropWhile_until [OF a(1), of ?r] name assms(5) sg by (simp add: handleIO_def redirect_def)
  next
    assume sg: "sign = ''>>''"
    have d: "d = 1" "h = Append opens" "ok = can_append s opens" using assms(5) sg by (auto simp: redirect_def)
    have no: "dropWhile (\<lambda>x. x \<noteq> CHR ''<'') (a @ ''>>'' @ ?r) = []" using a(1) chars(3) by auto
    have str: "string_in (a @ ''>>'' @ ?r) = Some (a @ ''>>'' @ CHR '' '' # fname)"
      using string_in_zeros [of "a @ ''>>'' @ CHR '' '' # fname" n] a(3) chars(1) assms(3) by simp
    show ?thesis
      using strstr_after [OF a(2), of "CHR '' '' # fname"] assms(4) no str
      unfolding d sg by (simp add: handleIO_def)
  next
    assume sg: "sign = ''>''"
    have no: "dropWhile (\<lambda>x. x \<noteq> CHR ''<'') (a @ ''>'' @ ?r) = []" using a(1) chars(3) by auto
    have str: "string_in (a @ ''>'' @ ?r) = Some (a @ ''>'' @ CHR '' '' # fname)"
      using string_in_zeros [of "a @ ''>'' @ CHR '' '' # fname" n] a(3) chars(1) assms(3) by simp
    show ?thesis
      using strstr_one [OF a(2), of "CHR '' '' # fname"] dropWhile_until [OF a(2), of ?r] chars(4) name no str assms(5) sg
      by (simp add: handleIO_def redirect_def)
  qed
qed

lemma join_word_snoc: "ws \<noteq> [] \<Longrightarrow> join '' '' (ws @ [v]) = join '' '' ws @ CHR '' '' # v"
  by (induction "'' ''" ws rule: join.induct) auto

lemma join_redirect:
  assumes "ws \<noteq> []"
  shows "join '' '' (ws @ [sign, fname]) = (join '' '' ws @ '' '') @ sign @ CHR '' '' # fname"
proof -
  have "join '' '' ((ws @ [sign]) @ [fname]) = join '' '' (ws @ [sign]) @ CHR '' '' # fname"
    by (rule join_word_snoc) simp
  with join_word_snoc [OF assms, of sign] show ?thesis by simp
qed

lemma plain_no_sign: "plain w \<Longrightarrow> w \<noteq> ''<'' \<and> w \<noteq> ''>'' \<and> w \<noteq> ''>>''"
  by (auto simp: plain_def)

lemma removeIOArgs_redirect:
  "\<forall>w \<in> set ws. plain w \<Longrightarrow> sign = ''<'' \<or> sign = ''>'' \<or> sign = ''>>'' \<Longrightarrow>
   removeIOArgs (map Some ws @ Some sign # Some fname # None # r) = Some (map Some ws @ None # None # None # r)"
  using plain_no_sign by (induction ws) auto

lemma strings_map: "strings (map Some ws @ None # r) = ws"
  by (induction ws) auto

lemma reopen_std:
  assumes "std i o' e f" and "d < 2"
  shows "reopen d h ok f = (if ok then (int d, f[d := Some h]) else (- 1, f[d := None]))"
proof -
  from assms(1) obtain m where f: "f = Some i # Some o' # Some e # replicate m None" by (auto simp: std_def)
  from assms(2) have "d = 0 \<or> d = 1" by auto
  then show ?thesis unfolding f by (auto simp: reopen_def close_fd_def put_fd_def Let_def)
qed

lemma getCMD_first: "getCMD dirs (Some c # r) = getCMD dirs [Some c]"
  by (auto simp: getCMD_def split: list.splits option.splits)

lemma getCMD_runnable_one: "runnable s c \<Longrightarrow> getCMD (path_dirs s) [Some c] = Some (Some (''/bin/'' @ c))"
  by (rule getCMD_runnable)

text \<open>C27. A command with a redirection at its end: its process has the file in the place of its standard
  input or output and the words before the sign as arguments. The file is the one removeWhiteSpace makes of the
  name: the name and, because nothing ends it, what the block of \<^verbatim>\<open>malloc\<close> holds behind it up to a zero. When the
  file cannot be opened the command is run nevertheless, with the place closed and the sign and the name
  among its arguments. A command that getCMD does not find, or that cannot be executed, leaves a second
  shell with these files.\<close>

theorem shell_redirects:
  assumes "fork_ok s 0" and "std i o' e f"
    and "getInput (malloc s) input = Some str" and "length str < LINE" and "strtok_all '' '' str = ws @ [sign, fname]"
    and "words_ok ws" and "plain fname" and "length ws + 2 < HALF" and "hd ws \<noteq> ''exit''" and "hd ws \<noteq> ''cd''"
    and "removeWhiteSpace (malloc s) ('' '' @ fname) = Some opens" and "redirect s sign opens = Some (d, h, ok)"
    and "getCMD (path_dirs s) [Some (hd ws)] = Some command"
  shows "(\<exists>junk. opens = fname @ junk) \<and> shell_turn s input f = Some [Shell 1 f,
    (let g = f[d := if ok then Some h else None]
     in case command of
          Some c \<Rightarrow> if can_exec s c then Exec c (if ok then ws else ws @ [sign, fname]) g else Shell (-1) g
        | None \<Rightarrow> Shell (-1) g)]"
proof -
  obtain c as where ws: "ws = c # as" using assms(6) by (cases ws) (auto simp: words_ok_def)
  have sign: "sign = ''<'' \<or> sign = ''>'' \<or> sign = ''>>''" and d: "d < 2"
    using assms(12) by (auto simp: redirect_def split: if_splits)
  have pl: "\<forall>w \<in> set ws. plain w" using assms(6) by (simp add: words_ok_def)
  let ?words = "c # as @ [sign, fname]"
  note turn = shell_turn_runs [OF assms(3-5)]
  have len: "length (join '' '' ?words) < LINE" and tr: "shell_turn s input f = run_command s (slots_of ARGS ?words) f"
    using turn assms(8) ws by (simp_all add: HALF_def ARGS_def)
  have bar: "''|'' \<notin> set ?words" using pl sign assms(7) ws by (auto simp: plain_def)
  have hp: "hasPipe (slots_of ARGS ?words) = Some (False, slots_of HALF ?words, slots_of HALF [])"
    using hasPipe_none [OF bar, of ARGS] assms(8) ws by (simp add: HALF_def ARGS_def)
  let ?a = "join '' '' ws @ '' ''"
  have line: "join '' '' ?words = ?a @ sign @ CHR '' '' # fname"
    using join_redirect [of ws sign fname] ws by simp
  define n where "n = LINE - length (join '' '' ?words)"
  have "0 < n" using len by (simp add: n_def)
  have "seen s LINE (join '' '' ?words) = join '' '' ?words @ replicate n (CHR 0x00)"
    unfolding n_def by (rule seen_line [OF len])
  then have "seen s LINE (join '' '' ?words) = ?a @ sign @ CHR '' '' # fname @ replicate n (CHR 0x00)"
    unfolding line by simp
  moreover have "set ?a \<inter> {CHR ''<'', CHR ''>'', CHR 0x00} = {}"
    using join_set [of ws] pl by (fastforce simp: plain_def)
  ultimately have io: "handleIO s (seen s LINE (join '' '' ?words)) f
      = Some (if ok then (int d, f[d := Some h]) else (- 1, f[d := None]))"
    using handleIO_redirects [OF _ assms(7) \<open>0 < n\<close> _ assms(12), of ?a] assms(11) reopen_std [OF assms(2) d] by simp
  obtain r where r: "slots_of ARGS ?words = map Some ws @ Some sign # Some fname # None # r"
    using slots_of_Nones [of ?words ARGS] assms(8) ws by (auto simp: HALF_def ARGS_def)
  have rem: "removeIOArgs (slots_of ARGS ?words) = Some (map Some ws @ None # None # None # r)"
    unfolding r by (rule removeIOArgs_redirect [OF pl sign])
  have "getCMD (path_dirs s) (slots_of ARGS ?words) = Some command"
    unfolding r using assms(13) ws getCMD_first [of "path_dirs s" c "map Some as @ Some sign # Some fname # None # r"] by simp
  then have "linuxExe s (seen s LINE (join '' '' ?words)) (slots_of ARGS ?words) f = Some
    (let g = f[d := if ok then Some h else None]
     in case command of
          Some c \<Rightarrow> if can_exec s c then Exec c (if ok then ws else ws @ [sign, fname]) g else Shell (-1) g
        | None \<Rightarrow> Shell (-1) g)"
    using io rem ws by (cases ok) (simp_all add: linuxExe_def strings_map Let_def split: option.split)
  with run_command_forks [OF len _ _ assms(1) hp] assms(9,10) tr ws show ?thesis
    using removeWhiteSpace_ends [OF assms(11)] squeeze_word [of fname] assms(7) by (simp add: plain_def)
qed

theorem shell_redirects_witness:
  "shell_turn friendly ''sort -r < names'' terminals = Some [Shell 1 terminals,
     Exec ''/bin/sort'' [''sort'', ''-r''] [Some (Input ''names''), Some Terminal, Some Terminal]]"
proof -
  have w: "strtok_all '' '' ''sort -r < names'' = [''sort'', ''-r''] @ [''<'', ''names'']" by code_simp
  obtain str where str: "getInput (malloc friendly) ''sort -r < names'' = Some str" "length str < LINE"
    "strtok_all '' '' str = [''sort'', ''-r''] @ [''<'', ''names'']"
    using friendly_input [of "''sort -r < names''"] w by (auto simp: LINE_def)
  have "removeWhiteSpace (malloc friendly) ('' '' @ ''names'') = Some ''names''" by code_simp
  moreover have "words_ok [''sort'', ''-r'']" "plain ''names''"
    by (simp_all add: words_ok_def plain_def)
  moreover have "redirect friendly ''<'' ''names'' = Some (0, Input ''names'', True)"
    by (simp add: redirect_def)
  moreover have "getCMD (path_dirs friendly) [Some ''sort''] = Some (Some ''/bin/sort'')"
    using getCMD_runnable_one [OF runnable_friendly, of "''sort''"] by simp
  ultimately show ?thesis
    using shell_redirects [OF _ std_terminals str, of "''names''" 0 "Input ''names''" True "Some ''/bin/sort''"]
    by (simp add: LINE_def HALF_def terminals_def)
qed

section \<open>A command that is not there\<close>

text \<open>A command that cannot be executed leaves its process in the loop of the shell: two shells read on.\<close>

lemma failed_exec_is_shell:
  assumes "\<forall>w \<in> set (c # ws). plain w" and "length (join '' '' (c # ws)) < LINE"
    and "getCMD (path_dirs s) (slots_of ARGS (c # ws)) = Some None" and "fork_ok s 0"
    and "length (c # ws) < HALF" and "c \<noteq> ''exit''" and "c \<noteq> ''cd''"
  shows "run_command s (slots_of ARGS (c # ws)) f = Some [Shell 1 f, Shell (- 1) f]"
proof -
  have bar: "''|'' \<notin> set (c # ws)" using assms(1) by (auto simp: plain_def)
  have hp: "hasPipe (slots_of ARGS (c # ws)) = Some (False, slots_of HALF (c # ws), slots_of HALF [])"
    using hasPipe_none [OF bar, of ARGS] assms(5) by (simp add: HALF_def ARGS_def)
  have "handleIO s (seen s LINE (join '' '' (c # ws))) f = Some (- 1, f)"
    using handleIO_none [OF seen_plain [OF quiet_LINE _ assms(2)]] assms(1) by auto
  with assms(3) run_command_forks [OF assms(2,6,7,4) hp] show ?thesis by (simp add: linuxExe_def)
qed

section \<open>Lines\<close>

text \<open>A line of up to 98 characters is read as it was typed. Of a longer one the first 99 characters are kept and
  the others dropped: what is typed next is read as if nothing had happened.\<close>

theorem read_line_keeps_in_step:
  assumes "Text.plain l"
  shows "read_line (l @ newline # rest) = (take 99 l, rest)"
proof (cases "length l < 99")
  case True
  then obtain k where k: "99 = Suc (length l + k)" using less_natE [OF True] by auto
  have nl: "newline \<notin> set l" using assms by (simp add: Text.plain_def)
  then have "takeWhile (\<lambda>c. c \<noteq> newline) (l @ newline # x) = l" "dropWhile (\<lambda>c. c \<noteq> newline) (l @ newline # x) = newline # x"
    for x by (auto simp: takeWhile_append dropWhile_append)
  moreover have "take 99 (l @ newline # rest) = l @ newline # take k rest" unfolding k by simp
  ultimately have "fgets LINE [] (l @ newline # rest) = (l @ [newline], rest)"
    by (simp add: fgets_def LINE_def Let_def)
  moreover have "takeWhile (\<lambda>c. c \<noteq> newline) (l @ [newline]) = l" using nl by (auto simp: takeWhile_append)
  ultimately show ?thesis using True Text.plain_takeWhile [OF assms, of "[]"] by (simp add: read_line_def)
next
  case False
  define a b where "a = take 99 l" and "b = drop 99 l"
  have l: "l = a @ b" "length a = 99" using False by (simp_all add: a_def b_def)
  with assms have nl: "newline \<notin> set a" "newline \<notin> set b" and tw: "takeWhile (\<lambda>c. c \<noteq> CHR 0x00) a = a"
    by (auto simp: Text.plain_def takeWhile_eq_all_conv)
  have "fgets LINE [] (l @ newline # rest) = (a, b @ newline # rest)"
    using nl l by (simp add: fgets_def LINE_def Let_def)
  moreover have "dropWhile (\<lambda>c. c \<noteq> newline) (b @ newline # rest) = newline # rest" using nl(2) by (auto simp: dropWhile_append)
  moreover have "a \<noteq> []" "take 99 l = a" using l by auto
  ultimately show ?thesis using nl(1) by (simp add: read_line_def tw)
qed

end
