(* ===== verification/Ext2.thy ===== *)
theory Ext2
  imports Text Words "HOL-Library.Monad_Syntax"
begin

text \<open>
  What the programs of \<^verbatim>\<open>Lab5\<close> and \<^verbatim>\<open>Lab6\<close> read of an ext2 disk: blocks, inodes and directory entries,
  in the layout that \<^verbatim>\<open>Lab6/Code/Header.h\<close> quotes, and the loop over the entries of a directory that all
  their searches are made of. The disk is the list of its bytes. \<open>None\<close> is a read of memory that has not
  been filled, a read outside an array, or a loop that never ends.
\<close>

type_synonym u16 = "16 word"

section \<open>Structures\<close>

definition BLKSIZE :: nat where "BLKSIZE = 1024"
definition N_BLOCKS :: nat where "N_BLOCKS = 15"
definition INODE_SIZE :: nat where "INODE_SIZE = 128"

definition load_u16 :: "u8 list \<Rightarrow> nat \<Rightarrow> u16" where
  "load_u16 b i = (ucast (b ! i)) OR push_bit 8 (ucast (b ! (i + 1)))"

record INODE =
  i_mode :: u16
  i_uid :: u16
  i_size :: u32
  i_mtime :: u32
  i_gid :: u16
  i_links_count :: u16
  i_blocks :: u32
  i_block :: "u32 list"

definition inode_in :: "u8 list \<Rightarrow> nat \<Rightarrow> INODE" where
  "inode_in b p = \<lparr>i_mode = load_u16 b p, i_uid = load_u16 b (p + 2), i_size = load_u32 b (p + 4),
     i_mtime = load_u32 b (p + 16), i_gid = load_u16 b (p + 24), i_links_count = load_u16 b (p + 26),
     i_blocks = load_u32 b (p + 28), i_block = map (\<lambda>k. load_u32 b (p + 40 + 4 * k)) [0..<N_BLOCKS]\<rparr>"

record DIRE =
  inode :: u32
  rec_len :: u16
  name_len :: u8
  entry_name :: string

text \<open>\<^verbatim>\<open>strncpy(temp, dp->name, dp->name_len)\<close> with a zero put behind: the bytes up to the length or a zero.\<close>

definition name_at :: "u8 list \<Rightarrow> nat \<Rightarrow> nat \<Rightarrow> string option" where
  "name_at b p n =
     (let bytes = take n (drop p b)
      in if length bytes = n \<or> 0 \<in> set bytes
         then Some (map (\<lambda>w. char_of (unat w)) (takeWhile (\<lambda>w. w \<noteq> 0) bytes)) else None)"

definition dire_at :: "u8 list \<Rightarrow> nat \<Rightarrow> DIRE option" where
  "dire_at b cp =
     (if cp + 8 \<le> length b then
        map_option (\<lambda>s. \<lparr>inode = load_u32 b cp, rec_len = load_u16 b (cp + 4), name_len = b ! (cp + 6),
          entry_name = s\<rparr>) (name_at b (cp + 8) (unat (b ! (cp + 6))))
      else None)"

section \<open>Blocks\<close>

definition get_block :: "u8 list \<Rightarrow> nat \<Rightarrow> u8 list option" where
  "get_block disk blk =
     (if (blk + 1) * BLKSIZE \<le> length disk then Some (take BLKSIZE (drop (blk * BLKSIZE) disk)) else None)"

definition put_block :: "u8 list \<Rightarrow> nat \<Rightarrow> u8 list \<Rightarrow> u8 list" where
  "put_block disk blk buf = take (blk * BLKSIZE) disk @ buf @ drop ((blk + 1) * BLKSIZE) disk"

section \<open>Directory entries\<close>

text \<open>The loop over the entries of a block: the first one with the property that is looked for.\<close>

partial_function (option) find_entry :: "(DIRE \<Rightarrow> bool) \<Rightarrow> u8 list \<Rightarrow> nat \<Rightarrow> DIRE option option" where
  "find_entry test buf cp =
     (if cp < BLKSIZE then do {
        dp \<leftarrow> dire_at buf cp;
        if test dp then Some (Some dp) else find_entry test buf (cp + unat (rec_len dp))
      }
      else Some None)"

declare find_entry.simps [code]

text \<open>The loop over the blocks of a directory, counted by \<^verbatim>\<open>i_blocks\<close>.\<close>

function find_blocks :: "(nat \<Rightarrow> u8 list option) \<Rightarrow> (DIRE \<Rightarrow> bool) \<Rightarrow> INODE \<Rightarrow> nat \<Rightarrow> DIRE option option" where
  "find_blocks get P ip i =
     (if i < unat (i_blocks ip) then
        if i < length (i_block ip) then do {
          buf \<leftarrow> get (unat (i_block ip ! i));
          hit \<leftarrow> find_entry P buf 0;
          (case hit of Some dp \<Rightarrow> Some (Some dp) | None \<Rightarrow> find_blocks get P ip (i + 1))
        }
        else None
      else Some None)"
  by pat_completeness auto
termination
  by (relation "measure (\<lambda>(get, P, ip, i). unat (i_blocks ip) - i)") auto

declare find_blocks.simps [simp del]

text \<open>
  The same two loops turn by turn: at the block with an index, or in a block at an offset. A turn is \<open>Inr\<close>
  when the search returns, and \<open>None\<close> at a read outside of an array or of a block that is not there.
\<close>

datatype search_place = At_Block nat | At_Entry nat "u8 list" nat

fun scan_turn :: "(nat \<Rightarrow> u8 list option) \<Rightarrow> (DIRE \<Rightarrow> bool) \<Rightarrow> INODE \<Rightarrow> search_place \<Rightarrow> (search_place + DIRE option) option" where
  "scan_turn get P ip (At_Block i) =
     (if i < unat (i_blocks ip) then
        if i < length (i_block ip) then do {
          buf \<leftarrow> get (unat (i_block ip ! i));
          Some (Inl (At_Entry i buf 0))
        }
        else None
      else Some (Inr None))"
| "scan_turn get P ip (At_Entry i buf cp) =
     (if cp < BLKSIZE then do {
        dp \<leftarrow> dire_at buf cp;
        Some (if P dp then Inr (Some dp) else Inl (At_Entry i buf (cp + unat (rec_len dp))))
      }
      else Some (Inl (At_Block (i + 1))))"

abbreviation goes_on :: "(nat \<Rightarrow> u8 list option) \<Rightarrow> (DIRE \<Rightarrow> bool) \<Rightarrow> INODE \<Rightarrow> search_place \<Rightarrow> search_place \<Rightarrow> bool" where
  "goes_on get P ip x y \<equiv> scan_turn get P ip x = Some (Inl y)"

text \<open>All entries of a block, in order: the loop of the listings.\<close>

partial_function (option) all_entries :: "u8 list \<Rightarrow> nat \<Rightarrow> DIRE list option" where
  "all_entries buf cp =
     (if cp < BLKSIZE then do {
        dp \<leftarrow> dire_at buf cp;
        rest \<leftarrow> all_entries buf (cp + unat (rec_len dp));
        Some (dp # rest)
      }
      else Some [])"

declare all_entries.simps [code]

section \<open>What a directory holds\<close>

text \<open>The entries of a well formed block from an offset on.\<close>

fun block_entries :: "u8 list \<Rightarrow> nat \<Rightarrow> DIRE list \<Rightarrow> bool" where
  "block_entries buf cp [] \<longleftrightarrow> BLKSIZE \<le> cp"
| "block_entries buf cp (e # es) \<longleftrightarrow>
     cp < BLKSIZE \<and> dire_at buf cp = Some e \<and> block_entries buf (cp + unat (rec_len e)) es"

lemma find_entry_block: "block_entries buf cp es \<Longrightarrow> find_entry P buf cp = Some (List.find P es)"
  by (induction es arbitrary: cp) (auto simp: find_entry.simps)

lemma all_entries_block: "block_entries buf cp es \<Longrightarrow> all_entries buf cp = Some es"
  by (induction es arbitrary: cp) (auto simp: all_entries.simps)

text \<open>A block of zeros has an entry of length zero, at which the loops stay for ever.\<close>

definition zero_entry :: DIRE where
  "zero_entry = \<lparr>inode = 0, rec_len = 0, name_len = 0, entry_name = []\<rparr>"

lemma dire_at_zeros: "dire_at (replicate BLKSIZE 0) 0 = Some zero_entry"
  by (simp add: dire_at_def zero_entry_def name_at_def load_u32_def load_u16_def BLKSIZE_def)

definition stuck_at :: "(DIRE \<Rightarrow> bool) \<Rightarrow> u8 list \<Rightarrow> nat \<Rightarrow> bool" where
  "stuck_at P buf cp \<longleftrightarrow> cp < BLKSIZE \<and> (\<exists>e. dire_at buf cp = Some e \<and> rec_len e = 0 \<and> \<not> P e)"

lemma find_entry_stuck: "find_entry P buf cp = Some r \<Longrightarrow> \<not> stuck_at P buf cp"
proof (induction rule: find_entry.raw_induct [rotated, consumes 1, case_names step])
  case (step go P buf cp r)
  show ?case
  proof
    assume s: "stuck_at P buf cp"
    with step.hyps have "go P buf cp = Some r" by (auto simp: stuck_at_def)
    from step.IH [OF this] s show False by blast
  qed
qed

lemma find_entry_zeros: "\<not> P zero_entry \<Longrightarrow> find_entry P (replicate BLKSIZE 0) 0 = None"
  using find_entry_stuck [of P "replicate BLKSIZE 0" 0] dire_at_zeros
  by (cases "find_entry P (replicate BLKSIZE 0) 0") (auto simp: stuck_at_def zero_entry_def BLKSIZE_def)

text \<open>A directory as the file system makes it: its blocks are well formed, the count is in half blocks, so
  the loop goes on to the first unused block pointer, which is 0, and block 0 of the disk is empty.\<close>

definition dir_holds :: "(nat \<Rightarrow> u8 list option) \<Rightarrow> INODE \<Rightarrow> DIRE list list \<Rightarrow> bool" where
  "dir_holds get ip ess \<longleftrightarrow>
     ess \<noteq> [] \<and> unat (i_blocks ip) = 2 * length ess \<and> length (i_block ip) = N_BLOCKS \<and> length ess < N_BLOCKS
     \<and> (\<forall>i < length ess. \<exists>buf. get (unat (i_block ip ! i)) = Some buf \<and> block_entries buf 0 (ess ! i))
     \<and> i_block ip ! length ess = 0 \<and> get 0 = Some (replicate BLKSIZE 0)"

text \<open>A search that finds nothing in such a directory gets to the empty block and never leaves it.\<close>

lemma scan_block:
  "block_entries buf cp es \<Longrightarrow> List.find P es = None \<Longrightarrow> (goes_on get P ip)\<^sup>*\<^sup>* (At_Entry i buf cp) (At_Block (i + 1))"
proof (induction es arbitrary: cp)
  case Nil
  then show ?case by (intro r_into_rtranclp) simp
next
  case (Cons e es)
  then have "goes_on get P ip (At_Entry i buf cp) (At_Entry i buf (cp + unat (rec_len e)))" by (simp split: if_splits)
  with Cons.IH [of "cp + unat (rec_len e)"] Cons.prems show ?case
    by (auto split: if_splits intro: converse_rtranclp_into_rtranclp)
qed

lemma scan_blocks:
  assumes "dir_holds get ip ess" and "List.find P (concat ess) = None"
  shows "i \<le> length ess \<Longrightarrow> (goes_on get P ip)\<^sup>*\<^sup>* (At_Block 0) (At_Block i)"
proof (induction i)
  case (Suc i)
  then have i: "i < length ess" by simp
  with assms(1) obtain buf where buf: "get (unat (i_block ip ! i)) = Some buf" "block_entries buf 0 (ess ! i)"
    by (auto simp: dir_holds_def)
  have "i < unat (i_blocks ip)" "i < length (i_block ip)" using assms(1) i by (auto simp: dir_holds_def)
  with buf(1) have "goes_on get P ip (At_Block i) (At_Entry i buf 0)" by simp
  note first = converse_rtranclp_into_rtranclp [of "goes_on get P ip", OF this]
  have "List.find P (ess ! i) = None"
    using assms(2) i unfolding find_None_iff by (auto dest: nth_mem)
  from first [OF scan_block [OF buf(2) this, of get ip i]] Suc show ?case by (auto intro: rtranclp_trans)
qed simp

lemma scan_forever:
  assumes "dir_holds get ip ess" and "List.find P (concat ess) = None" and "\<not> P zero_entry"
  shows "runs_forever (goes_on get P ip) (At_Block 0)"
proof -
  let ?zeros = "replicate BLKSIZE 0"
  have "length ess < unat (i_blocks ip)" "length ess < length (i_block ip)" using assms(1) by (auto simp: dir_holds_def)
  with assms(1) have "goes_on get P ip (At_Block (length ess)) (At_Entry (length ess) ?zeros 0)"
    by (simp add: dir_holds_def)
  with scan_blocks [OF assms(1,2) order_refl] have
    "(goes_on get P ip)\<^sup>*\<^sup>* (At_Block 0) (At_Entry (length ess) ?zeros 0)" by (rule rtranclp.rtrancl_into_rtrancl)
  moreover have "goes_on get P ip (At_Entry (length ess) ?zeros 0) (At_Entry (length ess) ?zeros 0)"
    using dire_at_zeros assms(3) by (simp add: zero_entry_def BLKSIZE_def)
  ultimately show ?thesis
    by (intro runs_forever_rounds [where P = "\<lambda>x. x = At_Entry (length ess) ?zeros 0"]) auto
qed

text \<open>A search that returns is a sequence of turns that ends.\<close>

lemma find_entry_turns:
  "find_entry P buf cp = Some r \<Longrightarrow>
   case r of None \<Rightarrow> (goes_on get P ip)\<^sup>*\<^sup>* (At_Entry i buf cp) (At_Block (i + 1))
   | Some dp \<Rightarrow> \<exists>x. (goes_on get P ip)\<^sup>*\<^sup>* (At_Entry i buf cp) x \<and> scan_turn get P ip x = Some (Inr r)"
proof (induction rule: find_entry.raw_induct [rotated, consumes 1, case_names step])
  case (step go P buf cp r)
  show ?case
  proof (cases "cp < BLKSIZE")
    case True
    with step.hyps obtain dp where dp: "dire_at buf cp = Some dp"
      "(if P dp then Some (Some dp) else go P buf (cp + unat (rec_len dp))) = Some r" by (auto simp: bind_eq_Some_conv)
    show ?thesis
    proof (cases "P dp")
      case True
      with dp(2) have r: "r = Some dp" by simp
      moreover have "scan_turn get P ip (At_Entry i buf cp) = Some (Inr (Some dp))" using True dp(1) \<open>cp < BLKSIZE\<close> by simp
      ultimately show ?thesis by auto
    next
      case False
      with dp \<open>cp < BLKSIZE\<close> have "goes_on get P ip (At_Entry i buf cp) (At_Entry i buf (cp + unat (rec_len dp)))" by simp
      note first = converse_rtranclp_into_rtranclp [of "goes_on get P ip", OF this]
      from step.IH [of P buf "cp + unat (rec_len dp)" r] dp(2) False show ?thesis
        by (cases r) (auto intro: first simp del: scan_turn.simps)
    qed
  next
    case False
    with step.hyps show ?thesis by (auto intro: r_into_rtranclp)
  qed
qed

lemma find_blocks_turns:
  "find_blocks get P ip i = Some r \<Longrightarrow> \<exists>x. (goes_on get P ip)\<^sup>*\<^sup>* (At_Block i) x \<and> scan_turn get P ip x = Some (Inr r)"
proof (induction "unat (i_blocks ip) - i" arbitrary: i)
  case 0
  then show ?case by (auto simp: find_blocks.simps [of _ _ _ i] intro: exI [of _ "At_Block i"])
next
  case (Suc n)
  then have i: "i < unat (i_blocks ip)" by simp
  with Suc.prems obtain buf hit where b: "i < length (i_block ip)" "get (unat (i_block ip ! i)) = Some buf"
    "find_entry P buf 0 = Some hit"
    "(case hit of Some dp \<Rightarrow> Some (Some dp) | None \<Rightarrow> find_blocks get P ip (Suc i)) = Some r"
    unfolding find_blocks.simps [of get P ip i] by (auto simp: bind_eq_Some_conv split: if_split_asm)
  have "goes_on get P ip (At_Block i) (At_Entry i buf 0)" using i b(1,2) by simp
  note first = converse_rtranclp_into_rtranclp [of "goes_on get P ip", OF this]
  show ?case
  proof (cases hit)
    case None
    then have "find_blocks get P ip (Suc i) = Some r" using b(4) by simp
    then obtain x where x: "(goes_on get P ip)\<^sup>*\<^sup>* (At_Block (Suc i)) x" "scan_turn get P ip x = Some (Inr r)"
      using Suc.hyps(1) [of "Suc i"] Suc.hyps(2) by force
    moreover have "(goes_on get P ip)\<^sup>*\<^sup>* (At_Entry i buf 0) (At_Block (Suc i))"
      using find_entry_turns [OF b(3), of get ip i] None by simp
    ultimately show ?thesis using first by (meson rtranclp_trans)
  next
    case (Some dp)
    with find_entry_turns [OF b(3), of get ip i] b(4) first show ?thesis by auto
  qed
qed

lemma find_blocks_forever:
  assumes "runs_forever (goes_on get P ip) (At_Block 0)"
  shows "find_blocks get P ip 0 = None"
proof (rule ccontr)
  assume "find_blocks get P ip 0 \<noteq> None"
  then obtain r x where x: "(goes_on get P ip)\<^sup>*\<^sup>* (At_Block 0) x" "scan_turn get P ip x = Some (Inr r)"
    using find_blocks_turns [of get P ip 0] by blast
  define f where "f = (\<lambda>x. case scan_turn get P ip x of Some (Inl y) \<Rightarrow> Some y | _ \<Rightarrow> None)"
  have "goes_on get P ip = (\<lambda>x y. f x = Some y)"
    by (intro ext) (auto simp: f_def split: option.splits sum.splits)
  with runs_forever_unending [of f "At_Block 0" x] assms x show False by (simp add: f_def)
qed

lemma find_concat_drop:
  "i < length ess \<Longrightarrow> List.find P (concat (drop i ess))
    = (case List.find P (ess ! i) of Some e \<Rightarrow> Some e | None \<Rightarrow> List.find P (concat (drop (Suc i) ess)))"
proof -
  assume "i < length ess"
  then have "concat (drop i ess) = ess ! i @ concat (drop (Suc i) ess)" by (simp add: Cons_nth_drop_Suc [symmetric])
  moreover have "List.find P (xs @ ys) = (case List.find P xs of Some e \<Rightarrow> Some e | None \<Rightarrow> List.find P ys)" for xs ys
    by (induction xs) auto
  ultimately show ?thesis by simp
qed

lemma find_blocks_dir:
  assumes "dir_holds get ip ess" and "\<not> P zero_entry"
  shows "find_blocks get P ip 0 = map_option Some (List.find P (concat ess))"
proof -
  have "i \<le> length ess \<Longrightarrow> find_blocks get P ip i = map_option Some (List.find P (concat (drop i ess)))" for i
  proof (induction "length ess - i" arbitrary: i)
    case 0
    then have i: "i = length ess" by simp
    have "i < 2 * length ess" "i < N_BLOCKS" using assms(1) i by (auto simp: dir_holds_def)
    with assms(1) i find_entry_zeros [of P] assms(2) show ?case
      by (subst find_blocks.simps) (simp add: dir_holds_def)
  next
    case (Suc n)
    then have i: "i < length ess" by simp
    with assms(1) obtain buf where buf: "get (unat (i_block ip ! i)) = Some buf" "block_entries buf 0 (ess ! i)"
      by (auto simp: dir_holds_def)
    have "i < 2 * length ess" "i < N_BLOCKS" using assms(1) i by (auto simp: dir_holds_def)
    moreover have "find_blocks get P ip (Suc i) = map_option Some (List.find P (concat (drop (Suc i) ess)))"
      using Suc i by simp
    ultimately show ?case
      using assms(1) buf find_entry_block [OF buf(2), of P] find_concat_drop [OF i, of P]
      by (subst find_blocks.simps) (simp add: dir_holds_def split: option.splits)
  qed
  from this [of 0] show ?thesis by simp
qed

end
