(* ===== verification/Modes.thy ===== *)
theory Modes
  imports Text Words
begin

text \<open>
  \<^verbatim>\<open>mode_to_letters\<close>, the file mode of \<^verbatim>\<open>ls -l\<close>, which \<^verbatim>\<open>Lab4/Code/ls_l.c\<close> and \<^verbatim>\<open>Lab5/Code/ls_l.c\<close>
  share, and what its ten letters say.
\<close>

definition S_ISDIR :: "u32 \<Rightarrow> bool" where "S_ISDIR mode \<longleftrightarrow> mode AND 0xF000 = 0x4000"
definition S_ISLNK :: "u32 \<Rightarrow> bool" where "S_ISLNK mode \<longleftrightarrow> mode AND 0xF000 = 0xA000"
definition S_ISREG :: "u32 \<Rightarrow> bool" where "S_ISREG mode \<longleftrightarrow> mode AND 0xF000 = 0x8000"

definition mode_to_letters :: "u32 \<Rightarrow> string" where
  "mode_to_letters mode =
     [if S_ISDIR mode then CHR ''d'' else if S_ISLNK mode then CHR ''l'' else CHR ''-'',
      if mode AND 0x100 \<noteq> 0 then CHR ''r'' else CHR ''-'',
      if mode AND 0x80 \<noteq> 0 then CHR ''w'' else CHR ''-'',
      if mode AND 0x40 \<noteq> 0 then CHR ''x'' else CHR ''-'',
      if mode AND 0x20 \<noteq> 0 then CHR ''r'' else CHR ''-'',
      if mode AND 0x10 \<noteq> 0 then CHR ''w'' else CHR ''-'',
      if mode AND 8 \<noteq> 0 then CHR ''x'' else CHR ''-'',
      if mode AND 4 \<noteq> 0 then CHR ''r'' else CHR ''-'',
      if mode AND 2 \<noteq> 0 then CHR ''w'' else CHR ''-'',
      if mode AND 1 \<noteq> 0 then CHR ''x'' else CHR ''-'']"

text \<open>A conversion of \<^verbatim>\<open>printf\<close> with a width: \<^verbatim>\<open>%4u\<close>, \<^verbatim>\<open>%26s\<close>.\<close>

definition field :: "nat \<Rightarrow> string \<Rightarrow> string" where
  "field w s = replicate (w - length s) CHR '' '' @ s"

text \<open>A permission is a bit of the mode.\<close>

lemma and_power: "(m :: u32) AND 2 ^ k \<noteq> 0 \<longleftrightarrow> bit m k"
  by (simp add: and_exp_eq_0_iff_not_bit)

lemma permission_bits:
  fixes m :: u32
  shows "m AND 1 \<noteq> 0 \<longleftrightarrow> bit m 0" "m AND 2 \<noteq> 0 \<longleftrightarrow> bit m 1" "m AND 4 \<noteq> 0 \<longleftrightarrow> bit m 2"
    "m AND 8 \<noteq> 0 \<longleftrightarrow> bit m 3" "m AND 0x10 \<noteq> 0 \<longleftrightarrow> bit m 4" "m AND 0x20 \<noteq> 0 \<longleftrightarrow> bit m 5"
    "m AND 0x40 \<noteq> 0 \<longleftrightarrow> bit m 6" "m AND 0x80 \<noteq> 0 \<longleftrightarrow> bit m 7" "m AND 0x100 \<noteq> 0 \<longleftrightarrow> bit m 8"
  using and_power [of m 0] and_power [of m 1] and_power [of m 2] and_power [of m 3] and_power [of m 4]
    and_power [of m 5] and_power [of m 6] and_power [of m 7] and_power [of m 8] by simp_all

lemma low_bits_eq:
  fixes m m' :: u32
  shows "take_bit 9 m = take_bit 9 m' \<longleftrightarrow> (\<forall>k < 9. bit m k = bit m' k)"
proof -
  have "(\<forall>n < 32. (n < 9 \<and> bit m n) = (n < 9 \<and> bit m' n)) \<longleftrightarrow> (\<forall>k < 9. bit m k = bit m' k)"
  proof
    assume a: "\<forall>n < 32. (n < 9 \<and> bit m n) = (n < 9 \<and> bit m' n)"
    show "\<forall>k < 9. bit m k = bit m' k"
    proof (intro allI impI)
      fix k :: nat
      assume "k < 9"
      with a show "bit m k = bit m' k" by (auto dest: spec [of _ k])
    qed
  qed blast
  then show ?thesis by (simp add: bit_eq_iff bit_take_bit_iff)
qed

lemma all_less_9: "(\<forall>k < 9. P k) \<longleftrightarrow> P 0 \<and> P 1 \<and> P 2 \<and> P 3 \<and> P 4 \<and> P 5 \<and> P 6 \<and> P 7 \<and> P (8 :: nat)"
  by (simp add: numeral_eq_Suc All_less_Suc) blast

lemma letter_eq: "x \<noteq> CHR ''-'' \<Longrightarrow> ((if a then x else CHR ''-'') = (if b then x else CHR ''-'')) \<longleftrightarrow> a = b"
  by auto

text \<open>The ten letters say exactly the nine permission bits and whether the file is a directory, a
  symbolic link or neither: two modes have the same letters iff they agree in these.\<close>

theorem letters_show_mode:
  "length (mode_to_letters m) = 10
   \<and> (mode_to_letters m = mode_to_letters m' \<longleftrightarrow>
        take_bit 9 m = take_bit 9 m' \<and> S_ISDIR m = S_ISDIR m' \<and> S_ISLNK m = S_ISLNK m')"
proof -
  have "\<not> (S_ISDIR m \<and> S_ISLNK m)" "\<not> (S_ISDIR m' \<and> S_ISLNK m')" by (auto simp: S_ISDIR_def S_ISLNK_def)
  then have "((if S_ISDIR m then CHR ''d'' else if S_ISLNK m then CHR ''l'' else CHR ''-'')
      = (if S_ISDIR m' then CHR ''d'' else if S_ISLNK m' then CHR ''l'' else CHR ''-''))
    \<longleftrightarrow> S_ISDIR m = S_ISDIR m' \<and> S_ISLNK m = S_ISLNK m'" by auto
  then show ?thesis
    by (simp add: mode_to_letters_def permission_bits low_bits_eq all_less_9 letter_eq) blast
qed

end
