(* ===== verification/MountRoot.thy ===== *)
theory MountRoot
  imports Ext2 Modes
begin

text \<open>
  \<^verbatim>\<open>Lab5\<close>: a file system program that mounts an ext2 disk, keeps the inodes in use in a table with
  reference counts, and answers \<^verbatim>\<open>ls\<close>, \<^verbatim>\<open>cd\<close> and \<^verbatim>\<open>pwd\<close>. A \<^verbatim>\<open>MINODE *\<close> is an index of the table, NULL is
  \<open>None\<close>; a call that reads through NULL, reads outside a block or never ends is \<open>None\<close>.
  What \<^verbatim>\<open>pwd\<close> finds of a name in the dead buffer of \<^verbatim>\<open>GetName\<close> is the parameter \<open>stale\<close>.
\<close>

section \<open>Data\<close>

definition NMINODE :: nat where "NMINODE = 64"
definition NFD :: nat where "NFD = 8"
definition FS_NPROC :: nat where "FS_NPROC = 2"

record MINODE =
  disk_inode :: INODE
  dev :: int
  ino :: nat
  refCount :: int
  dirty :: bool
  mounted :: int

datatype proc_status = FREE_PROC | READY_PROC

record fs_proc =
  proc_pid :: int
  proc_uid :: int
  proc_status :: proc_status
  proc_cwd :: "nat option"
  proc_fd :: "nat option list"

text \<open>The globals; the disk behind the device and the output complete the state. The output is the listings
  and the messages; the lines that only trace \<^verbatim>\<open>init\<close>, \<^verbatim>\<open>iget\<close>, \<^verbatim>\<open>getino\<close> and \<^verbatim>\<open>SplitLine\<close> are left out.\<close>

record mount =
  minode :: "MINODE list"
  root_minode :: "nat option"
  procs :: "fs_proc list"
  DEV :: int
  inode_start :: nat
  device :: "u8 list"
  printed_lines :: "string list"

definition say_line :: "string \<Rightarrow> mount \<Rightarrow> mount" where
  "say_line l s = s\<lparr>printed_lines := printed_lines s @ [l]\<rparr>"

definition set_minode :: "nat \<Rightarrow> MINODE \<Rightarrow> mount \<Rightarrow> mount" where
  "set_minode k m s = s\<lparr>minode := (minode s)[k := m]\<rparr>"

text \<open>\<^verbatim>\<open>running\<close> is process 0 from \<^verbatim>\<open>init_proc\<close> on.\<close>

definition cwd_minode :: "mount \<Rightarrow> nat option" where
  "cwd_minode s = proc_cwd (procs s ! 0)"

definition set_cwd :: "nat option \<Rightarrow> mount \<Rightarrow> mount" where
  "set_cwd k s = s\<lparr>procs := (procs s)[0 := (procs s ! 0)\<lparr>proc_cwd := k\<rparr>]\<rparr>"

section \<open>The inode table (util.c)\<close>

text \<open>The loops over the table: the first slot with a property.\<close>

fun first_index :: "(MINODE \<Rightarrow> bool) \<Rightarrow> MINODE list \<Rightarrow> nat option" where
  "first_index P [] = None"
| "first_index P (m # ms) = (if P m then Some 0 else map_option Suc (first_index P ms))"

text \<open>An inode of the disk; there is no inode 0.\<close>

definition read_inode :: "u8 list \<Rightarrow> nat \<Rightarrow> nat \<Rightarrow> INODE option" where
  "read_inode disk start i =
     (if i = 0 then None
      else do {
        buf \<leftarrow> get_block disk ((i - 1) div 8 + start);
        Some (inode_in buf (INODE_SIZE * ((i - 1) mod 8)))
      })"

definition iget :: "int \<Rightarrow> nat \<Rightarrow> mount \<Rightarrow> (nat option \<times> mount) option" where
  "iget d i s =
     (case first_index (\<lambda>m. dev m = d \<and> ino m = i) (minode s) of
        Some k \<Rightarrow>
          let m = minode s ! k
          in Some (Some k, set_minode k (m\<lparr>refCount := refCount m + 1\<rparr>) s)
      | None \<Rightarrow>
          (case first_index (\<lambda>m. refCount m = 0) (minode s) of
             Some k \<Rightarrow> do {
               ip \<leftarrow> read_inode (device s) (inode_start s) i;
               Some (Some k, set_minode k ((minode s ! k)\<lparr>refCount := 1, dev := d, ino := i, disk_inode := ip\<rparr>) s)
             }
           | None \<Rightarrow> Some (None, say_line (''PANIC: no more free minodes'' @ [newline]) s)))"

text \<open>The bytes of an inode put back into its block are a parameter: nothing in the program marks an
  inode dirty, so they are never written.\<close>

definition iput :: "(u8 list \<Rightarrow> nat \<Rightarrow> INODE \<Rightarrow> u8 list) \<Rightarrow> nat option \<Rightarrow> mount \<Rightarrow> mount option" where
  "iput encode mip s =
     (case mip of
        None \<Rightarrow> Some s
      | Some k \<Rightarrow>
          let m = (minode s ! k)\<lparr>refCount := refCount (minode s ! k) - 1\<rparr>;
              s1 = set_minode k m s
          in if refCount m > 0 then Some s1
             else if \<not> dirty m then Some s1
             else do {
               buf \<leftarrow> get_block (device s1) ((ino m - 1) div 8 + inode_start s1);
               Some (s1\<lparr>device := put_block (device s1) ((ino m - 1) div 8 + inode_start s1)
                 (encode buf (INODE_SIZE * ((ino m - 1) mod 8)) (disk_inode m))\<rparr>)
             })"

text \<open>When no entry has the name the function ends without a value.\<close>

definition search :: "mount \<Rightarrow> nat \<Rightarrow> string \<Rightarrow> nat option" where
  "search s k name = do {
     hit \<leftarrow> find_blocks (get_block (device s)) (\<lambda>dp. entry_name dp = name) (disk_inode (minode s ! k)) 0;
     map_option (\<lambda>dp. unat (inode dp)) hit
   }"

definition tokenize :: "string \<Rightarrow> string list option" where
  "tokenize pathname = (let names = strtok_all ''/'' pathname in if length names \<le> 64 then Some names else None)"

fun getino_loop :: "(u8 list \<Rightarrow> nat \<Rightarrow> INODE \<Rightarrow> u8 list) \<Rightarrow> string list \<Rightarrow> nat option \<Rightarrow> nat \<Rightarrow> mount
    \<Rightarrow> (nat \<times> mount) option" where
  "getino_loop encode [] mip i s = Some (i, s)"
| "getino_loop encode (name # names) mip i s =
     (case mip of
        None \<Rightarrow> None
      | Some k \<Rightarrow> do {
          i1 \<leftarrow> search s k name;
          s1 \<leftarrow> iput encode mip s;
          if i1 = 0 then Some (0, say_line (''Name '' @ [CHR 0x27] @ name @ [CHR 0x27] @ '' Does Not Exist'' @ [newline]) s1)
          else do {
            (mip', s2) \<leftarrow> iget (DEV s1) i1 s1;
            getino_loop encode names mip' i1 s2
          }
        })"

definition getino :: "(u8 list \<Rightarrow> nat \<Rightarrow> INODE \<Rightarrow> u8 list) \<Rightarrow> string \<Rightarrow> mount \<Rightarrow> (nat \<times> mount) option" where
  "getino encode pathname s =
     (if pathname = ''/'' then Some (2, s)
      else do {
        (mip, s1) \<leftarrow> (if take 1 pathname = ''/'' then iget (DEV s) 2 s
                      else case cwd_minode s of
                             None \<Rightarrow> None
                           | Some k \<Rightarrow> iget (dev (minode s ! k)) (ino (minode s ! k)) s);
        names \<leftarrow> tokenize pathname;
        getino_loop encode names mip 0 s1
      })"

section \<open>Listing (ls_l.c)\<close>

text \<open>\<^verbatim>\<open>ctime\<close> of the C library, without the line break the program cuts off, is a parameter; \<open>None\<close> is NULL.
  A \<^verbatim>\<open>time_t\<close> has 32 bits, as the program is built with \<^verbatim>\<open>-m32\<close>.\<close>

definition ls_reg :: "(u32 \<Rightarrow> string option) \<Rightarrow> INODE \<Rightarrow> string \<Rightarrow> string option" where
  "ls_reg ctime ip name = map_option (\<lambda>time.
     mode_to_letters (ucast (i_mode ip)) @ '' '' @ field 4 (numeral_text 10 (unat (i_links_count ip))) @ '' ''
     @ field 4 (numeral_text 10 (unat (i_gid ip))) @ '' '' @ field 4 (numeral_text 10 (unat (i_uid ip))) @ '' ''
     @ field 8 (numeral_text 10 (unat (i_size ip))) @ '' '' @ field 26 time @ '' '' @ name @ [newline])
     (ctime (i_mtime ip))"

fun ls_entries :: "(u8 list \<Rightarrow> nat \<Rightarrow> INODE \<Rightarrow> u8 list) \<Rightarrow> (u32 \<Rightarrow> string option) \<Rightarrow> DIRE list \<Rightarrow> mount \<Rightarrow> mount option" where
  "ls_entries encode ctime [] s = Some s"
| "ls_entries encode ctime (dp # dps) s = do {
     (mip, s1) \<leftarrow> iget (DEV s) (unat (inode dp)) s;
     s2 \<leftarrow> (case mip of
              None \<Rightarrow> Some s1
            | Some k \<Rightarrow> do {
                line \<leftarrow> ls_reg ctime (disk_inode (minode s1 ! k)) (entry_name dp);
                iput encode mip (say_line line s1)
              });
     ls_entries encode ctime dps s2
   }"

text \<open>The blocks of a directory up to the first unused one.\<close>

function ls_blocks :: "(u8 list \<Rightarrow> nat \<Rightarrow> INODE \<Rightarrow> u8 list) \<Rightarrow> (u32 \<Rightarrow> string option) \<Rightarrow> INODE \<Rightarrow> nat \<Rightarrow> mount \<Rightarrow> mount option" where
  "ls_blocks encode ctime ip i s =
     (if i < unat (i_blocks ip) then
        if i < length (i_block ip) then
          if i_block ip ! i = 0 then Some s
          else do {
            let s1 = say_line (''i_block['' @ dec (int i) @ ''] = '' @ dec (uint (i_block ip ! i)) @ [newline]) s;
            buf \<leftarrow> get_block (device s1) (unat (i_block ip ! i));
            dps \<leftarrow> all_entries buf 0;
            s2 \<leftarrow> ls_entries encode ctime dps s1;
            ls_blocks encode ctime ip (i + 1) s2
          }
        else None
      else Some s)"
  by pat_completeness auto
termination
  by (relation "measure (\<lambda>(encode, ctime, ip, i, s). unat (i_blocks ip) - i)") auto

declare ls_blocks.simps [simp del]

definition ls_dir :: "(u8 list \<Rightarrow> nat \<Rightarrow> INODE \<Rightarrow> u8 list) \<Rightarrow> (u32 \<Rightarrow> string option) \<Rightarrow> nat \<Rightarrow> mount \<Rightarrow> mount option" where
  "ls_dir encode ctime k s = ls_blocks encode ctime (disk_inode (minode s ! k)) 0 s"

section \<open>Commands (Commands.c)\<close>

definition is_dir :: "INODE \<Rightarrow> bool" where "is_dir ip \<longleftrightarrow> S_ISDIR (ucast (i_mode ip))"
definition is_reg :: "INODE \<Rightarrow> bool" where "is_reg ip \<longleftrightarrow> S_ISREG (ucast (i_mode ip))"

definition ChangeDir :: "(u8 list \<Rightarrow> nat \<Rightarrow> INODE \<Rightarrow> u8 list) \<Rightarrow> int \<Rightarrow> string \<Rightarrow> mount \<Rightarrow> (int \<times> mount) option" where
  "ChangeDir encode d path s =
     (if path = [] then Some (0, s)
      else do {
        (i, s1) \<leftarrow> getino encode path s;
        if i = 0 then Some (- 1, s1)
        else do {
          (mip, s2) \<leftarrow> iget d i s1;
          (case mip of
             None \<Rightarrow> None
           | Some k \<Rightarrow> do {
               let s3 = (if is_dir (disk_inode (minode s2 ! k)) then set_cwd mip s2
                         else if is_reg (disk_inode (minode s2 ! k))
                         then say_line (''Cannot cd into a file'' @ [newline]) s2 else s2);
               s4 \<leftarrow> iput encode mip s3;
               Some (0, s4)
             })
        }
      })"

text \<open>\<^verbatim>\<open>strtok\<close> has put a zero behind the first component of the path.\<close>

definition cut_path :: "string \<Rightarrow> string" where
  "cut_path path = takeWhile (\<lambda>c. c = CHR ''/'') path
     @ takeWhile (\<lambda>c. c \<noteq> CHR ''/'') (dropWhile (\<lambda>c. c = CHR ''/'') path)"

definition ListFile :: "(u8 list \<Rightarrow> nat \<Rightarrow> INODE \<Rightarrow> u8 list) \<Rightarrow> (u32 \<Rightarrow> string option) \<Rightarrow> int \<Rightarrow> string \<Rightarrow> mount
    \<Rightarrow> (int \<times> mount) option" where
  "ListFile encode ctime d path s =
     (if path = [] then do {
        k \<leftarrow> cwd_minode s;
        s1 \<leftarrow> ls_dir encode ctime k s;
        Some (0, s1)
      }
      else do {
        (i, s1) \<leftarrow> getino encode path s;
        if i = 0 then Some (- 1, s1)
        else do {
          (mip, s2) \<leftarrow> iget d i s1;
          (case mip of
             None \<Rightarrow> None
           | Some k \<Rightarrow> do {
               s3 \<leftarrow> (if is_dir (disk_inode (minode s2 ! k)) then ls_dir encode ctime k s2
                      else if is_reg (disk_inode (minode s2 ! k))
                      then map_option (\<lambda>line. say_line line s2) (ls_reg ctime (disk_inode (minode s2 ! k)) (cut_path path))
                      else Some s2);
               s4 \<leftarrow> iput encode mip s3;
               Some (0, s4)
             })
        }
      })"

text \<open>
  \<^verbatim>\<open>GetName\<close> finds the name and returns a pointer into its own block, which is gone when \<^verbatim>\<open>R_Pwd\<close> reads
  through it. What the \<^verbatim>\<open>strcat\<close> there finds is the parameter \<open>stale\<close>: a text that may depend on the name, on the
  path put together so far and on all that has been printed before, and so be another one at each read.
\<close>

type_synonym stale_name = "string list \<Rightarrow> string \<Rightarrow> string \<Rightarrow> string"

definition GetName :: "mount \<Rightarrow> INODE \<Rightarrow> nat \<Rightarrow> string option option" where
  "GetName s ip i = map_option (map_option entry_name)
     (find_blocks (get_block (device s)) (\<lambda>dp. unat (inode dp) = i) ip 0)"

partial_function (option) R_Pwd :: "stale_name \<Rightarrow> string \<Rightarrow> int \<Rightarrow> nat \<Rightarrow> mount \<Rightarrow> (string \<times> mount) option" where
  "R_Pwd stale path d wd s =
     (if root_minode s = Some wd then Some (path, s)
      else do {
        i \<leftarrow> search s wd ''..'';
        (mip, s1) \<leftarrow> iget d i s;
        (case mip of
           None \<Rightarrow> None
         | Some k \<Rightarrow> do {
             name \<leftarrow> GetName s1 (disk_inode (minode s1 ! k)) (ino (minode s1 ! wd));
             (case name of
                None \<Rightarrow> Some (path, s1)
              | Some n \<Rightarrow>
                  let path' = ''/'' @ stale (printed_lines s1) path n @ path
                  in if length path' < 256 then R_Pwd stale path' d k s1 else None)
           })
      })"

declare R_Pwd.simps [code]

definition Pwd :: "stale_name \<Rightarrow> int \<Rightarrow> nat \<Rightarrow> mount \<Rightarrow> mount option" where
  "Pwd stale d wd s = do {
     (path, s1) \<leftarrow> R_Pwd stale [] d wd s;
     Some (say_line (path @ [newline]) s1)
   }"

fun quit_loop :: "(u8 list \<Rightarrow> nat \<Rightarrow> INODE \<Rightarrow> u8 list) \<Rightarrow> nat list \<Rightarrow> mount \<Rightarrow> mount option" where
  "quit_loop encode [] s = Some s"
| "quit_loop encode (k # ks) s = do {
     s1 \<leftarrow> (if refCount (minode s ! k) > 0 then iput encode (Some k) s else Some s);
     quit_loop encode ks s1
   }"

definition Quit :: "(u8 list \<Rightarrow> nat \<Rightarrow> INODE \<Rightarrow> u8 list) \<Rightarrow> mount \<Rightarrow> mount option" where
  "Quit encode s = quit_loop encode [0..<NMINODE] s"

section \<open>The program (Main.c)\<close>

definition blank_minode :: "INODE \<Rightarrow> MINODE" where
  "blank_minode ip = \<lparr>disk_inode = ip, dev = 0, ino = 0, refCount = 0, dirty = False, mounted = 0\<rparr>"

definition zero_inode :: INODE where
  "zero_inode = \<lparr>i_mode = 0, i_uid = 0, i_size = 0, i_mtime = 0, i_gid = 0, i_links_count = 0, i_blocks = 0,
     i_block = replicate N_BLOCKS 0\<rparr>"

definition init_mount :: "int \<Rightarrow> nat \<Rightarrow> u8 list \<Rightarrow> mount" where
  "init_mount fd start disk =
     \<lparr>minode = replicate NMINODE (blank_minode zero_inode), root_minode = None,
      procs = map (\<lambda>i. \<lparr>proc_pid = int i, proc_uid = 0, proc_status = FREE_PROC, proc_cwd = None,
        proc_fd = replicate NFD None\<rparr>) [0..<FS_NPROC],
      DEV = fd, inode_start = start, device = disk, printed_lines = []\<rparr>"

definition mount_root :: "int \<Rightarrow> mount \<Rightarrow> mount option" where
  "mount_root d s = do {
     (mip, s1) \<leftarrow> iget d 2 s;
     Some (s1\<lparr>root_minode := mip\<rparr>)
   }"

definition init_proc :: "int \<Rightarrow> mount \<Rightarrow> mount option" where
  "init_proc d s = do {
     (mip, s1) \<leftarrow> iget d 2 (s\<lparr>procs := (procs s)[0 := (procs s ! 0)\<lparr>proc_status := READY_PROC\<rparr>]\<rparr>);
     Some (set_cwd mip s1)
   }"

text \<open>Opening the disk and reading its super block and group descriptor; \<open>Inl\<close> is an exit.\<close>

definition start_up :: "int \<Rightarrow> u8 list \<Rightarrow> (unit + mount) option" where
  "start_up fd disk = do {
     super \<leftarrow> get_block disk 1;
     if load_u16 super 56 \<noteq> 0xEF53 then Some (Inl ())
     else do {
       gd \<leftarrow> get_block disk 2;
       s1 \<leftarrow> mount_root fd (init_mount fd (unat (load_u32 gd 8)) disk);
       s2 \<leftarrow> init_proc fd s1;
       Some (Inr s2)
     }
   }"

text \<open>\<^verbatim>\<open>sscanf(line, "%s %s")\<close> into the command, an array of 32, and the path.\<close>

definition SplitLine :: "string \<Rightarrow> (string \<times> string) option" where
  "SplitLine line =
     (case strtok_all ('' '' @ [CHR 0x09, CHR 0x0A, CHR 0x0B, CHR 0x0C, CHR 0x0D]) line of
        [] \<Rightarrow> Some ([], [])
      | [c] \<Rightarrow> if length c < 32 then Some (c, []) else None
      | c # p # ws \<Rightarrow> if length c < 32 then Some (c, p) else None)"

text \<open>One turn of the main loop for a line that fits its array; \<open>Inl\<close> when the program ends.\<close>

definition command_turn :: "(u8 list \<Rightarrow> nat \<Rightarrow> INODE \<Rightarrow> u8 list) \<Rightarrow> (u32 \<Rightarrow> string option) \<Rightarrow> stale_name \<Rightarrow> string \<Rightarrow> mount
    \<Rightarrow> (mount + mount) option" where
  "command_turn encode ctime stale line s =
     (if line = [] then Some (Inr s)
      else do {
        (cmd, pathname) \<leftarrow> SplitLine line;
        if cmd = ''ls'' then do { (r, s1) \<leftarrow> ListFile encode ctime (DEV s) pathname s; Some (Inr s1) }
        else if cmd = ''cd'' then do { (r, s1) \<leftarrow> ChangeDir encode (DEV s) pathname s; Some (Inr s1) }
        else if cmd = ''pwd'' then do {
          k \<leftarrow> cwd_minode s;
          s1 \<leftarrow> Pwd stale (DEV s) k s;
          Some (Inr s1)
        }
        else if cmd = ''quit'' then do { s1 \<leftarrow> Quit encode s; Some (Inl s1) }
        else Some (Inr s)
      })"

text \<open>\<^verbatim>\<open>GetLine\<close> into an array of 256 and the main loop: what is typed until \<^verbatim>\<open>quit\<close>.\<close>

definition main_loop :: "(u8 list \<Rightarrow> nat \<Rightarrow> INODE \<Rightarrow> u8 list) \<Rightarrow> (u32 \<Rightarrow> string option) \<Rightarrow> stale_name \<Rightarrow> string \<Rightarrow> mount \<Rightarrow> mount option" where
  "main_loop encode ctime stale input s = read_loop 256 (command_turn encode ctime stale) input s"

text \<open>\<^verbatim>\<open>main\<close> as it is called, and \<^verbatim>\<open>OpenFile\<close>: the disk is the first argument or \<^verbatim>\<open>mydisk\<close>. \<open>files\<close> is the
  content of the files of the host; \<open>Inl\<close> are the lines printed last and the exit code.\<close>

definition OpenFile :: "(string \<Rightarrow> u8 list option) \<Rightarrow> string \<Rightarrow> (string \<times> int) + u8 list" where
  "OpenFile files disk =
     (case files disk of
        None \<Rightarrow> Inl (''Error: Failed to open '' @ [CHR 0x27] @ disk @ [CHR 0x27, newline], 1)
      | Some bytes \<Rightarrow> Inr bytes)"

definition mount_main :: "(u8 list \<Rightarrow> nat \<Rightarrow> INODE \<Rightarrow> u8 list) \<Rightarrow> (u32 \<Rightarrow> string option) \<Rightarrow> stale_name \<Rightarrow> int \<Rightarrow> (string \<Rightarrow> u8 list option)
    \<Rightarrow> string list \<Rightarrow> string \<Rightarrow> ((string \<times> int) + mount) option" where
  "mount_main encode ctime stale fd files argv input =
     (case OpenFile files (if 1 < length argv then argv ! 1 else ''mydisk'') of
        Inl e \<Rightarrow> Some (Inl e)
      | Inr bytes \<Rightarrow> do {
          r \<leftarrow> start_up fd bytes;
          (case r of
             Inl () \<Rightarrow> Some (Inl ([], 1))
           | Inr s \<Rightarrow> map_option Inr (main_loop encode ctime stale input s))
        })"

text \<open>The loop on the lines of a session.\<close>

fun fs_session :: "(u8 list \<Rightarrow> nat \<Rightarrow> INODE \<Rightarrow> u8 list) \<Rightarrow> (u32 \<Rightarrow> string option) \<Rightarrow> stale_name \<Rightarrow> string list \<Rightarrow> mount
    \<Rightarrow> (mount + mount) option" where
  "fs_session encode ctime stale [] s = Some (Inr s)"
| "fs_session encode ctime stale (line # lines) s =
     (case command_turn encode ctime stale line s of
        None \<Rightarrow> None
      | Some (Inl s1) \<Rightarrow> Some (Inl s1)
      | Some (Inr s1) \<Rightarrow> fs_session encode ctime stale lines s1)"

end
