(* ===== verification/MountInv.thy ===== *)
theory MountInv
  imports MountRoot
begin

text \<open>
  The inode table of \<^verbatim>\<open>Lab5\<close>: no inode is cached twice, a cached inode is the one on the disk, and the
  slots of the root and of the current directory stay in use. Every command keeps this.
\<close>

section \<open>The invariant\<close>

definition slot_ok :: "mount \<Rightarrow> MINODE \<Rightarrow> bool" where
  "slot_ok s m \<longleftrightarrow> 0 \<le> refCount m \<and> \<not> dirty m
     \<and> (if ino m = 0 then dev m = 0 \<and> refCount m = 0
        else dev m = DEV s \<and> read_inode (device s) (inode_start s) (ino m) = Some (disk_inode m))"

definition cached_once :: "MINODE list \<Rightarrow> bool" where
  "cached_once ms \<longleftrightarrow> (\<forall>j < length ms. \<forall>k < length ms. ino (ms ! j) = ino (ms ! k) \<longrightarrow> ino (ms ! j) \<noteq> 0 \<longrightarrow> j = k)"

definition in_use :: "mount \<Rightarrow> nat \<Rightarrow> bool" where
  "in_use s k \<longleftrightarrow> k < length (minode s) \<and> 1 \<le> refCount (minode s ! k)"

definition slots_ok :: "mount \<Rightarrow> bool" where
  "slots_ok s \<longleftrightarrow> length (minode s) = NMINODE \<and> DEV s \<noteq> 0
     \<and> (\<forall>m \<in> set (minode s). slot_ok s m) \<and> cached_once (minode s)"

definition table_ok :: "mount \<Rightarrow> bool" where
  "table_ok s \<longleftrightarrow> slots_ok s
     \<and> (\<exists>r. root_minode s = Some r \<and> in_use s r \<and> ino (minode s ! r) = 2)
     \<and> (\<exists>c. cwd_minode s = Some c \<and> in_use s c) \<and> procs s \<noteq> []"

lemma in_use_ino: "slots_ok s \<Longrightarrow> in_use s k \<Longrightarrow> ino (minode s ! k) \<noteq> 0"
  by (auto simp: slots_ok_def slot_ok_def in_use_def dest!: bspec [OF _ nth_mem] split: if_splits)

text \<open>What an operation leaves alone: the disk and the pointers, and every slot in use but for more
  references.\<close>

definition grows :: "mount \<Rightarrow> mount \<Rightarrow> bool" where
  "grows s s' \<longleftrightarrow> device s' = device s \<and> inode_start s' = inode_start s \<and> DEV s' = DEV s
     \<and> root_minode s' = root_minode s \<and> procs s' = procs s \<and> length (minode s') = length (minode s)
     \<and> (\<forall>k. in_use s k \<longrightarrow> ino (minode s' ! k) = ino (minode s ! k)
          \<and> refCount (minode s ! k) \<le> refCount (minode s' ! k))"

lemma grows_refl [simp]: "grows s s"
  by (simp add: grows_def)

lemma grows_trans:
  assumes "grows s t" and "grows t u"
  shows "grows s u"
proof -
  have "in_use t k" if "in_use s k" for k
    using that assms(1) by (force simp: in_use_def grows_def)
  with assms show ?thesis unfolding grows_def by (metis order_trans)
qed

lemma grows_say [simp]: "grows s (say_line l s)" "grows (say_line l s) s' \<longleftrightarrow> grows s s'"
  by (simp_all add: grows_def say_line_def in_use_def)

lemma slots_ok_say [simp]: "slots_ok (say_line l s) \<longleftrightarrow> slots_ok s"
  by (simp add: slots_ok_def slot_ok_def say_line_def)

lemma in_use_grows: "in_use s k \<Longrightarrow> grows s s' \<Longrightarrow> in_use s' k \<and> ino (minode s' ! k) = ino (minode s ! k)"
  by (force simp: in_use_def grows_def)

lemma table_ok_grows:
  assumes "table_ok s" and "grows s s'" and "slots_ok s'"
  shows "table_ok s'"
proof -
  from assms(1) obtain r c where s: "root_minode s = Some r" "in_use s r" "ino (minode s ! r) = 2"
    "cwd_minode s = Some c" "in_use s c" "procs s \<noteq> []" by (auto simp: table_ok_def)
  have "root_minode s' = root_minode s" "procs s' = procs s"
    using assms(2) by (simp_all add: grows_def)
  with s assms(3) in_use_grows [OF s(2) assms(2)] in_use_grows [OF s(5) assms(2)] show ?thesis
    by (simp add: table_ok_def cwd_minode_def)
qed

section \<open>Getting and putting an inode\<close>

lemma first_index_Some:
  "first_index P ms = Some k \<Longrightarrow> k < length ms \<and> P (ms ! k)"
  by (induction ms arbitrary: k) (auto split: if_splits)

lemma first_index_None: "first_index P ms = None \<longleftrightarrow> (\<forall>m \<in> set ms. \<not> P m)"
  by (induction ms) auto

lemma minode_set [simp]: "minode (set_minode k m s) = (minode s)[k := m]"
  by (simp add: set_minode_def)

lemma set_minode_other [simp]:
  "device (set_minode k m s) = device s" "inode_start (set_minode k m s) = inode_start s"
  "DEV (set_minode k m s) = DEV s" "root_minode (set_minode k m s) = root_minode s"
  "procs (set_minode k m s) = procs s" "cwd_minode (set_minode k m s) = cwd_minode s"
  by (simp_all add: set_minode_def cwd_minode_def)

lemma slots_ok_set:
  assumes "slots_ok s" and "k < length (minode s)" and "slot_ok s m"
    and "ino m = 0 \<or> ino m = ino (minode s ! k) \<or> ino m \<notin> ino ` set (minode s)"
  shows "slots_ok (set_minode k m s)"
proof -
  have "slot_ok (set_minode k m s) = slot_ok s" by (simp add: slot_ok_def fun_eq_iff)
  moreover have "\<forall>x \<in> set ((minode s)[k := m]). slot_ok s x"
    using assms(1,3) by (auto simp: slots_ok_def dest: subsetD [OF set_update_subset_insert])
  moreover have "cached_once ((minode s)[k := m])"
    unfolding cached_once_def length_list_update
  proof (intro allI impI)
    fix i j
    assume ij: "i < length (minode s)" "j < length (minode s)"
      "ino ((minode s)[k := m] ! i) = ino ((minode s)[k := m] ! j)" "ino ((minode s)[k := m] ! i) \<noteq> 0"
    have c: "cached_once (minode s)" using assms(1) by (simp add: slots_ok_def)
    show "i = j"
    proof (cases "i = k \<or> j = k")
      case False
      with ij c show ?thesis unfolding cached_once_def by (metis nth_list_update_neq)
    next
      case True
      define other where "other = (if i = k then j else i)"
      have o: "other < length (minode s)" using ij by (simp add: other_def)
      show ?thesis
      proof (cases "other = k")
        case False
        then have "ino (minode s ! other) = ino m" "ino m \<noteq> 0"
          using True ij assms(2) by (auto simp: other_def nth_list_update split: if_splits)
        with assms(4) o have "ino m = ino (minode s ! k)" by (metis image_eqI nth_mem)
        with c o assms(2) \<open>ino (minode s ! other) = ino m\<close> \<open>ino m \<noteq> 0\<close> False show ?thesis
          unfolding cached_once_def by metis
      qed (use True in \<open>auto simp: other_def split: if_splits\<close>)
    qed
  qed
  ultimately show ?thesis using assms(1) by (simp add: slots_ok_def)
qed

lemma slot_at: "slots_ok s \<Longrightarrow> k < length (minode s) \<Longrightarrow> slot_ok s (minode s ! k)"
  by (simp add: slots_ok_def)

text \<open>\<^verbatim>\<open>iget\<close> takes one more reference to the slot of the inode.\<close>

lemma iget_ok:
  assumes "slots_ok s" and "iget (DEV s) i s = Some (mip, s')"
  shows "slots_ok s'" and "grows s s'"
    and "mip = Some k \<Longrightarrow> k < length (minode s) \<and> ino (minode s' ! k) = i
      \<and> refCount (minode s' ! k) = refCount (minode s ! k) + 1 \<and> (\<forall>j. j \<noteq> k \<longrightarrow> minode s' ! j = minode s ! j)"
    and "mip = None \<Longrightarrow> \<exists>l. s' = say_line l s"
proof -
  let ?hit = "first_index (\<lambda>m. dev m = DEV s \<and> ino m = i) (minode s)"
  let ?free = "first_index (\<lambda>m. refCount m = 0) (minode s)"
  consider (hit) k where "?hit = Some k" "mip = Some k"
      "s' = set_minode k ((minode s ! k)\<lparr>refCount := refCount (minode s ! k) + 1\<rparr>) s"
    | (free) k ip where "?hit = None" "?free = Some k" "read_inode (device s) (inode_start s) i = Some ip" "mip = Some k"
      "s' = set_minode k ((minode s ! k)\<lparr>refCount := 1, dev := DEV s, ino := i, disk_inode := ip\<rparr>) s"
    | (full) l where "?hit = None" "?free = None" "mip = None" "s' = say_line l s"
    using assms(2) by (auto simp: iget_def Let_def bind_eq_Some_conv split: option.splits)
  note cases = this
  have hit_i: "ino (minode s ! k) = i" "i \<noteq> 0" "k < length (minode s)" "slot_ok s (minode s ! k)" if "?hit = Some k" for k
    using first_index_Some [OF that] slot_at [OF assms(1)] assms(1)
    by (auto simp: slots_ok_def slot_ok_def split: if_splits)
  have free_i: "i \<noteq> 0" "i \<notin> ino ` set (minode s)"
    if "?hit = None" "read_inode (device s) (inode_start s) i = Some ip" for ip
  proof -
    show i0: "i \<noteq> 0" using that(2) by (cases "i = 0") (auto simp: read_inode_def)
    show "i \<notin> ino ` set (minode s)"
      using that(1) i0 assms(1) unfolding first_index_None
      by (auto simp: slots_ok_def slot_ok_def split: if_splits)
  qed
  from cases show "slots_ok s'"
  proof cases
    case hit
    with hit_i [OF hit(1)] show ?thesis
      using assms(1) unfolding hit(3)
      by (intro slots_ok_set) (auto simp: slot_ok_def)
  next
    case free
    note k = first_index_Some [OF free(2)]
    show ?thesis unfolding free(5)
      using free_i [OF free(1,3)] free(3) k slot_at [OF assms(1), of k]
      by (intro slots_ok_set [OF assms(1)]) (auto simp: slot_ok_def)
  next
    case full
    with assms(1) show ?thesis by simp
  qed
  from cases show "grows s s'"
  proof cases
    case hit
    with first_index_Some [OF hit(1)] show ?thesis by (auto simp: grows_def in_use_def nth_list_update)
  next
    case free
    with first_index_Some [OF free(2)] show ?thesis by (auto simp: grows_def in_use_def nth_list_update)
  qed simp
  show "mip = Some k \<Longrightarrow> k < length (minode s) \<and> ino (minode s' ! k) = i
      \<and> refCount (minode s' ! k) = refCount (minode s ! k) + 1 \<and> (\<forall>j. j \<noteq> k \<longrightarrow> minode s' ! j = minode s ! j)"
    using cases by cases (auto dest!: first_index_Some)
  show "mip = None \<Longrightarrow> \<exists>l. s' = say_line l s" using cases by cases auto
qed

text \<open>\<^verbatim>\<open>iput\<close> gives one back; nothing is written, as no inode is dirty.\<close>

lemma iput_eq:
  assumes "slots_ok s" and "k < length (minode s)"
  shows "iput encode (Some k) s = Some (set_minode k ((minode s ! k)\<lparr>refCount := refCount (minode s ! k) - 1\<rparr>) s)"
  using slot_at [OF assms] by (simp add: iput_def Let_def slot_ok_def)

lemma slots_ok_put:
  assumes "slots_ok s" and "in_use s k"
  shows "slots_ok (set_minode k ((minode s ! k)\<lparr>refCount := refCount (minode s ! k) - 1\<rparr>) s)"
  using assms slot_at [OF assms(1), of k]
  by (intro slots_ok_set) (auto simp: in_use_def slot_ok_def split: if_splits)

text \<open>A slot of s' holds a reference that s did not have.\<close>

definition holds :: "mount \<Rightarrow> mount \<Rightarrow> nat \<Rightarrow> bool" where
  "holds s s' k \<longleftrightarrow> slots_ok s' \<and> grows s s' \<and> k < length (minode s)
     \<and> refCount (minode s ! k) + 1 \<le> refCount (minode s' ! k)"

lemma iget_holds:
  assumes "slots_ok s" and "iget (DEV s) i s = Some (Some k, s')"
  shows "holds s s' k" and "ino (minode s' ! k) = i"
  using iget_ok [OF assms] by (auto simp: holds_def)

lemma holds_in_use: "slots_ok s \<Longrightarrow> holds s s' k \<Longrightarrow> in_use s' k"
  using slot_at [of s k] by (auto simp: holds_def in_use_def grows_def slot_ok_def)

lemma holds_grows: "grows s t \<Longrightarrow> slots_ok s \<Longrightarrow> slots_ok t \<Longrightarrow> holds t u k \<Longrightarrow> holds s u k"
proof -
  assume a: "grows s t" "slots_ok s" "slots_ok t" "holds t u k"
  then have len: "k < length (minode s)" "k < length (minode t)" by (auto simp: holds_def grows_def)
  have "refCount (minode s ! k) \<le> refCount (minode t ! k)"
  proof (cases "in_use s k")
    case True
    with a(1) show ?thesis by (simp add: grows_def)
  next
    case False
    then have "refCount (minode s ! k) \<le> 0" using len by (simp add: in_use_def)
    also have "0 \<le> refCount (minode t ! k)" using slot_at [OF a(3) len(2)] by (simp add: slot_ok_def)
    finally show ?thesis .
  qed
  with a len grows_trans [OF a(1)] show ?thesis by (auto simp: holds_def)
qed

lemma iput_holds:
  assumes "slots_ok s" and "holds s s' k" and "iput encode (Some k) s' = Some s''"
  shows "slots_ok s''" and "grows s s''" and "grows s'' s'" and "\<forall>j. j \<noteq> k \<longrightarrow> minode s'' ! j = minode s' ! j"
    and "ino (minode s'' ! k) = ino (minode s' ! k)"
proof -
  have u: "in_use s' k" by (rule holds_in_use [OF assms(1,2)])
  have s: "slots_ok s'" "k < length (minode s')" using assms(2) u by (auto simp: holds_def in_use_def)
  have eq: "s'' = set_minode k ((minode s' ! k)\<lparr>refCount := refCount (minode s' ! k) - 1\<rparr>) s'"
    using assms(3) iput_eq [OF s, of encode] by simp
  show "slots_ok s''" unfolding eq by (rule slots_ok_put [OF s(1) u])
  show "\<forall>j. j \<noteq> k \<longrightarrow> minode s'' ! j = minode s' ! j" "ino (minode s'' ! k) = ino (minode s' ! k)"
    using s(2) unfolding eq by (auto simp: nth_list_update)
  show "grows s s''" using assms(2) s(2) unfolding eq holds_def grows_def
    by (auto simp: nth_list_update)
  show "grows s'' s'" using s(2) unfolding eq grows_def by (auto simp: nth_list_update)
qed

section \<open>Paths\<close>

text \<open>A name in the directory with a given inode number, and a path from there, on the disk alone; every
  inode on the way can be read.\<close>

definition dir_lookup :: "u8 list \<Rightarrow> nat \<Rightarrow> nat \<Rightarrow> string \<Rightarrow> nat option" where
  "dir_lookup disk start i name =
     Option.bind (read_inode disk start i) (\<lambda>ip.
     Option.bind (find_blocks (get_block disk) (\<lambda>dp. entry_name dp = name) ip 0)
       (map_option (\<lambda>dp. unat (inode dp))))"

fun path_ino :: "u8 list \<Rightarrow> nat \<Rightarrow> nat \<Rightarrow> string list \<Rightarrow> nat option" where
  "path_ino disk start i [] = Some i"
| "path_ino disk start i (n # ns) =
     (case dir_lookup disk start i n of
        None \<Rightarrow> None
      | Some j \<Rightarrow> if j = 0 then Some 0 else if read_inode disk start j = None then None
                 else path_ino disk start j ns)"

lemma search_lookup:
  assumes "slots_ok s" and "in_use s k"
  shows "search s k name = dir_lookup (device s) (inode_start s) (ino (minode s ! k)) name"
proof -
  have "slot_ok s (minode s ! k)" "ino (minode s ! k) \<noteq> 0"
    using assms in_use_ino slot_at by (auto simp: in_use_def)
  then show ?thesis by (simp add: search_def dir_lookup_def slot_ok_def)
qed

text \<open>The loop of \<^verbatim>\<open>getino\<close>: it finds the inode of the path, gives back every reference on the way and
  keeps one to the last inode.\<close>

lemma getino_loop_ok:
  assumes "slots_ok s"
  shows "getino_loop encode names (Some k) i0 s1 = Some (j, s2) \<Longrightarrow> holds s s1 k \<Longrightarrow> names \<noteq> [] \<Longrightarrow>
    slots_ok s2 \<and> grows s s2
    \<and> (path_ino (device s) (inode_start s) (ino (minode s1 ! k)) names = Some j
         \<and> (j = 0 \<or> (\<exists>k'. holds s s2 k' \<and> ino (minode s2 ! k') = j))
       \<or> (\<exists>t l. s2 = say_line l t \<and> iget (DEV s) j t = Some (None, s2)))"
proof (induction names arbitrary: k i0 s1)
  case Nil
  then show ?case by simp
next
  case (Cons name names)
  let ?i = "ino (minode s1 ! k)"
  from Cons.prems(1) obtain i1 t where i1: "search s1 k name = Some i1" and t: "iput encode (Some k) s1 = Some t"
    and rest: "(if i1 = 0 then Some (0, say_line (''Name '' @ [CHR 0x27] @ name @ [CHR 0x27] @ '' Does Not Exist'' @ [newline]) t)
      else Option.bind (iget (DEV t) i1 t) (\<lambda>(mip', s2). getino_loop encode names mip' i1 s2)) = Some (j, s2)"
    by (auto simp: bind_eq_Some_conv)
  have u: "in_use s1 k" by (rule holds_in_use [OF assms Cons.prems(2)])
  have g1: "slots_ok s1" "grows s s1" using Cons.prems(2) by (auto simp: holds_def)
  note put = iput_holds [OF assms Cons.prems(2) t]
  have same: "device t = device s" "inode_start t = inode_start s" "DEV t = DEV s"
    "device s1 = device s" "inode_start s1 = inode_start s"
    using put(2) g1(2) by (auto simp: grows_def)
  have look: "dir_lookup (device s) (inode_start s) ?i name = Some i1"
    using search_lookup [OF g1(1) u, of name] i1 same by simp
  show ?case
  proof (cases "i1 = 0")
    case True
    with rest put(1,2) look show ?thesis by (auto intro: grows_trans)
  next
    case False
    with rest obtain mip' s3 where g: "iget (DEV t) i1 t = Some (mip', s3)"
      and r: "getino_loop encode names mip' i1 s3 = Some (j, s2)" by (auto simp: bind_eq_Some_conv)
    note ig = iget_ok [OF put(1) g]
    show ?thesis
    proof (cases mip')
      case None
      with r have j: "j = i1" "s2 = s3" by (cases names; auto)+
      from ig(4) None obtain l where "s3 = say_line l t" by blast
      with j g None same have "\<exists>t l. s2 = say_line l t \<and> iget (DEV s) j t = Some (None, s2)" by auto
      moreover have "slots_ok s2" "grows s s2" using ig(1,2) grows_trans [OF put(2)] j by simp_all
      ultimately show ?thesis by blast
    next
      case (Some k')
      have h: "holds s s3 k'" "ino (minode s3 ! k') = i1"
        using iget_holds [OF put(1) g [unfolded Some]] holds_grows [OF put(2) assms put(1)] by blast+
      have u': "in_use s3 k'" by (rule holds_in_use [OF assms h(1)])
      have "slots_ok s3" "grows s s3" using h(1) by (auto simp: holds_def)
      with u' h(2) have rd: "read_inode (device s) (inode_start s) i1 \<noteq> None"
        using slot_at [of s3 k'] in_use_ino [of s3 k'] by (auto simp: slot_ok_def in_use_def grows_def)
      show ?thesis
      proof (cases names)
        case Nil
        with r Some h look False rd show ?thesis by (auto simp: holds_def)
      next
        case (Cons n ns)
        have step: "path_ino (device s) (inode_start s) ?i (name # names)
            = path_ino (device s) (inode_start s) i1 names"
          using look False rd by auto
        from Cons have "names \<noteq> []" by simp
        from Cons.IH [OF r [unfolded Some] h(1) this] show ?thesis unfolding step h(2) .
      qed
    qed
  qed
qed

end
