(* ===== verification/MountOps.thy ===== *)
theory MountOps
  imports MountInv
begin

text \<open>
  The operations of \<^verbatim>\<open>Lab5\<close> on the table of \<^verbatim>\<open>MountInv\<close>: \<^verbatim>\<open>getino\<close> finds the inode of a path, \<^verbatim>\<open>ls\<close> and
  \<^verbatim>\<open>pwd\<close> leave the table as it was but for references, \<^verbatim>\<open>cd\<close> moves the current directory.
\<close>

lemma iget_hit:
  assumes "slots_ok s" and "in_use s k" and "ino (minode s ! k) = i"
  shows "iget (DEV s) i s = Some (Some k, set_minode k ((minode s ! k)\<lparr>refCount := refCount (minode s ! k) + 1\<rparr>) s)"
proof -
  let ?hit = "first_index (\<lambda>m. dev m = DEV s \<and> ino m = i) (minode s)"
  have k: "k < length (minode s)" "i \<noteq> 0" using assms in_use_ino by (auto simp: in_use_def)
  then have "dev (minode s ! k) = DEV s"
    using slot_at [OF assms(1) k(1)] assms(3) by (simp add: slot_ok_def)
  then have "?hit \<noteq> None" using k(1) assms(3) unfolding first_index_None by (metis nth_mem)
  then obtain k0 where k0: "?hit = Some k0" by blast
  with first_index_Some [OF k0] k assms(1,3) have "k0 = k"
    by (auto simp: slots_ok_def cached_once_def)
  with k0 show ?thesis by (simp add: iget_def Let_def)
qed

lemma put_back:
  "k < length (minode s) \<Longrightarrow> (minode s)[k := ((minode s ! k)\<lparr>refCount := refCount (minode s ! k) + 1\<rparr>)
     \<lparr>refCount := refCount (minode s ! k)\<rparr>] = minode s"
  by simp

text \<open>Getting an inode in use and putting it back changes nothing, whatever has been said or set between.\<close>

lemma iput_after_hit:
  assumes "slots_ok s" and "in_use s k" and "slots_ok s'" 
    and "minode s' = (minode s)[k := (minode s ! k)\<lparr>refCount := refCount (minode s ! k) + 1\<rparr>]"
  shows "iput encode (Some k) s' = Some (s'\<lparr>minode := minode s\<rparr>)"
proof -
  have "k < length (minode s)" using assms(2) by (simp add: in_use_def)
  with assms(4) iput_eq [OF assms(3), of k encode] show ?thesis by (simp add: set_minode_def)
qed

lemma slots_ok_procs [simp]: "slots_ok (s\<lparr>procs := p\<rparr>) = slots_ok s"
  by (simp add: slots_ok_def slot_ok_def)

lemma minode_other [simp]: "minode (say_line l s) = minode s" "minode (set_cwd k s) = minode s"
  by (simp_all add: say_line_def set_cwd_def)

lemma other_fields [simp]:
  "in_use (say_line l s) = in_use s" "in_use (set_cwd k s) = in_use s"
  "cwd_minode (say_line l s) = cwd_minode s" "procs s \<noteq> [] \<Longrightarrow> cwd_minode (set_cwd k s) = k"
  "root_minode (say_line l s) = root_minode s" "root_minode (set_cwd k s) = root_minode s"
  "procs (say_line l s) = procs s" "procs (set_cwd k s) = [] \<longleftrightarrow> procs s = []"
  by (simp_all add: say_line_def set_cwd_def in_use_def cwd_minode_def fun_eq_iff)

lemma slots_ok_cwd [simp]: "slots_ok (set_cwd k s) = slots_ok s"
  by (simp add: set_cwd_def)

section \<open>Free slots\<close>

definition frees :: "mount \<Rightarrow> nat" where
  "frees s = length (filter (\<lambda>m. refCount m = 0) (minode s))"

lemma length_filter_update:
  "k < length xs \<Longrightarrow> length (filter P (xs[k := y])) + (if P (xs ! k) then 1 else 0)
     = length (filter P xs) + (if P y then 1 else 0)"
proof (induction xs arbitrary: k)
  case (Cons x xs)
  then show ?case by (cases k) auto
qed simp

lemma frees_set:
  "k < length (minode s) \<Longrightarrow> frees (set_minode k m s) + (if refCount (minode s ! k) = 0 then 1 else 0)
     = frees s + (if refCount m = 0 then 1 else 0)"
  using length_filter_update [of k "minode s" "\<lambda>m. refCount m = 0" m] by (simp add: frees_def)

lemma iget_exists:
  assumes "slots_ok s" and "read_inode (device s) (inode_start s) i \<noteq> None" and "0 < frees s"
  obtains k s' where "iget (DEV s) i s = Some (Some k, s')" and "frees s \<le> frees s' + 1"
proof -
  let ?hit = "first_index (\<lambda>m. dev m = DEV s \<and> ino m = i) (minode s)"
  let ?free = "first_index (\<lambda>m. refCount m = 0) (minode s)"
  have "?free \<noteq> None"
    using assms(3) unfolding first_index_None frees_def by (simp add: filter_empty_conv)
  then obtain f where f: "?free = Some f" by blast
  show thesis
  proof (cases ?hit)
    case None
    from assms(2) obtain ip where "read_inode (device s) (inode_start s) i = Some ip" by blast
    with None f that frees_set [of f s] first_index_Some [OF f] show thesis
      by (force simp: iget_def)
  next
    case (Some k)
    let ?m = "(minode s ! k)\<lparr>refCount := refCount (minode s ! k) + 1\<rparr>"
    have "frees s \<le> frees (set_minode k ?m s) + 1"
      using frees_set [of k s ?m] first_index_Some [OF Some] by (simp split: if_splits)
    with Some that show thesis by (simp add: iget_def Let_def)
  qed
qed

lemma iput_frees:
  assumes "slots_ok s" and "holds s s' k" and "iput encode (Some k) s' = Some s''"
  shows "frees s' \<le> frees s''"
proof -
  have u: "in_use s' k" by (rule holds_in_use [OF assms(1,2)])
  then have k: "k < length (minode s')" "refCount (minode s' ! k) \<noteq> 0" by (auto simp: in_use_def)
  have "slots_ok s'" using assms(2) by (simp add: holds_def)
  with iput_eq [OF this k(1), of encode] assms(3)
  have "s'' = set_minode k ((minode s' ! k)\<lparr>refCount := refCount (minode s' ! k) - 1\<rparr>) s'" by simp
  with frees_set [OF k(1), of "(minode s' ! k)\<lparr>refCount := refCount (minode s' ! k) - 1\<rparr>"] k(2) show ?thesis
    by (simp split: if_splits)
qed

lemma getino_loop_exists:
  assumes "slots_ok s"
  shows "holds s s1 k \<Longrightarrow> path_ino (device s) (inode_start s) (ino (minode s1 ! k)) names = Some j \<Longrightarrow> j \<noteq> 0 \<Longrightarrow>
    names \<noteq> [] \<Longrightarrow> length names \<le> frees s1 \<Longrightarrow>
    \<exists>s2 k'. getino_loop encode names (Some k) i0 s1 = Some (j, s2) \<and> holds s s2 k' \<and> ino (minode s2 ! k') = j"
proof (induction names arbitrary: k i0 s1)
  case Nil
  then show ?case by simp
next
  case (Cons name names)
  let ?i = "ino (minode s1 ! k)"
  have u: "in_use s1 k" by (rule holds_in_use [OF assms Cons.prems(1)])
  have g1: "slots_ok s1" "grows s s1" using Cons.prems(1) by (auto simp: holds_def)
  have same1: "device s1 = device s" "inode_start s1 = inode_start s" using g1(2) by (auto simp: grows_def)
  from Cons.prems(2,3) obtain i1 where i1: "dir_lookup (device s) (inode_start s) ?i name = Some i1" "i1 \<noteq> 0"
    "read_inode (device s) (inode_start s) i1 \<noteq> None" "path_ino (device s) (inode_start s) i1 names = Some j"
    by (auto split: option.splits if_splits)
  have se: "search s1 k name = Some i1" using search_lookup [OF g1(1) u, of name] i1(1) same1 by simp
  from iput_eq [OF g1(1)] u obtain t where t: "iput encode (Some k) s1 = Some t" by (auto simp: in_use_def)
  note put = iput_holds [OF assms Cons.prems(1) t]
  have same: "device t = device s" "inode_start t = inode_start s" "DEV t = DEV s"
    using put(2) by (auto simp: grows_def)
  have fr: "length names < frees t" using iput_frees [OF assms Cons.prems(1) t] Cons.prems(5) by simp
  obtain k' s3 where g: "iget (DEV t) i1 t = Some (Some k', s3)" and f3: "frees t \<le> frees s3 + 1"
    using iget_exists [OF put(1), of i1] i1(3) fr same by (metis gr0I not_less_zero)
  have h: "holds s s3 k'" "ino (minode s3 ! k') = i1"
    using iget_holds [OF put(1) g] holds_grows [OF put(2) assms put(1)] by blast+
  have step: "getino_loop encode (name # names) (Some k) i0 s1 = getino_loop encode names (Some k') i1 s3"
    using se t i1(2) g by simp
  show ?case
  proof (cases names)
    case Nil
    with i1(4) h step show ?thesis by auto
  next
    case (Cons n ns)
    then have "names \<noteq> []" by simp
    from Cons.IH [OF h(1) _ Cons.prems(3) this, of i1] i1(4) h(2) fr f3 show ?thesis unfolding step by simp
  qed
qed

section \<open>Every operation keeps the table\<close>

lemma holds_grow:
  assumes "holds s t k" and "slots_ok s" and "grows t u" and "slots_ok u"
  shows "holds s u k"
proof -
  have k: "in_use t k" by (rule holds_in_use [OF assms(2,1)])
  with assms(3) have "refCount (minode t ! k) \<le> refCount (minode u ! k)" by (simp add: grows_def)
  with assms grows_trans [of s t u] show ?thesis by (simp add: holds_def)
qed

lemma getino_start:
  assumes "table_ok s" and "(if take 1 path = ''/'' then iget (DEV s) 2 s
      else case cwd_minode s of None \<Rightarrow> None
           | Some k \<Rightarrow> iget (dev (minode s ! k)) (ino (minode s ! k)) s) = Some (mip, s1)"
  obtains k where "mip = Some k" "holds s s1 k"
    "ino (minode s1 ! k) = (if take 1 path = ''/'' then 2 else ino (minode s ! the (cwd_minode s)))"
    "frees s1 = frees s" "printed_lines s1 = printed_lines s"
proof -
  from assms(1) obtain r c where r: "in_use s r" "ino (minode s ! r) = 2"
    and c: "cwd_minode s = Some c" "in_use s c" and s: "slots_ok s" by (auto simp: table_ok_def)
  have "dev (minode s ! c) = DEV s"
    using slot_at [OF s] in_use_ino [OF s c(2)] c(2) by (auto simp: slot_ok_def in_use_def)
  define k where "k = (if take 1 path = ''/'' then r else c)"
  have k: "in_use s k" "iget (DEV s) (ino (minode s ! k)) s = Some (mip, s1)"
    "ino (minode s ! k) = (if take 1 path = ''/'' then 2 else ino (minode s ! the (cwd_minode s)))"
    using r c assms(2) \<open>dev (minode s ! c) = DEV s\<close> by (auto simp: k_def split: if_splits)
  note hit = iget_hit [OF s k(1) refl]
  with k(2) have m: "mip = Some k" by simp
  have fr: "frees s1 = frees s"
  proof -
    have "refCount (minode s ! k) \<noteq> 0" "refCount (minode s ! k) + 1 \<noteq> 0" using k(1) by (auto simp: in_use_def)
    with hit k frees_set [of k s "(minode s ! k)\<lparr>refCount := refCount (minode s ! k) + 1\<rparr>"] show ?thesis
      by (auto simp: in_use_def)
  qed
  have "printed_lines s1 = printed_lines s" using hit k(2) by (auto simp: set_minode_def)
  with that [OF m] iget_holds [OF s k(2) [unfolded m]] k(3) fr show thesis by simp
qed

text \<open>What \<^verbatim>\<open>getino\<close> leaves: a slot in use for the inode found, or a full table.\<close>

lemma getino_ok:
  assumes "table_ok s" and "getino encode path s = Some (j, s2)"
  shows "slots_ok s2 \<and> grows s s2
    \<and> (j = 0 \<or> (\<exists>k. in_use s2 k \<and> ino (minode s2 ! k) = j)
         \<or> (\<exists>t l. s2 = say_line l t \<and> iget (DEV s) j t = Some (None, s2)))"
proof -
  have s: "slots_ok s" using assms(1) by (simp add: table_ok_def)
  show ?thesis
  proof (cases "path = ''/''")
    case True
    with assms s show ?thesis by (auto simp: getino_def table_ok_def)
  next
    case False
    with assms(2) obtain mip s1 names where
      g: "(if take 1 path = ''/'' then iget (DEV s) 2 s
        else case cwd_minode s of None \<Rightarrow> None
           | Some k \<Rightarrow> iget (dev (minode s ! k)) (ino (minode s ! k)) s) = Some (mip, s1)"
      and l: "getino_loop encode names mip 0 s1 = Some (j, s2)"
      unfolding getino_def by (auto simp: bind_eq_Some_conv cong: if_cong)
    from getino_start [OF assms(1) g] obtain k where k: "mip = Some k" "holds s s1 k" by metis
    show ?thesis
    proof (cases names)
      case Nil
      with l k show ?thesis by (auto simp: holds_def)
    next
      case (Cons n ns)
      with getino_loop_ok [OF s l [unfolded k(1)] k(2)] holds_in_use [OF s] show ?thesis by blast
    qed
  qed
qed

lemma iget_full: "iget d j t = Some (None, u) \<Longrightarrow> iget d j (say_line l t) \<noteq> Some (Some k, v)"
  by (auto simp: iget_def Let_def say_line_def bind_eq_Some_conv split: option.splits)

lemma iput_keeps:
  assumes "slots_ok s" and "iget (DEV s) i s = Some (Some k, t)" and "grows t u" and "slots_ok u"
    and "iput encode (Some k) u = Some v"
  shows "slots_ok v" and "grows s v"
proof -
  have h: "holds s u k" using holds_grow [OF iget_holds(1) [OF assms(1,2)] assms(1,3,4)] .
  show "slots_ok v" "grows s v" using iput_holds(1,2) [OF assms(1) h assms(5)] by blast+
qed

end
