(* ===== verification/SmallDisk.thy ===== *)
theory SmallDisk
  imports MountInv
begin

text \<open>
  A small ext2 disk to try the programs of \<^verbatim>\<open>Lab5\<close> and \<^verbatim>\<open>Lab6\<close> on: the root directory of inode 2 with the
  directory \<^verbatim>\<open>a\<close> of inode 3 and the file \<^verbatim>\<open>f\<close> of inode 4.
\<close>

definition inode_bytes :: "u8 \<Rightarrow> u8 \<Rightarrow> u8 \<Rightarrow> u8 list" where
  "inode_bytes lo hi blk = [lo, hi] @ replicate 26 0 @ [2, 0, 0, 0] @ replicate 8 0 @ [blk, 0, 0, 0] @ replicate 84 0"

definition disk_blocks :: "u8 list list" where
  "disk_blocks = [replicate 1024 0, replicate 56 0 @ [0x53, 0xEF] @ replicate 966 0,
     replicate 8 0 @ [3, 0, 0, 0] @ replicate 1012 0,
     replicate 128 0 @ inode_bytes 0xED 0x41 4 @ inode_bytes 0xED 0x41 5 @ inode_bytes 0xA4 0x81 6 @ replicate 512 0,
     [2, 0, 0, 0, 12, 0, 1, 2, 46, 0, 0, 0] @ [2, 0, 0, 0, 12, 0, 2, 2, 46, 46, 0, 0]
       @ [3, 0, 0, 0, 12, 0, 1, 2, 97, 0, 0, 0] @ [4, 0, 0, 0, 0xDC, 3, 1, 1, 102, 0, 0, 0] @ replicate 976 0,
     [3, 0, 0, 0, 12, 0, 1, 2, 46, 0, 0, 0] @ [2, 0, 0, 0, 0xF4, 3, 2, 2, 46, 46, 0, 0] @ replicate 1000 0]"

definition node :: "u16 \<Rightarrow> u32 \<Rightarrow> INODE" where
  "node mode blk = \<lparr>i_mode = mode, i_uid = 0, i_size = 0, i_mtime = 0, i_gid = 0, i_links_count = 0,
     i_blocks = 2, i_block = blk # replicate 14 0\<rparr>"

abbreviation dir_node :: "u32 \<Rightarrow> INODE" where "dir_node \<equiv> node 0x41ED"
abbreviation file_node :: "u32 \<Rightarrow> INODE" where "file_node \<equiv> node 0x81A4"

definition ext2_disk :: "u8 list" where
  "ext2_disk = concat disk_blocks"

lemma get_block_concat:
  assumes "\<forall>b \<in> set bs. length b = BLKSIZE" and "k < length bs"
  shows "get_block (concat bs) k = Some (bs ! k)"
proof -
  have l: "length (concat bs) = length bs * BLKSIZE" if "\<forall>b \<in> set bs. length b = BLKSIZE" for bs :: "u8 list list"
    using that by (induction bs) auto
  have "concat bs = concat (take k bs) @ bs ! k @ concat (drop (Suc k) bs)"
    using assms(2) by (metis append.assoc concat.simps(2) concat_append id_take_nth_drop)
  moreover have "length (concat (take k bs)) = k * BLKSIZE"
    using l [of "take k bs"] assms by (auto dest: in_set_takeD)
  moreover have "length (bs ! k) = BLKSIZE" using assms by simp
  moreover have "(k + 1) * BLKSIZE \<le> length (concat bs)" using l [OF assms(1)] assms(2) by (metis Suc_eq_plus1 Suc_leI mult_le_mono1)
  ultimately show ?thesis by (simp add: get_block_def)
qed

lemma small_disk_block [simp]: "k < 6 \<Longrightarrow> get_block ext2_disk k = Some (disk_blocks ! k)"
  unfolding ext2_disk_def by (rule get_block_concat) (auto simp: disk_blocks_def inode_bytes_def BLKSIZE_def)

lemma load_drop:
  "p + i + 1 < length b \<Longrightarrow> load_u16 b (p + i) = load_u16 (drop p b) i"
  "p + i + 3 < length b \<Longrightarrow> load_u32 b (p + i) = load_u32 (drop p b) i"
  by (simp_all add: load_u16_def load_u32_def add.assoc)

lemma inode_in_drop: "p + INODE_SIZE \<le> length b \<Longrightarrow> inode_in b p = inode_in (drop p b) 0"
  using load_drop(1) [of p 0 b] load_drop(2) [of p 0 b]
  by (simp add: inode_in_def load_drop INODE_SIZE_def N_BLOCKS_def add.assoc del: add_2_eq_Suc add_2_eq_Suc')

lemma upto_15: "[0..<15] = [0, 1, 2, 3, 4, 5, 6, 7, 8, 9, 10, 11, 12, 13, 14 :: nat]"
  by code_simp

lemma replicate_14: "replicate 14 x = [x, x, x, x, x, x, x, x, x, x, x, x, x, x]"
  by (simp add: numeral_eq_Suc)

lemma length_inode_bytes [simp]: "length (inode_bytes lo hi blk) = 128"
  by (simp add: inode_bytes_def)

lemma inode_bytes_in: "inode_in (inode_bytes lo hi blk @ rest) 0 = node (ucast lo OR push_bit 8 (ucast hi)) (ucast blk)"
  by (simp add: inode_in_def inode_bytes_def node_def N_BLOCKS_def upto_15 replicate_14 load_u16_def load_u32_def nth_append)

lemma small_disk_inodes [simp]:
  "read_inode ext2_disk 3 2 = Some (dir_node 4)" "read_inode ext2_disk 3 3 = Some (dir_node 5)"
  "read_inode ext2_disk 3 4 = Some (file_node 6)"
  by (simp_all add: read_inode_def disk_blocks_def inode_in_drop INODE_SIZE_def inode_bytes_in)

definition dire :: "u32 \<Rightarrow> u16 \<Rightarrow> string \<Rightarrow> DIRE" where
  "dire i r n = \<lparr>inode = i, rec_len = r, name_len = of_nat (length n), entry_name = n\<rparr>"

definition small_dirs :: "u32 \<Rightarrow> DIRE list" where
  "small_dirs blk = (if blk = 4 then [dire 2 12 ''.'', dire 2 12 ''..'', dire 3 12 ''a'', dire 4 988 ''f'']
     else [dire 3 12 ''.'', dire 2 1012 ''..''])"

lemma char_codes: "char_of (46 :: nat) = CHR ''.''" "char_of (97 :: nat) = CHR ''a''" "char_of (102 :: nat) = CHR ''f''"
  by code_simp+

lemma small_disk_entries:
  "block_entries (disk_blocks ! 4) 0 (small_dirs 4)" "block_entries (disk_blocks ! 5) 0 (small_dirs 5)"
  by (simp_all add: small_dirs_def disk_blocks_def dire_at_def name_at_def load_u32_def load_u16_def dire_def BLKSIZE_def
      nth_append char_codes)

lemma small_disk_dirs:
  assumes "blk = 4 \<or> blk = 5"
  shows "dir_holds (get_block ext2_disk) (dir_node blk) [small_dirs blk]"
proof -
  have "get_block ext2_disk 0 = Some (replicate BLKSIZE 0)" by (simp add: disk_blocks_def BLKSIZE_def)
  with assms small_disk_entries show ?thesis by (auto simp: dir_holds_def node_def N_BLOCKS_def)
qed

lemma small_disk_find:
  "blk = 4 \<or> blk = 5 \<Longrightarrow> \<not> P zero_entry \<Longrightarrow>
    find_blocks (get_block ext2_disk) P (dir_node blk) 0 = map_option Some (List.find P (small_dirs blk))"
  using find_blocks_dir [OF small_disk_dirs] by simp

lemma small_lookups [simp]:
  "dir_lookup ext2_disk 3 2 ''a'' = Some 3" "dir_lookup ext2_disk 3 3 ''..'' = Some 2"
  "dir_lookup ext2_disk 3 2 ''f'' = Some 4"
  by (simp_all add: dir_lookup_def small_disk_find small_dirs_def dire_def zero_entry_def)

end
