(* ===== verification/MountProps.thy ===== *)
theory MountProps
  imports MountOps SmallDisk
begin

text \<open>
  What the commands of \<^verbatim>\<open>Lab5\<close> do: the table stays as it has to be through a whole session, \<^verbatim>\<open>cd\<close> enters
  the directory of the path, \<^verbatim>\<open>pwd\<close> prints the way from the root, and \<^verbatim>\<open>search\<close> finds the entries a directory
  has, and never ends for the others.
\<close>

section \<open>The commands keep the table\<close>

lemma ls_entries_keeps:
  "ls_entries encode ctime dps s = Some s' \<Longrightarrow> slots_ok s \<Longrightarrow> slots_ok s' \<and> grows s s'"
proof (induction dps arbitrary: s)
  case (Cons dp dps)
  from Cons.prems(1) obtain mip t u where g: "iget (DEV s) (unat (inode dp)) s = Some (mip, t)"
    and u: "(case mip of None \<Rightarrow> Some t
            | Some k \<Rightarrow> Option.bind (ls_reg ctime (disk_inode (minode t ! k)) (entry_name dp))
                (\<lambda>line. iput encode mip (say_line line t))) = Some u"
    and r: "ls_entries encode ctime dps u = Some s'"
    by (auto simp: bind_eq_Some_conv)
  note ig = iget_ok [OF Cons.prems(2) g]
  have "slots_ok u \<and> grows s u"
  proof (cases mip)
    case None
    with u ig(1,2) show ?thesis by simp
  next
    case (Some k)
    with u obtain line where p: "iput encode (Some k) (say_line line t) = Some u" by (auto simp: bind_eq_Some_conv)
    show ?thesis
      using iput_keeps [OF Cons.prems(2) g [unfolded Some] _ _ p] ig(1) by simp
  qed
  with Cons.IH [OF r] show ?case by (auto intro: grows_trans)
qed simp

lemma ls_blocks_keeps:
  "ls_blocks encode ctime ip i s = Some s' \<Longrightarrow> slots_ok s \<Longrightarrow> slots_ok s' \<and> grows s s'"
proof (induction encode ctime ip i s rule: ls_blocks.induct)
  case (1 encode ctime ip i s)
  show ?case
  proof (cases "i < unat (i_blocks ip) \<and> i_block ip ! i \<noteq> 0")
    case False
    with "1.prems" show ?thesis by (subst (asm) ls_blocks.simps) (auto split: if_splits)
  next
    case True
    with "1.prems"(1) obtain l buf dps t where b: "get_block (device (say_line l s)) (unat (i_block ip ! i)) = Some buf"
      "all_entries buf 0 = Some dps" "ls_entries encode ctime dps (say_line l s) = Some t"
      "ls_blocks encode ctime ip (i + 1) t = Some s'" "i < length (i_block ip)"
      and l: "l = ''i_block['' @ dec (int i) @ ''] = '' @ dec (uint (i_block ip ! i)) @ [newline]"
      by (subst (asm) ls_blocks.simps) (auto simp: bind_eq_Some_conv Let_def split: if_splits)
    have t: "slots_ok t \<and> grows s t" using ls_entries_keeps [OF b(3)] "1.prems"(2) by simp
    with "1.IH" [of "say_line l s" buf dps t] True b "1.prems" l show ?thesis by (auto intro: grows_trans)
  qed
qed

definition keeps :: "int \<Rightarrow> mount \<Rightarrow> string \<times> mount \<Rightarrow> bool" where
  "keeps d s r \<longleftrightarrow> d = DEV s \<and> slots_ok s \<longrightarrow> slots_ok (snd r) \<and> grows s (snd r)"

lemma R_Pwd_keeps: "R_Pwd stale path d wd s = Some r \<Longrightarrow> keeps d s r"
proof (induction rule: R_Pwd.raw_induct [rotated, consumes 1, case_names step])
  case (step go stale path d wd s r)
  show ?case
  proof (cases "root_minode s = Some wd")
    case True
    with step.hyps show ?thesis by (auto simp: keeps_def)
  next
    case False
    with step.hyps obtain i k t where g: "iget d i s = Some (Some k, t)"
      and r: "r = (path, t) \<or> (\<exists>p. go stale p d k t = Some r)"
      by (auto simp: bind_eq_Some_conv Let_def split: option.split_asm if_split_asm) blast
    show ?thesis
      unfolding keeps_def
    proof
      assume d: "d = DEV s \<and> slots_ok s"
      with g have t: "slots_ok t" "grows s t" using iget_ok(1,2) by metis+
      from r show "slots_ok (snd r) \<and> grows s (snd r)"
      proof
        assume "\<exists>p. go stale p d k t = Some r"
        then obtain p where "go stale p d k t = Some r" ..
        then have "keeps d t r" by (rule step.IH)
        moreover have "d = DEV t" using d t(2) by (simp add: grows_def)
        ultimately show ?thesis using t grows_trans [OF t(2)] by (auto simp: keeps_def)
      qed (use t in simp)
    qed
  qed
qed

lemma table_ok_say [simp]: "table_ok (say_line l s) = table_ok s"
  by (simp add: table_ok_def)

lemma table_ok_cwd: "table_ok s \<Longrightarrow> in_use s k \<Longrightarrow> table_ok (set_cwd (Some k) s)"
  by (auto simp: table_ok_def)

text \<open>\<^verbatim>\<open>cd\<close> with the inode of the path in the table.\<close>

definition enter :: "nat \<Rightarrow> mount \<Rightarrow> mount" where
  "enter k s = (if is_dir (disk_inode (minode s ! k)) then set_cwd (Some k) s
     else if is_reg (disk_inode (minode s ! k)) then say_line (''Cannot cd into a file'' @ [newline]) s else s)"

lemma ChangeDir_found:
  assumes "path \<noteq> []" and "getino encode path s = Some (j, t)" and "j \<noteq> 0" and "DEV t = DEV s"
    and "slots_ok t" and "in_use t k" and "ino (minode t ! k) = j"
  shows "ChangeDir encode (DEV s) path s = Some (0, enter k t)"
proof -
  define u where "u = set_minode k ((minode t ! k)\<lparr>refCount := refCount (minode t ! k) + 1\<rparr>) t"
  define v where "v = (if is_dir (disk_inode (minode u ! k)) then set_cwd (Some k) u
    else if is_reg (disk_inode (minode u ! k)) then say_line (''Cannot cd into a file'' @ [newline]) u else u)"
  have g: "iget (DEV t) j t = Some (Some k, u)" using iget_hit [OF assms(5-7)] by (simp add: u_def)
  have k: "k < length (minode t)" using assms(6) by (simp add: in_use_def)
  have "slots_ok v" using iget_ok(1) [OF assms(5) g] by (auto simp: v_def)
  moreover have "minode v = minode u" by (auto simp: v_def)
  ultimately have "iput encode (Some k) v = Some (v\<lparr>minode := minode t\<rparr>)"
    using iput_after_hit [OF assms(5,6)] by (simp add: u_def)
  moreover have "v\<lparr>minode := minode t\<rparr> = enter k t"
    using k by (simp add: v_def u_def enter_def set_minode_def set_cwd_def say_line_def)
  ultimately show ?thesis
    using assms(1-4) g unfolding ChangeDir_def v_def by (simp add: Let_def)
qed

lemma enter_ok:
  assumes "table_ok s" and "in_use s k"
  shows "table_ok (enter k s)" and "minode (enter k s) = minode s"
    and "cwd_minode (enter k s) = (if is_dir (disk_inode (minode s ! k)) then Some k else cwd_minode s)"
  using assms table_ok_cwd [OF assms] by (auto simp: enter_def) (auto simp: table_ok_def)

lemma ChangeDir_keeps:
  assumes "table_ok s" and "ChangeDir encode (DEV s) path s = Some (r, s')"
  shows "table_ok s'"
proof (cases "path = []")
  case True
  with assms show ?thesis by (simp add: ChangeDir_def)
next
  case False
  with assms(2) obtain j t where t: "getino encode path s = Some (j, t)"
    and r: "j = 0 \<Longrightarrow> s' = t" "j \<noteq> 0 \<Longrightarrow> \<exists>k u. iget (DEV s) j t = Some (Some k, u)"
    unfolding ChangeDir_def by (auto simp: bind_eq_Some_conv split: if_split_asm option.split_asm)
  note gi = getino_ok [OF assms(1) t]
  then have tt: "table_ok t" "slots_ok t" "DEV t = DEV s"
    using table_ok_grows [OF assms(1)] by (auto simp: grows_def)
  show ?thesis
  proof (cases "j = 0")
    case True
    with r tt show ?thesis by simp
  next
    case j: False
    with gi r(2) obtain k where k: "in_use t k" "ino (minode t ! k) = j" using iget_full by blast
    from ChangeDir_found [OF False t j tt(3,2) k] assms(2) enter_ok(1) [OF tt(1) k(1)] show ?thesis by simp
  qed
qed

lemma ListFile_keeps:
  assumes "table_ok s" and "ListFile encode ctime (DEV s) path s = Some (r, s')"
  shows "table_ok s'"
proof -
  have s: "slots_ok s" using assms(1) by (simp add: table_ok_def)
  have "slots_ok s' \<and> grows s s'"
  proof (cases "path = []")
    case True
    with assms(2) obtain k where "ls_dir encode ctime k s = Some s'"
      by (auto simp: ListFile_def bind_eq_Some_conv)
    with s ls_blocks_keeps show ?thesis by (auto simp: ls_dir_def)
  next
    case False
    define lst where "lst = (\<lambda>k u. if is_dir (disk_inode (minode u ! k)) then ls_dir encode ctime k u
      else if is_reg (disk_inode (minode u ! k))
      then map_option (\<lambda>line. say_line line u) (ls_reg ctime (disk_inode (minode u ! k)) (cut_path path)) else Some u)"
    from False assms(2) obtain j t where t: "getino encode path s = Some (j, t)"
      and r0: "(if j = 0 then Some (- 1, t) else Option.bind (iget (DEV s) j t) (\<lambda>(mip, u).
          case mip of None \<Rightarrow> None
          | Some k \<Rightarrow> Option.bind (lst k u) (\<lambda>v. Option.bind (iput encode mip v) (\<lambda>w. Some (0, w)))))
        = Some (r, s')"
      unfolding ListFile_def lst_def by (auto simp: bind_eq_Some_conv cong: if_cong)
    have r: "j = 0 \<Longrightarrow> s' = t" "j \<noteq> 0 \<Longrightarrow> \<exists>k u v. iget (DEV s) j t = Some (Some k, u)
        \<and> lst k u = Some v \<and> iput encode (Some k) v = Some s'"
      using r0 by (auto simp: bind_eq_Some_conv split: option.split_asm)
    note gi = getino_ok [OF assms(1) t]
    then have tt: "slots_ok t" "grows s t" "DEV t = DEV s" by (auto simp: grows_def)
    show ?thesis
    proof (cases "j = 0")
      case True
      with r tt show ?thesis by simp
    next
      case False
      with r(2) obtain k u v where g: "iget (DEV t) j t = Some (Some k, u)"
        and v: "ls_dir encode ctime k u = Some v \<or> (\<exists>l. v = say_line l u) \<or> v = u" "iput encode (Some k) v = Some s'"
        unfolding tt(3) lst_def by (auto split: if_split_asm)
      have "slots_ok u" using iget_ok(1) [OF tt(1) g] .
      with v(1) ls_blocks_keeps have "slots_ok v" "grows u v" by (auto simp: ls_dir_def)
      with iput_keeps [OF tt(1) g _ _ v(2)] grows_trans [OF tt(2)] show ?thesis by simp
    qed
  qed
  with table_ok_grows [OF assms(1)] show ?thesis by blast
qed

lemma command_turn_keeps:
  assumes "table_ok s" and "command_turn encode ctime stale line s = Some (Inr s')"
  shows "table_ok s'"
proof -
  have s: "slots_ok s" using assms(1) by (simp add: table_ok_def)
  consider "s' = s" | r p where "ListFile encode ctime (DEV s) p s = Some (r, s')"
    | r p where "ChangeDir encode (DEV s) p s = Some (r, s')"
    | k where "Pwd stale (DEV s) k s = Some s'"
    using assms(2) unfolding command_turn_def by (auto simp: bind_eq_Some_conv split: if_split_asm)
  then show ?thesis
  proof cases
    case 4
    then obtain p t where t: "R_Pwd stale [] (DEV s) k s = Some (p, t)" and s': "s' = say_line (p @ [newline]) t"
      by (auto simp: Pwd_def bind_eq_Some_conv)
    from R_Pwd_keeps [OF t] s have "slots_ok t" "grows s t" by (simp_all add: keeps_def)
    with table_ok_grows [OF assms(1)] s' show ?thesis by simp
  qed (use assms(1) ListFile_keeps ChangeDir_keeps in blast)+
qed

lemma start_up_ok:
  assumes "start_up fd disk = Some (Inr s)" and "fd \<noteq> 0"
  shows "table_ok s"
proof -
  from assms(1) obtain start s1 where m: "mount_root fd (init_mount fd start disk) = Some s1"
    and p: "init_proc fd s1 = Some s"
    by (auto simp: start_up_def bind_eq_Some_conv split: if_split_asm)
  let ?s0 = "init_mount fd start disk"
  have s0: "slots_ok ?s0" "DEV ?s0 = fd" "procs ?s0 \<noteq> []"
    using assms(2) by (simp_all add: init_mount_def slots_ok_def slot_ok_def cached_once_def blank_minode_def FS_NPROC_def
      zero_inode_def)
  from m obtain mip t where t: "iget fd 2 ?s0 = Some (mip, t)" and s1: "s1 = t\<lparr>root_minode := mip\<rparr>"
    by (auto simp: mount_root_def bind_eq_Some_conv)
  have "mip \<noteq> None"
  proof
    assume "mip = None"
    with t have "first_index (\<lambda>m. refCount m = 0) (minode ?s0) = None"
      by (auto simp: iget_def bind_eq_Some_conv Let_def split: option.split_asm)
    then show False unfolding first_index_None by (simp add: init_mount_def blank_minode_def NMINODE_def)
  qed
  then obtain k where k: "mip = Some k" by blast
  note h = iget_holds [OF s0(1), unfolded s0(2), OF t [unfolded k]]
  have t': "slots_ok t" "in_use t k" "procs t \<noteq> []" "DEV t = fd"
    using h(1) holds_in_use [OF s0(1) h(1)] s0(2,3) by (auto simp: holds_def grows_def)
  define u where "u = s1\<lparr>procs := (procs s1)[0 := (procs s1 ! 0)\<lparr>proc_status := READY_PROC\<rparr>]\<rparr>"
  have u: "slots_ok u" "in_use u k" "ino (minode u ! k) = 2" "DEV u = fd" "root_minode u = Some k" "procs u \<noteq> []"
    using t' h(2) by (simp_all add: u_def s1 k slots_ok_def slot_ok_def in_use_def)
  from iget_hit [OF u(1-3)] u(4) p
  have s: "s = set_cwd (Some k) (set_minode k ((minode u ! k)\<lparr>refCount := refCount (minode u ! k) + 1\<rparr>) u)"
    by (simp add: init_proc_def u_def)
  have "slots_ok (set_minode k ((minode u ! k)\<lparr>refCount := refCount (minode u ! k) + 1\<rparr>) u)"
    using iget_ok(1) [OF u(1) iget_hit [OF u(1-3)]] .
  with u show ?thesis unfolding s by (simp add: table_ok_def in_use_def)
qed

lemma session_keeps:
  "table_ok s \<Longrightarrow> fs_session encode ctime stale lines s = Some (Inr s') \<Longrightarrow> table_ok s'"
  by (induction lines arbitrary: s)
    (auto dest: command_turn_keeps split: option.split_asm sum.split_asm)

section \<open>The properties\<close>

text \<open>C31. Through every session the inode table stays sound: each cached inode is there once and equals
  the one on the disk, no reference count is negative, the root pointer is a slot in use with inode 2, and
  the current directory is a slot in use.\<close>

theorem table_stays_ok:
  assumes "start_up fd disk = Some (Inr s0)" and "fd \<noteq> 0"
    and "fs_session encode ctime stale lines s0 = Some (Inr s)"
  shows "table_ok s"
  by (rule session_keeps [OF start_up_ok [OF assms(1,2)] assms(3)])

lemma first_index_none: "\<not> P x \<Longrightarrow> first_index P (replicate n x) = None"
  by (simp add: first_index_None)

definition small_root :: mount where
  "small_root = (case start_up 3 ext2_disk of Some (Inr s) \<Rightarrow> s)"

definition root_slot :: MINODE where
  "root_slot = \<lparr>disk_inode = dir_node 4, dev = 3, ino = 2, refCount = 2, dirty = False, mounted = 0\<rparr>"

lemma small_start: "start_up 3 ext2_disk = Some (Inr small_root)"
  and small_root_fields: "minode small_root = root_slot # replicate 63 (blank_minode zero_inode)"
    "root_minode small_root = Some 0" "cwd_minode small_root = Some 0" "DEV small_root = 3"
    "device small_root = ext2_disk" "inode_start small_root = 3" "printed_lines small_root = []"
    "procs small_root \<noteq> []"
proof -
  have r: "replicate 64 x = x # replicate 63 x" for x :: MINODE by (simp add: numeral_eq_Suc)
  have "\<exists>s. start_up 3 ext2_disk = Some (Inr s)
    \<and> minode s = root_slot # replicate 63 (blank_minode zero_inode) \<and> root_minode s = Some 0
    \<and> cwd_minode s = Some 0 \<and> DEV s = 3 \<and> device s = ext2_disk \<and> inode_start s = 3 \<and> printed_lines s = []
    \<and> procs s \<noteq> []"
    by (simp add: start_up_def disk_blocks_def load_u16_def load_u32_def nth_append mount_root_def init_mount_def
        NMINODE_def r iget_def blank_minode_def init_proc_def set_minode_def set_cwd_def cwd_minode_def FS_NPROC_def
        root_slot_def first_index_none)
  then show "start_up 3 ext2_disk = Some (Inr small_root)"
    "minode small_root = root_slot # replicate 63 (blank_minode zero_inode)"
    "root_minode small_root = Some 0" "cwd_minode small_root = Some 0" "DEV small_root = 3"
    "device small_root = ext2_disk" "inode_start small_root = 3" "printed_lines small_root = []"
    "procs small_root \<noteq> []"
    by (auto simp: small_root_def)
qed

text \<open>On the small disk: \<^verbatim>\<open>pwd\<close> and an empty line.\<close>

lemma small_root_ok: "table_ok small_root"
  using start_up_ok [OF small_start] by simp

theorem table_stays_ok_witness:
  "\<exists>s. fs_session (\<lambda>b p ip. b) (\<lambda>t. Some []) (\<lambda>out path n. n) [''pwd'', []] small_root = Some (Inr s) \<and> table_ok s"
proof -
  have "fs_session (\<lambda>b p ip. b) (\<lambda>t. Some []) (\<lambda>out path n. n) [''pwd'', []] small_root = Some (Inr (say_line [newline] small_root))"
    by (simp add: command_turn_def SplitLine_def strtok_all_def small_root_fields Pwd_def R_Pwd.simps)
  with table_stays_ok [OF small_start _ this] show ?thesis by simp
qed

text \<open>What is typed, in lines of up to 254 characters, is the session of these lines, and the program
  returns when one of them quits; a longer line runs as two and loses a character.\<close>

lemma session_run_lines: "fs_session encode ctime stale lines s = run_lines (command_turn encode ctime stale) lines s"
  by (induction lines arbitrary: s) (auto split: option.splits sum.splits)

theorem main_loop_runs_session:
  assumes "\<forall>l \<in> set lines. plain l \<and> length l < 255" and "plain l" and "255 \<le> length l"
  shows "main_loop encode ctime stale (typing lines) s =
      (case fs_session encode ctime stale lines s of Some (Inl s') \<Rightarrow> Some s' | _ \<Rightarrow> None)
    \<and> main_loop encode ctime stale (l @ newline # rest) s
      = main_loop encode ctime stale (take 254 l @ newline # drop 255 l @ newline # rest) s"
proof
  have n: "\<forall>l \<in> set lines. plain l \<and> length l + 1 < 256" using assms(1) by auto
  show "main_loop encode ctime stale (typing lines) s =
      (case fs_session encode ctime stale lines s of Some (Inl s') \<Rightarrow> Some s' | _ \<Rightarrow> None)"
    using read_loop_lines [OF n, of "command_turn encode ctime stale" "[]" s]
    by (auto simp: main_loop_def session_run_lines split: option.split sum.split)
  show "main_loop encode ctime stale (l @ newline # rest) s
      = main_loop encode ctime stale (take 254 l @ newline # drop 255 l @ newline # rest) s"
    using read_loop_cut [of l 256 "command_turn encode ctime stale" rest s] assms(2,3) by (simp add: main_loop_def)
qed

theorem mount_main_runs_session:
  assumes "\<forall>l \<in> set lines. plain l \<and> length l < 255"
  shows "mount_main encode ctime stale fd files argv (typing lines) =
    (let disk = (if 1 < length argv then argv ! 1 else ''mydisk'')
     in case files disk of
          None \<Rightarrow> Some (Inl (''Error: Failed to open '' @ [CHR 0x27] @ disk @ [CHR 0x27, newline], 1))
        | Some bytes \<Rightarrow>
            (case start_up fd bytes of
               None \<Rightarrow> None
             | Some (Inl u) \<Rightarrow> Some (Inl ([], 1))
             | Some (Inr s) \<Rightarrow>
                 (case fs_session encode ctime stale lines s of Some (Inl s') \<Rightarrow> Some (Inr s') | _ \<Rightarrow> None)))"
proof -
  have "\<forall>l \<in> set lines. plain l \<and> length l + 1 < 256" using assms by auto
  then have "main_loop encode ctime stale (typing lines) s =
      (case fs_session encode ctime stale lines s of Some (Inl s') \<Rightarrow> Some s' | _ \<Rightarrow> None)" for s
    using read_loop_lines [of lines 256 "command_turn encode ctime stale" "[]" s]
    by (auto simp: main_loop_def session_run_lines split: option.split sum.split)
  then show ?thesis
    by (auto simp: mount_main_def OpenFile_def Let_def split: option.split sum.split unit.split)
qed

lemma slot_inode:
  "slots_ok s \<Longrightarrow> in_use s k \<Longrightarrow> read_inode (device s) (inode_start s) (ino (minode s ! k)) = Some (disk_inode (minode s ! k))"
  using slot_at [of s k] in_use_ino [of s k] by (simp add: in_use_def slot_ok_def)

lemma getino_exists:
  assumes "table_ok s" and "strtok_all ''/'' path = names" and "names \<noteq> []" and "length names \<le> 64"
    and "length names \<le> frees s" and "cwd_minode s = Some c" and "j \<noteq> 0"
    and "path_ino (device s) (inode_start s) (if take 1 path = ''/'' then 2 else ino (minode s ! c)) names = Some j"
  obtains t k where "getino encode path s = Some (j, t)" and "holds s t k" and "ino (minode t ! k) = j"
proof -
  have p: "path \<noteq> ''/''" using assms(2,3) by (auto simp: strtok_all_def)
  from assms(1,6) obtain r where s: "slots_ok s" and r: "in_use s r" "ino (minode s ! r) = 2" and c: "in_use s c"
    by (auto simp: table_ok_def)
  have "dev (minode s ! c) = DEV s"
    using slot_at [OF s] in_use_ino [OF s c] c by (auto simp: slot_ok_def in_use_def)
  with iget_hit [OF s r] iget_hit [OF s c refl] assms(6) obtain mip u where
    u: "(if take 1 path = ''/'' then iget (DEV s) 2 s
      else case cwd_minode s of None \<Rightarrow> None
           | Some k \<Rightarrow> iget (dev (minode s ! k)) (ino (minode s ! k)) s) = Some (mip, u)" by fastforce
  from getino_start [OF assms(1) u] obtain k where k: "mip = Some k" "holds s u k"
    "ino (minode u ! k) = (if take 1 path = ''/'' then 2 else ino (minode s ! the (cwd_minode s)))" "frees u = frees s"
    by metis
  have "path_ino (device s) (inode_start s) (ino (minode u ! k)) names = Some j"
    using k(3) assms(6,8) by (auto split: if_splits)
  from getino_loop_exists [OF s k(2) this assms(7,3), where encode = encode and ?i0.0 = 0] k(4) assms(5)
  obtain t k' where t: "getino_loop encode names (Some k) 0 u = Some (j, t)" "holds s t k'" "ino (minode t ! k') = j"
    by auto
  have "getino encode path s = Some (j, t)"
    unfolding getino_def using p u k(1) t(1) assms(2,4) by (simp add: tokenize_def)
  with t(2,3) that show thesis by blast
qed

text \<open>C32. \<^verbatim>\<open>cd\<close> of a path of names that the directories of the disk lead along makes the directory there the
  current one, and leaves it as it was when the path leads to a file; the path starts at the root when it
  starts with a slash, and there have to be as many free slots as names.\<close>

theorem cd_enters:
  assumes "table_ok s" and "strtok_all ''/'' path = names" and "names \<noteq> []" and "length names \<le> 64"
    and "length names \<le> frees s" and "cwd_minode s = Some c" and "j \<noteq> 0"
    and "path_ino (device s) (inode_start s) (if take 1 path = ''/'' then 2 else ino (minode s ! c)) names = Some j"
    and "read_inode (device s) (inode_start s) j = Some ip"
  shows "\<exists>s' c'. ChangeDir encode (DEV s) path s = Some (0, s') \<and> table_ok s' \<and> device s' = device s
    \<and> cwd_minode s' = Some c' \<and> ino (minode s' ! c') = (if is_dir ip then j else ino (minode s ! c))"
proof -
  have p: "path \<noteq> []" using assms(2,3) by (auto simp: strtok_all_def)
  have s: "slots_ok s" "in_use s c" using assms(1,6) by (auto simp: table_ok_def)
  from getino_exists [OF assms(1-8)] obtain t k where
    t: "getino encode path s = Some (j, t)" "holds s t k" "ino (minode t ! k) = j" by blast
  have k: "in_use t k" by (rule holds_in_use [OF s(1) t(2)])
  have g: "slots_ok t" "grows s t" using t(2) by (simp_all add: holds_def)
  then have tt: "table_ok t" "DEV t = DEV s" "device t = device s" "inode_start t = inode_start s" "procs t = procs s"
    using table_ok_grows [OF assms(1)] by (simp_all add: grows_def)
  have ip: "disk_inode (minode t ! k) = ip" using slot_inode [OF g(1) k] t(3) tt assms(9) by simp
  have d: "device (enter k t) = device t" by (simp add: enter_def set_cwd_def say_line_def)
  have c: "cwd_minode t = Some c" "ino (minode t ! c) = ino (minode s ! c)"
    using assms(6) tt(5) in_use_grows [OF s(2) g(2)] by (simp_all add: cwd_minode_def)
  from ChangeDir_found [OF p t(1) assms(7) tt(2) g(1) k t(3)] enter_ok [OF tt(1) k] d tt(3) c ip t(3)
  show ?thesis by (cases "is_dir ip") auto
qed

definition ups :: "string list \<Rightarrow> string" where
  "ups ns = concat (map (\<lambda>n. ''/'' @ n) (rev ns))"

definition name_in :: "u8 list \<Rightarrow> INODE \<Rightarrow> nat \<Rightarrow> string option option" where
  "name_in disk ip i = map_option (map_option entry_name) (find_blocks (get_block disk) (\<lambda>dp. unat (inode dp) = i) ip 0)"

text \<open>The names on the way from a directory up to the root, as the parents on the disk give them.\<close>

fun way_up :: "u8 list \<Rightarrow> nat \<Rightarrow> nat \<Rightarrow> string list \<Rightarrow> bool" where
  "way_up disk start i [] \<longleftrightarrow> i = 2"
| "way_up disk start i (n # ns) \<longleftrightarrow> i \<noteq> 2 \<and>
     (case dir_lookup disk start i ''..'' of
        None \<Rightarrow> False
      | Some p \<Rightarrow> (case read_inode disk start p of
          None \<Rightarrow> False
        | Some ip \<Rightarrow> name_in disk ip i = Some (Some n) \<and> way_up disk start p ns))"

lemma iget_quiet: "iget d i s = Some (Some k, t) \<Longrightarrow> printed_lines t = printed_lines s"
  by (auto simp: iget_def Let_def bind_eq_Some_conv set_minode_def split: option.split_asm)

text \<open>What \<^verbatim>\<open>pwd\<close> puts together on this way of the pieces \<open>f path n\<close> that are left of the names \<open>n\<close>.\<close>

fun way_text :: "(string \<Rightarrow> string \<Rightarrow> string) \<Rightarrow> string list \<Rightarrow> string \<Rightarrow> string" where
  "way_text f [] path = path"
| "way_text f (n # ns) path = way_text f ns (''/'' @ f path n @ path)"

lemma way_text_length: "length path \<le> length (way_text f ns path)"
proof (induction ns arbitrary: path)
  case (Cons n ns)
  from Cons.IH [of "''/'' @ f path n @ path"] show ?case by simp
qed simp

lemma way_text_whole: "\<forall>path n. f path n = n \<Longrightarrow> way_text f ns path = ups ns @ path"
  by (induction ns arbitrary: path) (simp_all add: ups_def)

lemma R_Pwd_way:
  assumes "slots_ok s" and "root_minode s = Some r" and "in_use s r" and "ino (minode s ! r) = 2" and "in_use s k"
    and "way_up (device s) (inode_start s) (ino (minode s ! k)) ns" and "length ns \<le> frees s"
    and "length (way_text (stale (printed_lines s)) ns path) < 256"
  shows "\<exists>s'. R_Pwd stale path (DEV s) k s = Some (way_text (stale (printed_lines s)) ns path, s') \<and> slots_ok s' \<and> grows s s'
    \<and> printed_lines s' = printed_lines s"
  using assms
proof (induction ns arbitrary: path k s)
  case Nil
  then have "r = k" by (auto simp: slots_ok_def cached_once_def in_use_def)
  with Nil show ?case by (auto simp: R_Pwd.simps)
next
  case (Cons n ns)
  note s = Cons.prems(1) and k = Cons.prems(5)
  let ?i = "ino (minode s ! k)"
  from Cons.prems(6) obtain p ip where p: "dir_lookup (device s) (inode_start s) ?i ''..'' = Some p"
    "read_inode (device s) (inode_start s) p = Some ip" "name_in (device s) ip ?i = Some (Some n)"
    "way_up (device s) (inode_start s) p ns" "?i \<noteq> 2" by (auto split: option.splits)
  obtain m t where m: "iget (DEV s) p s = Some (Some m, t)" "frees s \<le> frees t + 1"
    using iget_exists [OF s, of p] p(2) Cons.prems(7) by auto
  note h = iget_holds [OF s m(1)]
  have um: "in_use t m" by (rule holds_in_use [OF s h(1)])
  have t: "slots_ok t" "grows s t" using h(1) by (simp_all add: holds_def)
  then have same: "device t = device s" "inode_start t = inode_start s" "DEV t = DEV s" "root_minode t = root_minode s"
    "printed_lines t = printed_lines s" using iget_quiet [OF m(1)] by (simp_all add: grows_def)
  have ip: "disk_inode (minode t ! m) = ip" using slot_inode [OF t(1) um] h(2) p(2) same by simp
  have name: "GetName t (disk_inode (minode t ! m)) (ino (minode t ! k)) = Some (Some n)"
    using p(3) ip same in_use_grows [OF k t(2)] by (simp add: GetName_def name_in_def)
  let ?path = "''/'' @ stale (printed_lines s) path n @ path"
  have len: "length ?path < 256" using way_text_length [of ?path "stale (printed_lines s)" ns] Cons.prems(8) by simp
  have "r \<noteq> k" using Cons.prems(4) p(5) by auto
  then have step: "R_Pwd stale path (DEV s) k s = R_Pwd stale ?path (DEV t) m t"
    using Cons.prems(2) search_lookup [OF s k, of "''..''"] p(1) m(1) name same len
    by (subst R_Pwd.simps) (simp add: Let_def)
  have "\<exists>s'. R_Pwd stale ?path (DEV t) m t = Some (way_text (stale (printed_lines t)) ns ?path, s') \<and> slots_ok s' \<and> grows t s'
    \<and> printed_lines s' = printed_lines t"
    using Cons.IH [OF t(1), of m ?path] Cons.prems(2-4,7,8) same um p(4) h(2) m(2)
      in_use_grows [OF Cons.prems(3) t(2)] by simp
  with step same(5) grows_trans [OF t(2)] show ?case by auto
qed

text \<open>C33. \<^verbatim>\<open>pwd\<close> climbs from the current directory to the root, finds in each parent the name of the directory it
  comes from, prints one line and keeps the table. The line is not made of the names but, in their order and with
  a slash before each, of what is left of them in the dead block of \<^verbatim>\<open>GetName\<close> when \<^verbatim>\<open>strcat\<close> reads it; it is
  the path of the directory (and so an empty line at the root) if the names are still there. A slot has to be free
  for each directory on the way and the line has to fit its 256 characters.\<close>

theorem pwd_prints_way:
  assumes "table_ok s" and "cwd_minode s = Some k"
    and "way_up (device s) (inode_start s) (ino (minode s ! k)) ns" and "length ns \<le> frees s"
    and "length (way_text (stale (printed_lines s)) ns []) < 256"
  shows "(\<exists>s'. Pwd stale (DEV s) k s = Some s' \<and> table_ok s' \<and>
      printed_lines s' = printed_lines s @ [way_text (stale (printed_lines s)) ns [] @ [newline]])
    \<and> ((\<forall>path n. stale (printed_lines s) path n = n) \<longrightarrow> way_text (stale (printed_lines s)) ns [] = ups ns)"
proof -
  from assms(1,2) obtain r where r: "slots_ok s" "root_minode s = Some r" "in_use s r" "ino (minode s ! r) = 2" "in_use s k"
    by (auto simp: table_ok_def)
  let ?w = "way_text (stale (printed_lines s)) ns []"
  from R_Pwd_way [where stale = stale and path = "[]", OF r assms(3-5)] obtain t where
    t: "R_Pwd stale [] (DEV s) k s = Some (?w, t)" "slots_ok t" "grows s t" "printed_lines t = printed_lines s" by auto
  have "table_ok (say_line (?w @ [newline]) t)" using table_ok_grows [OF assms(1) t(3,2)] by simp
  with t way_text_whole [of "stale (printed_lines s)" ns "[]"] show ?thesis by (simp add: Pwd_def say_line_def)
qed

text \<open>\<^verbatim>\<open>search\<close> of a directory as the disk has it finds the first entry with the name; for a name that is
  not there it does not return.\<close>

theorem search_finds_entries:
  assumes "dir_holds (get_block (device s)) (disk_inode (minode s ! k)) ess" and "name \<noteq> []"
  shows "search s k name = map_option (\<lambda>e. unat (inode e)) (List.find (\<lambda>e. entry_name e = name) (concat ess))"
proof -
  have "\<not> entry_name zero_entry = name" using assms(2) by (simp add: zero_entry_def)
  with find_blocks_dir [OF assms(1), of "\<lambda>e. entry_name e = name"] show ?thesis
    by (cases "List.find (\<lambda>e. entry_name e = name) (concat ess)") (simp_all add: search_def)
qed

theorem search_finds_entries_witness:
  "search small_root 0 ''a'' = Some 3 \<and> search small_root 0 ''b'' = None"
  using search_finds_entries [of small_root 0 "[small_dirs 4]" "''a''"]
    search_finds_entries [of small_root 0 "[small_dirs 4]" "''b''"] small_disk_dirs [of 4]
  by (simp add: small_root_fields root_slot_def small_dirs_def dire_def)

lemma small_name [simp]: "name_in ext2_disk (dir_node 4) 3 = Some (Some ''a'')"
  by (simp add: name_in_def small_disk_find small_dirs_def dire_def zero_entry_def)

lemma small_root_frees [simp]: "frees small_root = 63"
  by (simp add: frees_def small_root_fields root_slot_def blank_minode_def)

theorem cd_enters_witness:
  "\<exists>s' c'. ChangeDir (\<lambda>b p ip. b) 3 ''/a'' small_root = Some (0, s') \<and> table_ok s' \<and> device s' = ext2_disk
    \<and> cwd_minode s' = Some c' \<and> ino (minode s' ! c') = 3"
  using cd_enters [OF small_root_ok, of "''/a''" "[''a'']" 0 3 "dir_node 5" "\<lambda>b p ip. b"]
  by (simp add: small_root_fields strtok_all_def is_dir_def node_def S_ISDIR_def root_slot_def)

text \<open>\<^verbatim>\<open>pwd\<close> in the directory \<^verbatim>\<open>a\<close> of the small disk.\<close>

definition small_in_a :: mount where
  "small_in_a = small_root\<lparr>minode := (minode small_root)[1 := \<lparr>disk_inode = dir_node 5, dev = 3, ino = 3,
     refCount = 1, dirty = False, mounted = 0\<rparr>], procs := procs (set_cwd (Some 1) small_root)\<rparr>"

lemma small_in_a_ok: "table_ok small_in_a" "cwd_minode small_in_a = Some 1" "frees small_in_a = 62"
proof -
  show c: "cwd_minode small_in_a = Some 1"
    using small_root_fields(8) by (simp add: small_in_a_def cwd_minode_def set_cwd_def)
  have r: "replicate 63 x = x # replicate 62 x" for x :: MINODE by (simp add: numeral_eq_Suc)
  have "cached_once (minode small_in_a)"
    by (auto simp: small_in_a_def small_root_fields r cached_once_def nth_Cons root_slot_def blank_minode_def
        split: nat.split)
  then show "table_ok small_in_a"
    using small_root_fields c
    by (auto simp: table_ok_def slots_ok_def small_in_a_def r slot_ok_def NMINODE_def root_slot_def blank_minode_def
        in_use_def set_cwd_def)
  show "frees small_in_a = 62"
    by (simp add: frees_def small_in_a_def small_root_fields r root_slot_def blank_minode_def)
qed

theorem pwd_prints_way_witness:
  "(\<exists>s'. Pwd (\<lambda>ls path n. n) 3 1 small_in_a = Some s' \<and> table_ok s' \<and> printed_lines s' = [''/a'' @ [newline]]) \<and>
   (\<exists>s'. Pwd (\<lambda>ls path n. ''%'') 3 1 small_in_a = Some s' \<and> table_ok s' \<and> printed_lines s' = [''/%'' @ [newline]])"
proof -
  have f: "DEV small_in_a = 3" "device small_in_a = ext2_disk" "inode_start small_in_a = 3" "printed_lines small_in_a = []"
    "ino (minode small_in_a ! 1) = 3" by (simp_all add: small_in_a_def small_root_fields)
  have "way_up ext2_disk 3 3 [''a'']" by simp
  with pwd_prints_way [OF small_in_a_ok(1,2), of "[''a'']" "\<lambda>ls path n. n", THEN conjunct1]
    pwd_prints_way [OF small_in_a_ok(1,2), of "[''a'']" "\<lambda>ls path n. ''%''", THEN conjunct1] small_in_a_ok(3) f
  show ?thesis by simp
qed

end
