(* ===== verification/ShowBlock.thy ===== *)
theory ShowBlock
  imports MountInv
begin

text \<open>
  \<^verbatim>\<open>Lab6\<close>: \<^verbatim>\<open>showblock\<close>, which follows a path on an ext2 disk and prints the blocks of the file. \<^verbatim>\<open>GetSuperBlock\<close>,
  \<^verbatim>\<open>GetGroupDesc\<close> and \<^verbatim>\<open>GetRootINode\<close> return pointers into their own buffers; what \<^verbatim>\<open>main\<close> reads through them
  at once is what is on the disk, and what it reads after it has called other functions is a parameter.
  A call that never ends, reads NULL or reads outside an array is \<open>None\<close>.
\<close>

section \<open>The program (Functions.c)\<close>

definition PATHS :: nat where "PATHS = 10"
definition EXT2_NDIR_BLOCKS :: nat where "EXT2_NDIR_BLOCKS = 12"

text \<open>How a call ends: it returns, it ends the program, or it reads outside its array.\<close>

datatype ending = Returns | Exits int | Leaves_array

text \<open>The product of the block number and the block size is an \<^verbatim>\<open>int\<close>, which has to hold it.\<close>

definition GetBlock :: "u8 list \<Rightarrow> nat \<Rightarrow> u8 list option" where
  "GetBlock disk blk = (if blk * BLKSIZE < 2 ^ 31 then get_block disk blk else None)"

definition BLOCK_OFFSET :: "nat \<Rightarrow> int" where
  "BLOCK_OFFSET block = 1024 + (int block - 1) * int BLKSIZE"

text \<open>\<open>Inl\<close> is the exit code.\<close>

definition GetSuperBlock :: "u8 list \<Rightarrow> (int + u8 list) option" where
  "GetSuperBlock disk = do {
     buf \<leftarrow> GetBlock disk 1;
     Some (if load_u16 buf 56 \<noteq> 0xEF53 then Inl 2 else Inr buf)
   }"

record group_desc =
  bg_block_bitmap :: u32
  bg_inode_bitmap :: u32
  bg_inode_table :: u32

definition GetGroupDesc :: "u8 list \<Rightarrow> group_desc option" where
  "GetGroupDesc disk = do {
     buf \<leftarrow> GetBlock disk 2;
     Some \<lparr>bg_block_bitmap = load_u32 buf 0, bg_inode_bitmap = load_u32 buf 4, bg_inode_table = load_u32 buf 8\<rparr>
   }"

text \<open>The inode block of the root, with \<^verbatim>\<open>++root\<close> in \<^verbatim>\<open>main\<close>.\<close>

definition GetRootINode :: "u8 list \<Rightarrow> nat \<Rightarrow> INODE option" where
  "GetRootINode disk blk = map_option (\<lambda>buf. inode_in buf INODE_SIZE) (GetBlock disk blk)"

definition GetINode :: "u8 list \<Rightarrow> int \<Rightarrow> group_desc \<Rightarrow> INODE option" where
  "GetINode disk inode_no groupDesc =
     (let blk = BLOCK_OFFSET (unat (bg_inode_table groupDesc)) + (inode_no - 1)
      in if blk < 0 then None else map_option (\<lambda>buf. inode_in buf 0) (GetBlock disk (nat blk)))"

definition entry_line :: "DIRE \<Rightarrow> string" where
  "entry_line dp = ''| '' @ field 8 (dec (sint (inode dp))) @ '' | '' @ field 7 (dec (uint (rec_len dp))) @ '' | ''
     @ field 8 (dec (uint (name_len dp))) @ '' | '' @ entry_name dp @ [newline]"

text \<open>The root inode is read through a pointer into a dead buffer, between calls of \<^verbatim>\<open>printf\<close> and \<^verbatim>\<open>GetBlock\<close>: \<open>shown i\<close>
  is what is there in turn \<open>i\<close>.\<close>

function show_blocks :: "u8 list \<Rightarrow> (nat \<Rightarrow> INODE) \<Rightarrow> nat \<Rightarrow> string list option" where
  "show_blocks disk shown i =
     (let ip = shown i in
      if i < unat (i_blocks ip) then
        if i < length (i_block ip) then do {
          buf \<leftarrow> GetBlock disk (unat (i_block ip ! i));
          dps \<leftarrow> all_entries buf 0;
          rest \<leftarrow> show_blocks disk shown (i + 1);
          Some (List.map entry_line dps @ rest)
        }
        else None
      else Some [])"
  by pat_completeness auto
termination
proof (relation "measure (\<lambda>(disk, shown, i). 2 ^ 32 - i)")
  fix disk :: "u8 list" and shown :: "nat \<Rightarrow> INODE" and i :: nat and ip buf dps
  assume "ip = shown i" and "i < unat (i_blocks ip)"
  moreover have "unat (i_blocks ip) < 2 ^ 32" using unsigned_less [of "i_blocks ip"] by simp
  ultimately show "((disk, shown, i + 1), disk, shown, i) \<in> measure (\<lambda>(disk, shown, i). 2 ^ 32 - i)" by simp
qed simp

declare show_blocks.simps [simp del]

definition list_head :: "string list" where
  "list_head = [''| i_number | rec_len | name_len | name'' @ [newline],
     ''|-------------------------------------'' @ [newline]]"

definition ShowDir :: "u8 list \<Rightarrow> (nat \<Rightarrow> INODE) \<Rightarrow> string list option" where
  "ShowDir disk shown = map_option (\<lambda>ls. list_head @ ls) (show_blocks disk shown 0)"

text \<open>The block numbers of an indirect block, ten in a line.\<close>

fun ShowIndirect :: "INODE \<Rightarrow> nat \<Rightarrow> nat \<Rightarrow> string option" where
  "ShowIndirect ip 0 i = Some [newline]"
| "ShowIndirect ip (Suc n) i =
     (if i - 1 < length (i_block ip) then do {
        let item = ''| '' @ field 4 (dec (sint (i_block ip ! (i - 1)))) @ '' '';
        rest \<leftarrow> ShowIndirect ip n (i + 1);
        Some (item @ (if i mod 10 = 0 then [CHR ''|'', newline] else []) @ rest)
      }
      else None)"

text \<open>The size and the direct blocks. The pointer \<^verbatim>\<open>(INODE*)buf-10\<close> for the indirect block is ten inodes,
  1280 bytes, before the buffer, and the call leaves its array there.\<close>

definition ShowReg :: "INODE \<Rightarrow> string list \<times> ending" where
  "ShowReg ip =
     ((''Size: '' @ dec (sint (i_size ip)) @ [newline])
       # map (\<lambda>i. ''i_block['' @ dec (int i) @ '']: '' @ dec (sint (i_block ip ! i)) @ [newline]) [0..<EXT2_NDIR_BLOCKS]
       @ [''----------- INDIRECT BLOCKS ---------------'' @ [newline]], Leaves_array)"

definition SearchDir :: "u8 list \<Rightarrow> INODE \<Rightarrow> string \<Rightarrow> nat option" where
  "SearchDir disk ip name = do {
     hit \<leftarrow> find_blocks (GetBlock disk) (\<lambda>dp. entry_name dp = name) ip 0;
     Some (case hit of Some dp \<Rightarrow> unat (inode dp) | None \<Rightarrow> 0)
   }"

text \<open>The loop at token \<open>i\<close> of \<open>n\<close>; the lines of \<^verbatim>\<open>SearchDir\<close>'s listing are left out.\<close>

fun SearchTokens :: "u8 list \<Rightarrow> group_desc \<Rightarrow> string option list \<Rightarrow> nat \<Rightarrow> nat \<Rightarrow> INODE
    \<Rightarrow> (string list \<times> ending) option" where
  "SearchTokens disk gd tokens i 0 ip = Some ([], Returns)"
| "SearchTokens disk gd tokens i (Suc n) ip =
     (if i < length tokens then
        case tokens ! i of
          None \<Rightarrow> None
        | Some name \<Rightarrow> do {
            ino \<leftarrow> SearchDir disk ip name;
            if ino = 0 then
              Some ([''Error: Failure to Find '' @ [CHR 0x27] @ name @ [CHR 0x27] @ [newline]], Exits 1)
            else do {
              ibuf \<leftarrow> GetBlock disk ((ino - 1) div 8 + unat (bg_inode_table gd));
              let ip1 = inode_in ibuf (INODE_SIZE * ((ino - 1) mod 8));
              if S_ISREG (ucast (i_mode ip1)) then Some (ShowReg ip1)
              else SearchTokens disk gd tokens (i + 1) n ip1
            }
          }
      else None)"

text \<open>The array of the tokens, which holds ten, and the value returned, one more than there are.\<close>

definition TokenizePath :: "string \<Rightarrow> string option list \<times> nat" where
  "TokenizePath path =
     (let ts = strtok_all ''/'' path
      in (map Some (take PATHS ts) @ replicate (PATHS - length ts) None, length ts + 1))"

section \<open>The main program (Main.c)\<close>

text \<open>What \<^verbatim>\<open>main\<close> finds in the dead buffers: the number of the inode block, read after the bitmaps have been
  printed, and the root inode during the listing.\<close>

record dead_buffers =
  shown_table :: nat
  shown_root :: "nat \<Rightarrow> INODE"

definition showblock :: "dead_buffers \<Rightarrow> u8 list \<Rightarrow> string \<Rightarrow> (string list \<times> ending) option" where
  "showblock dead disk path = do {
     super \<leftarrow> GetSuperBlock disk;
     (case super of
        Inl c \<Rightarrow> Some ([], Exits c)
      | Inr sp \<Rightarrow> do {
          gd \<leftarrow> GetGroupDesc disk;
          ip \<leftarrow> GetRootINode disk (shown_table dead);
          listing \<leftarrow> ShowDir disk (shown_root dead);
          let (tokens, n) = TokenizePath path;
          (found, e) \<leftarrow> SearchTokens disk gd tokens 0 n ip;
          Some (listing @ found, e)
        })
   }"

text \<open>The program as it is called: \<^verbatim>\<open>argv[2]\<close> is read also when there are fewer arguments, where NULL follows
  \<^verbatim>\<open>argv\<close> and the environment follows NULL. \<^verbatim>\<open>strtok\<close> cannot begin with NULL.\<close>

definition argv_at :: "string list \<Rightarrow> string list \<Rightarrow> nat \<Rightarrow> string option" where
  "argv_at argv env i = (if i < length argv + 1 + length env then (map Some argv @ None # map Some env) ! i else None)"

definition open_image :: "(string \<Rightarrow> u8 list option) \<Rightarrow> string \<Rightarrow> (string list \<times> ending) + u8 list" where
  "open_image files name =
     (case files name of
        None \<Rightarrow> Inl ([''Open '' @ [CHR 0x27] @ name @ [CHR 0x27] @ '' Failed'' @ [newline]], Exits 1)
      | Some disk \<Rightarrow> Inr disk)"

definition showblock_main :: "dead_buffers \<Rightarrow> (string \<Rightarrow> u8 list option) \<Rightarrow> string list \<Rightarrow> string list \<Rightarrow> (string list \<times> ending) option" where
  "showblock_main dead files argv env =
     (case open_image files (if 1 < length argv then argv ! 1 else ''diskimage'') of
        Inl failed \<Rightarrow> Some failed
      | Inr disk \<Rightarrow>
          (case argv_at argv env 2 of
             Some path \<Rightarrow> showblock dead disk path
           | None \<Rightarrow> do {
               super \<leftarrow> GetSuperBlock disk;
               (case super of Inl c \<Rightarrow> Some ([], Exits c) | Inr sp \<Rightarrow> None)
             }))"

end
