(* ===== verification/ShowBlockProps.thy ===== *)
theory ShowBlockProps
  imports ShowBlock SmallDisk
begin

text \<open>
  What \<^verbatim>\<open>showblock\<close> does: its walk along a path is the one of \<^verbatim>\<open>Lab5\<close>, up to the first regular file, whose
  size and direct blocks it prints; and on a disk as the file system makes it the search for a name that is not
  there never ends.
\<close>

section \<open>Two readers of one disk\<close>

text \<open>The searches of \<^verbatim>\<open>Lab5\<close> and \<^verbatim>\<open>Lab6\<close> are one loop over two functions that read a block. A reader
  returns what is on the disk, if it returns.\<close>

locale block_reader =
  fixes get :: "nat \<Rightarrow> u8 list option" and disk :: "u8 list"
  assumes reads: "get blk = Some buf \<Longrightarrow> get_block disk blk = Some buf"
begin

lemma finds_same: "find_blocks get P ip i = Some r \<Longrightarrow> find_blocks (get_block disk) P ip i = Some r"
proof (induction "unat (i_blocks ip) - i" arbitrary: i)
  case 0
  then show ?case by (simp add: find_blocks.simps [of _ _ _ i])
next
  case (Suc n)
  then have i: "i < unat (i_blocks ip)" by simp
  with Suc.prems obtain buf hit where b: "i < length (i_block ip)" "get (unat (i_block ip ! i)) = Some buf"
    "find_entry P buf 0 = Some hit"
    "(case hit of Some dp \<Rightarrow> Some (Some dp) | None \<Rightarrow> find_blocks get P ip (Suc i)) = Some r"
    unfolding find_blocks.simps [of get P ip i] by (auto simp: bind_eq_Some_conv split: if_split_asm)
  have "find_blocks (get_block disk) P ip (Suc i) = Some r" if "hit = None"
    using Suc.hyps(1) [of "Suc i"] Suc.hyps(2) b(4) that by simp
  with i b reads [OF b(2)] show ?case
    by (subst find_blocks.simps) (auto split: option.splits)
qed

text \<open>A name that is found is the entry \<^verbatim>\<open>Lab5\<close> finds.\<close>

lemma lookup_same:
  assumes "find_blocks get (\<lambda>dp. entry_name dp = name) ip 0 = Some (Some dp)"
    and "read_inode disk start i = Some ip"
  shows "dir_lookup disk start i name = Some (unat (inode dp))"
  using finds_same [OF assms(1)] assms(2) by (simp add: dir_lookup_def)

end

interpretation lab5: block_reader "get_block disk" disk for disk
  by unfold_locales

interpretation lab6: block_reader "GetBlock disk" disk for disk
  by unfold_locales (simp add: GetBlock_def split: if_split_asm)

text \<open>\<^verbatim>\<open>GetBlock\<close> computes its offset in an \<^verbatim>\<open>int\<close>, which is enough for a disk of two gigabytes.\<close>

lemma GetBlock_small: "length disk \<le> 2 ^ 31 \<Longrightarrow> GetBlock disk = get_block disk"
  by (rule ext) (auto simp: GetBlock_def get_block_def BLKSIZE_def)

section \<open>The listing\<close>

text \<open>With a root inode that is still what was read, the listing does not get past the empty block.\<close>

lemma all_entries_stuck: "all_entries buf cp = Some r \<Longrightarrow> \<not> stuck_at (\<lambda>e. False) buf cp"
proof (induction rule: all_entries.raw_induct [rotated, consumes 1, case_names step])
  case (step go buf cp r)
  show ?case
  proof
    assume s: "stuck_at (\<lambda>e. False) buf cp"
    with step.hyps obtain rest where "go buf cp = Some rest" by (auto simp: stuck_at_def bind_eq_Some_conv)
    from step.IH [OF this] s show False by blast
  qed
qed

lemma all_entries_zeros: "all_entries (replicate BLKSIZE 0) 0 = None"
  using all_entries_stuck [of "replicate BLKSIZE 0" 0] dire_at_zeros
  by (cases "all_entries (replicate BLKSIZE 0) 0") (auto simp: stuck_at_def zero_entry_def BLKSIZE_def)

lemma show_blocks_zeros:
  assumes "dir_holds (GetBlock disk) ip ess"
  shows "i \<le> length ess \<Longrightarrow> show_blocks disk (\<lambda>_. ip) i = None"
proof (induction "length ess - i" arbitrary: i)
  case 0
  then have i: "i = length ess" by simp
  have "i < 2 * length ess" "i < N_BLOCKS" using assms i by (auto simp: dir_holds_def)
  with assms i all_entries_zeros show ?case by (subst show_blocks.simps) (simp add: dir_holds_def)
next
  case (Suc n)
  then have "show_blocks disk (\<lambda>_. ip) (Suc i) = None" by simp
  moreover have "i < unat (i_blocks ip)" using assms Suc.hyps(2) by (simp add: dir_holds_def)
  ultimately show ?case by (subst show_blocks.simps) (simp add: bind_eq_None_conv split: option.split)
qed

lemma intact_listing_stuck: "dir_holds (GetBlock disk) ip ess \<Longrightarrow> ShowDir disk (\<lambda>_. ip) = None"
  using show_blocks_zeros [of disk ip ess 0] by (simp add: ShowDir_def)

section \<open>The walk\<close>

text \<open>No regular file on the way to the last name.\<close>

fun through_dirs :: "u8 list \<Rightarrow> nat \<Rightarrow> nat \<Rightarrow> string list \<Rightarrow> bool" where
  "through_dirs disk start i [] \<longleftrightarrow> True"
| "through_dirs disk start i (n # ns) \<longleftrightarrow>
     (case dir_lookup disk start i n of
        None \<Rightarrow> True
      | Some j \<Rightarrow> ns = [] \<or> (case read_inode disk start j of
            None \<Rightarrow> True | Some ip \<Rightarrow> \<not> is_reg ip \<and> through_dirs disk start j ns))"

lemma search_dir_lookup:
  assumes "GetBlock disk = get_block disk" and "read_inode disk start i = Some ip"
    and "dir_lookup disk start i name = Some j"
  shows "SearchDir disk ip name = Some j"
  using assms by (auto simp: SearchDir_def dir_lookup_def bind_eq_Some_conv)

lemma read_inode_GetBlock:
  assumes "GetBlock disk = get_block disk" and "read_inode disk start j = Some ip"
  obtains buf where "GetBlock disk ((j - 1) div 8 + start) = Some buf" and "j \<noteq> 0"
    and "inode_in buf (INODE_SIZE * ((j - 1) mod 8)) = ip"
  using assms by (auto simp: read_inode_def bind_eq_Some_conv split: if_split_asm)

lemma SearchTokens_walk:
  assumes "GetBlock disk = get_block disk" and "start = unat (bg_inode_table gd)" and "length ns < n"
  shows "read_inode disk start i = Some ip \<Longrightarrow> ns \<noteq> [] \<Longrightarrow> path_ino disk start i ns = Some j \<Longrightarrow> j \<noteq> 0 \<Longrightarrow>
    through_dirs disk start i ns \<Longrightarrow> read_inode disk start j = Some fp \<Longrightarrow> k = length pre \<Longrightarrow>
    SearchTokens disk gd (pre @ map Some ns @ replicate r None) k n ip = (if is_reg fp then Some (ShowReg fp) else None)"
  using assms(3)
proof (induction ns arbitrary: i ip pre k n)
  case Nil
  then show ?case by simp
next
  case (Cons name ns)
  from Cons.prems(8) obtain m where n: "n = Suc m" and m: "length ns < m" by (cases n) auto
  from Cons.prems(3,4) obtain i1 where i1: "dir_lookup disk start i name = Some i1" "i1 \<noteq> 0"
    "path_ino disk start i1 ns = Some j" by (auto split: option.splits if_splits)
  from Cons.prems(3,4) i1 obtain ip1 where ip1: "read_inode disk start i1 = Some ip1"
    by (auto split: option.splits if_splits)
  from read_inode_GetBlock [OF assms(1) ip1] obtain buf where
    buf: "GetBlock disk ((i1 - 1) div 8 + start) = Some buf" "inode_in buf (INODE_SIZE * ((i1 - 1) mod 8)) = ip1" .
  have se: "SearchDir disk ip name = Some i1" by (rule search_dir_lookup [OF assms(1) Cons.prems(1) i1(1)])
  have tok: "(pre @ map Some (name # ns) @ replicate r None) ! k = Some name" using Cons.prems(7) by simp
  have step: "SearchTokens disk gd (pre @ map Some (name # ns) @ replicate r None) k n ip
      = (if is_reg ip1 then Some (ShowReg ip1)
         else SearchTokens disk gd ((pre @ [Some name]) @ map Some ns @ replicate r None) (k + 1) m ip1)"
    using tok se i1(2) buf assms(2) Cons.prems(7) by (simp add: n is_reg_def Let_def)
  show ?case
  proof (cases ns)
    case Nil
    with i1(3) ip1 Cons.prems(6) have "fp = ip1" by simp
    moreover have "SearchTokens disk gd ((pre @ [Some name]) @ map Some ns @ replicate r None) (k + 1) m ip1 = None"
      using m Cons.prems(7) Nil by (cases m; cases r) (simp_all add: nth_append)
    ultimately show ?thesis using step by simp
  next
    case (Cons n2 ns2)
    with Cons.prems(5) i1(1) ip1 have d: "\<not> is_reg ip1" "through_dirs disk start i1 ns" by simp_all
    have "SearchTokens disk gd ((pre @ [Some name]) @ map Some ns @ replicate r None) (k + 1) m ip1
        = (if is_reg fp then Some (ShowReg fp) else None)"
      using Cons.IH [OF ip1 _ i1(3) Cons.prems(4) d(2) Cons.prems(6) _ m, of "k + 1" "pre @ [Some name]"]
        Cons.prems(7) Cons by simp
    with step d(1) show ?thesis by simp
  qed
qed

text \<open>C34. On a disk of at most two gigabytes \<^verbatim>\<open>SearchTokens\<close> follows a path through directories to the
  inode that the lookup of \<^verbatim>\<open>Lab5\<close> finds: it prints the blocks of a regular file, and for a directory it
  goes on to a token that is not there. The path has at most ten names.\<close>

theorem showblock_follows_path:
  assumes "length disk \<le> 2 ^ 31" and "strtok_all ''/'' path = names" and "names \<noteq> []" and "length names \<le> PATHS"
    and "start = unat (bg_inode_table gd)" and "read_inode disk start i = Some ip"
    and "path_ino disk start i names = Some j" and "j \<noteq> 0" and "through_dirs disk start i names"
    and "read_inode disk start j = Some fp"
  shows "SearchTokens disk gd (fst (TokenizePath path)) 0 (snd (TokenizePath path)) ip
    = (if is_reg fp then Some (ShowReg fp) else None)"
proof -
  have "TokenizePath path = ([] @ map Some names @ replicate (PATHS - length names) None, length names + 1)"
    using assms(2,4) by (simp add: TokenizePath_def)
  with SearchTokens_walk [OF GetBlock_small [OF assms(1)] assms(5) lessI assms(6,3,7-10), of 0 "[]" "PATHS - length names"]
  show ?thesis by simp
qed

text \<open>C35. In a directory as the file system makes it, on a disk with an empty block 0, \<^verbatim>\<open>SearchDir\<close> returns the
  inode number of the first entry with the name. For a name that is not there it does not return 0, as its
  comment says, but never returns: the loop over the blocks runs to twice their number, and stays in the empty block
  0, whose entries have length zero; all its reads are inside of the arrays.\<close>

theorem search_never_returns:
  assumes "dir_holds (GetBlock disk) ip ess" and "name \<noteq> []"
  shows "case List.find (\<lambda>e. entry_name e = name) (concat ess) of
      Some e \<Rightarrow> SearchDir disk ip name = Some (unat (inode e))
    | None \<Rightarrow> SearchDir disk ip name = None \<and>
        runs_forever (goes_on (GetBlock disk) (\<lambda>e. entry_name e = name) ip) (At_Block 0)"
proof -
  have z: "\<not> entry_name zero_entry = name" using assms(2) by (simp add: zero_entry_def)
  show ?thesis
  proof (cases "List.find (\<lambda>e. entry_name e = name) (concat ess)")
    case None
    from scan_forever [OF assms(1) this z] find_blocks_forever None show ?thesis by (simp add: SearchDir_def)
  next
    case (Some e)
    with find_blocks_dir [OF assms(1), of "\<lambda>e. entry_name e = name"] z show ?thesis by (simp add: SearchDir_def)
  qed
qed

text \<open>On every disk, what \<^verbatim>\<open>SearchTokens\<close> prints blocks of is a regular file that the lookup of \<^verbatim>\<open>Lab5\<close>
  reaches with the first names of the path.\<close>

theorem showblock_prints_files:
  assumes "SearchTokens disk gd tokens k n ip = Some (out, e)" and "start = unat (bg_inode_table gd)"
    and "read_inode disk start i = Some ip" and "e = Leaves_array"
  shows "\<exists>ns j fp. map Some ns = take (length ns) (drop k tokens) \<and> ns \<noteq> [] \<and> path_ino disk start i ns = Some j
    \<and> read_inode disk start j = Some fp \<and> is_reg fp \<and> (out, e) = ShowReg fp"
  using assms
proof (induction n arbitrary: k i ip)
  case 0
  then show ?case by simp
next
  case (Suc n)
  from Suc.prems(1,4) obtain name i1 buf where k: "k < length tokens" "tokens ! k = Some name"
    and i1: "SearchDir disk ip name = Some i1" "i1 \<noteq> 0"
    and buf: "GetBlock disk ((i1 - 1) div 8 + start) = Some buf"
    and rest: "(if is_reg (inode_in buf (INODE_SIZE * ((i1 - 1) mod 8)))
      then Some (ShowReg (inode_in buf (INODE_SIZE * ((i1 - 1) mod 8))))
      else SearchTokens disk gd tokens (k + 1) n (inode_in buf (INODE_SIZE * ((i1 - 1) mod 8)))) = Some (out, e)"
    by (auto simp: bind_eq_Some_conv Let_def is_reg_def Suc.prems(2) split: if_split_asm option.split_asm)
  define ip1 where "ip1 = inode_in buf (INODE_SIZE * ((i1 - 1) mod 8))"
  have ip1: "read_inode disk start i1 = Some ip1"
    using i1(2) lab6.reads [OF buf] by (simp add: read_inode_def ip1_def)
  from i1 obtain dp where "find_blocks (GetBlock disk) (\<lambda>dp. entry_name dp = name) ip 0 = Some (Some dp)"
    "i1 = unat (inode dp)" by (auto simp: SearchDir_def bind_eq_Some_conv split: option.split_asm)
  with lab6.lookup_same Suc.prems(3) have look: "dir_lookup disk start i name = Some i1" by blast
  have take1: "map Some (name # ns) = take (length (name # ns)) (drop k tokens)"
    if "map Some ns = take (length ns) (drop (k + 1) tokens)" for ns
    using that k by (simp add: Cons_nth_drop_Suc [symmetric])
  show ?case
  proof (cases "is_reg ip1")
    case True
    with rest have "(out, e) = ShowReg ip1" by (simp add: ip1_def)
    moreover have "path_ino disk start i [name] = Some i1" using look i1(2) ip1 by simp
    ultimately show ?thesis using True ip1 take1 [of "[]"] by (intro exI [of _ "[name]"] exI [of _ i1] exI [of _ ip1]) simp
  next
    case False
    with rest have "SearchTokens disk gd tokens (k + 1) n ip1 = Some (out, e)" by (simp add: ip1_def)
    from Suc.IH [OF this Suc.prems(2) ip1 Suc.prems(4)] obtain ns j fp where
      ns: "map Some ns = take (length ns) (drop (k + 1) tokens)" "path_ino disk start i1 ns = Some j"
      "read_inode disk start j = Some fp" "is_reg fp" "(out, e) = ShowReg fp" by blast
    have "path_ino disk start i (name # ns) = Some j" using look i1(2) ip1 ns(2) by simp
    with ns take1 [OF ns(1)] show ?thesis by blast
  qed
qed

text \<open>On the small disk: the file, and the directory.\<close>

definition small_gd :: group_desc where
  "small_gd = \<lparr>bg_block_bitmap = 0, bg_inode_bitmap = 0, bg_inode_table = 3\<rparr>"

lemma length_small_disk: "length ext2_disk = 6144"
  by (simp add: ext2_disk_def disk_blocks_def)

lemma small_names [simp]: "strtok_all ''/'' ''/f'' = [''f'']" "strtok_all ''/'' ''a'' = [''a'']"
  by (simp_all add: strtok_all_def)

lemma small_modes [simp]: "\<not> is_reg (dir_node blk)" "is_reg (file_node blk)"
  by (simp_all add: is_reg_def node_def S_ISREG_def)

theorem showblock_follows_path_witness:
  "SearchTokens ext2_disk small_gd (fst (TokenizePath ''/f'')) 0 (snd (TokenizePath ''/f'')) (dir_node 4)
     = Some (ShowReg (file_node 6))
   \<and> SearchTokens ext2_disk small_gd (fst (TokenizePath ''a'')) 0 (snd (TokenizePath ''a'')) (dir_node 4) = None"
  using showblock_follows_path [of ext2_disk "''/f''" "[''f'']" 3 small_gd 2 "dir_node 4" 4 "file_node 6"]
    showblock_follows_path [of ext2_disk "''a''" "[''a'']" 3 small_gd 2 "dir_node 4" 3 "dir_node 5"]
  by (simp add: length_small_disk PATHS_def small_gd_def)

theorem showblock_prints_files_witness:
  "\<exists>ns j fp. path_ino ext2_disk 3 2 ns = Some j \<and> read_inode ext2_disk 3 j = Some fp \<and> is_reg fp
    \<and> ShowReg (file_node 6) = ShowReg fp"
proof -
  have "GetBlock ext2_disk = get_block ext2_disk" using GetBlock_small length_small_disk by simp
  then have s: "SearchDir ext2_disk (dir_node 4) ''f'' = Some 4"
    by (rule search_dir_lookup [where start = 3 and i = 2]) simp_all
  obtain buf where b: "GetBlock ext2_disk 3 = Some buf" "inode_in buf (INODE_SIZE * 3) = file_node 6"
    using read_inode_GetBlock [OF \<open>GetBlock ext2_disk = get_block ext2_disk\<close>, of 3 4 "file_node 6"] by auto
  have "is_reg (file_node 6)" by simp
  with s b have "SearchTokens ext2_disk small_gd [Some ''f''] 0 1 (dir_node 4) = Some (ShowReg (file_node 6))"
    by (simp add: small_gd_def Let_def is_reg_def)
  then have "SearchTokens ext2_disk small_gd [Some ''f''] 0 1 (dir_node 4) = Some (fst (ShowReg (file_node 6)), Leaves_array)"
    by (simp add: ShowReg_def)
  from showblock_prints_files [OF this, of 3 2] show ?thesis by (auto simp: small_gd_def ShowReg_def)
qed

theorem search_never_returns_witness:
  "SearchDir ext2_disk (dir_node 4) ''a'' = Some 3 \<and> SearchDir ext2_disk (dir_node 4) ''b'' = None \<and>
   runs_forever (goes_on (GetBlock ext2_disk) (\<lambda>e. entry_name e = ''b'') (dir_node 4)) (At_Block 0)"
proof -
  have g: "GetBlock ext2_disk = get_block ext2_disk" using GetBlock_small length_small_disk by simp
  have d: "dir_holds (GetBlock ext2_disk) (dir_node 4) [small_dirs 4]" using small_disk_dirs [of 4] by (simp add: g)
  from search_never_returns [OF d, of "''a''"] search_never_returns [OF d, of "''b''"] show ?thesis
    by (simp add: small_dirs_def dire_def)
qed

section \<open>Calls with fewer arguments\<close>

text \<open>With a device and no path the program reads NULL; without arguments it takes the first string of the
  environment for the path.\<close>

theorem showblock_arguments:
  assumes "files name = Some disk" and "GetSuperBlock disk = Some (Inr sp)"
  shows "showblock_main dead files [prog, name] env = None"
    and "files ''diskimage'' = Some disk \<Longrightarrow> showblock_main dead files [prog] (e # env) = showblock dead disk e"
  using assms by (simp_all add: showblock_main_def open_image_def argv_at_def)

end
