(* ===== verification/FileCommands.thy ===== *)
theory FileCommands
  imports Text Modes
begin

text \<open>
  The commands that the file server of \<^verbatim>\<open>Lab4\<close> and its client share (\<^verbatim>\<open>linux_cmd.c\<close>, \<^verbatim>\<open>ls_l.c\<close>). The system
  calls are functions of a record \<open>host\<close> over a world of any type. The programs are built with \<^verbatim>\<open>-m32\<close>,
  so a pointer survives being returned as an \<^verbatim>\<open>int\<close>; what it shows of the buffer of \<^verbatim>\<open>_pwd\<close>, which is dead by
  then, is \<open>dead_cwd\<close> of the string that was there. A write outside an array, a read through a bad pointer or of memory never filled is \<open>None\<close>; the
  traces printed are left out, but not what \<^verbatim>\<open>cat\<close> and a local \<^verbatim>\<open>ls\<close> show.
\<close>

definition MAX_LINE :: nat where "MAX_LINE = 256"
definition EOF_STR :: string where "EOF_STR = ''***** EOF *****''"

record stat =
  st_mode :: u32
  st_nlink :: int
  st_gid :: int
  st_uid :: int
  st_size :: int
  st_ctime :: u32

record 'w host =
  os_mkdir :: "string \<Rightarrow> 'w \<Rightarrow> int \<times> 'w"
  os_rmdir :: "string \<Rightarrow> 'w \<Rightarrow> int \<times> 'w"
  os_unlink :: "string \<Rightarrow> 'w \<Rightarrow> int \<times> 'w"
  os_chdir :: "string \<Rightarrow> 'w \<Rightarrow> int \<times> 'w"
  os_getcwd :: "'w \<Rightarrow> string option"
  os_lstat :: "string \<Rightarrow> 'w \<Rightarrow> stat option"
  os_readdir :: "string \<Rightarrow> 'w \<Rightarrow> string list option"
  os_readlink :: "string \<Rightarrow> 'w \<Rightarrow> string"
  os_content :: "string \<Rightarrow> 'w \<Rightarrow> string option"
  os_ctime :: "u32 \<Rightarrow> string"
  behind_link :: string
  dead_cwd :: "string \<Rightarrow> string"
  no_return :: int

text \<open>What a command returns: a number, or the address of a string.\<close>

datatype answer = Num int | Address string

text \<open>\<open>Inl\<close> is a call of \<^verbatim>\<open>exit\<close>; otherwise the answer, what was shown on the terminal, and the world.\<close>

type_synonym 'w outcome = "(int + answer \<times> string \<times> 'w) option"

section \<open>Directories and files\<close>

definition mkdir_cmd :: "'w host \<Rightarrow> string \<Rightarrow> 'w \<Rightarrow> 'w outcome" where
  "mkdir_cmd h pathname w = (let (r, w') = os_mkdir h pathname w in Some (Inr (Num r, [], w')))"

definition rmdir_cmd :: "'w host \<Rightarrow> string \<Rightarrow> 'w \<Rightarrow> 'w outcome" where
  "rmdir_cmd h pathname w = (let (r, w') = os_rmdir h pathname w in Some (Inr (Num r, [], w')))"

definition rm_cmd :: "'w host \<Rightarrow> string \<Rightarrow> 'w \<Rightarrow> 'w outcome" where
  "rm_cmd h pathname w = (let (r, w') = os_unlink h pathname w in Some (Inr (Num r, [], w')))"

definition cd_cmd :: "'w host \<Rightarrow> string \<Rightarrow> 'w \<Rightarrow> 'w outcome" where
  "cd_cmd h pathname w = (let (r, w') = os_chdir h pathname w in Some (Inr (Num r, [], w')))"

definition pwd_cmd :: "'w host \<Rightarrow> string \<Rightarrow> 'w \<Rightarrow> 'w outcome" where
  "pwd_cmd h pathname w = Some (Inr
     (case os_getcwd h w of Some cwd \<Rightarrow> if length cwd < MAX_LINE then Address (dead_cwd h cwd) else Num (- 1) | None \<Rightarrow> Num (- 1), [], w))"

definition cat_cmd :: "'w host \<Rightarrow> string \<Rightarrow> 'w \<Rightarrow> 'w outcome" where
  "cat_cmd h pathname w = Some (Inr
     (case os_content h pathname w of Some bytes \<Rightarrow> (Num 0, bytes, w) | None \<Rightarrow> (Num (- 1), [], w)))"

section \<open>Listings\<close>

text \<open>The last name of a path.\<close>

definition base_name :: "string \<Rightarrow> string" where
  "base_name path =
     (let p = rev (dropWhile (\<lambda>c. c = CHR ''/'') (rev path))
      in if path = [] then ''.'' else if p = [] then ''/''
         else rev (takeWhile (\<lambda>c. c \<noteq> CHR ''/'') (rev p)))"

text \<open>\<^verbatim>\<open>readlink\<close> writes no zero behind the name: the link goes on with what the memory holds there.\<close>

definition ls_file :: "'w host \<Rightarrow> string \<Rightarrow> 'w \<Rightarrow> answer option" where
  "ls_file h fname w =
     (case os_lstat h fname w of
        None \<Rightarrow> Some (Num 0)
      | Some st \<Rightarrow>
          let text = mode_to_letters (st_mode st) @ field 3 (dec (st_nlink st)) @ '' '' @ field 3 (dec (st_gid st)) @ '' ''
                @ field 3 (dec (st_uid st)) @ '' '' @ field 8 (dec (st_size st)) @ '' '' @ os_ctime h (st_ctime st) @ '' ''
                @ base_name fname @ (if S_ISDIR (st_mode st) then ''/'' else [])
                @ (if S_ISLNK (st_mode st) then '' -> '' @ take 50 (os_readlink h fname w) @ behind_link h else [])
                @ [newline]
          in if length text < 1000 then Some (Address text) else None)"

text \<open>The loop of \<^verbatim>\<open>ls_dir\<close> over an array of 5000; the names are looked up where the program is, not in
  the directory listed.\<close>

fun ls_names :: "'w host \<Rightarrow> string list \<Rightarrow> string \<Rightarrow> 'w \<Rightarrow> string option" where
  "ls_names h [] files_ls w = Some files_ls"
| "ls_names h (d_name # names) files_ls w =
     (case ls_file h d_name w of
        None \<Rightarrow> None
      | Some (Num i) \<Rightarrow> ls_names h names files_ls w
      | Some (Address text) \<Rightarrow>
          if length (files_ls @ text) < 5000 then ls_names h names (files_ls @ text) w else None)"

definition ls_directory :: "'w host \<Rightarrow> string \<Rightarrow> 'w \<Rightarrow> answer option" where
  "ls_directory h dname w =
     (if dname = [] then Some (Num 0)
      else case os_readdir h dname w of
             None \<Rightarrow> Some (Num 1)
           | Some names \<Rightarrow> map_option Address (ls_names h names [] w))"

text \<open>A relative path is joined to the current directory, in an array of 256 that nothing reads.\<close>

definition ls_cmd :: "'w host \<Rightarrow> bool \<Rightarrow> string \<Rightarrow> 'w \<Rightarrow> 'w outcome" where
  "ls_cmd h isServer pathname w =
     (let path = (if pathname = [] then ''./'' else pathname)
      in case os_lstat h path w of
           None \<Rightarrow> Some (Inl 1)
         | Some st \<Rightarrow>
             if take 1 path \<noteq> ''/'' \<and> (case os_getcwd h w of None \<Rightarrow> True | Some cwd \<Rightarrow> 256 \<le> length (cwd @ ''/'' @ path))
             then None
             else do {
               r \<leftarrow> (if S_ISDIR (st_mode st) then ls_directory h path w else ls_file h path w);
               if isServer then Some (Inr (r, [], w))
               else case r of Num i \<Rightarrow> None | Address text \<Rightarrow> Some (Inr (Num 0, text @ [newline], w))
             })"

section \<open>The table of the commands\<close>

definition cmd_table :: "string list" where
  "cmd_table = [''ls'', ''cd'', ''pwd'', ''mkdir'', ''rmdir'', ''rm'', ''cat'']"

definition fcmds :: "'w host \<Rightarrow> bool \<Rightarrow> nat \<Rightarrow> string \<Rightarrow> 'w \<Rightarrow> 'w outcome" where
  "fcmds h isServer i =
     [ls_cmd h isServer, cd_cmd h, pwd_cmd h, mkdir_cmd h, rmdir_cmd h, rm_cmd h, cat_cmd h] ! i"

text \<open>The loop over the table.\<close>

fun index_of :: "string \<Rightarrow> string list \<Rightarrow> nat option" where
  "index_of c [] = None"
| "index_of c (d # ds) = (if d = c then Some 0 else map_option Suc (index_of c ds))"

text \<open>The command goes into an array of 10; the path starts behind the first space.\<close>

definition getLineInfo :: "string \<Rightarrow> (nat option \<times> string \<times> string) option" where
  "getLineInfo line =
     (if MAX_LINE \<le> length line then None
      else if CHR '' '' \<in> set line then
        (case strtok_all '' '' line of
           [] \<Rightarrow> None
         | command # words \<Rightarrow>
             if length command < 10
             then Some (index_of command cmd_table, command, tl (dropWhile (\<lambda>c. c \<noteq> CHR '' '') line)) else None)
      else if length line < 10 then Some (index_of line cmd_table, line, []) else None)"

end
