(* ===== verification/FileServer.thy ===== *)
theory FileServer
  imports FileCommands
begin

text \<open>
  The server and the client of \<^verbatim>\<open>Lab4\<close> once they are connected: a request as the server answers it, and what
  the client does with a line. A connection is the bytes on their way; a read takes what has arrived, up to
  the size of its buffer.
\<close>

section \<open>The server (server.c)\<close>

text \<open>The file in pieces of a buffer.\<close>

function send_chunks :: "string \<Rightarrow> string list" where
  "send_chunks bytes = (if bytes = [] then [] else take MAX_LINE bytes # send_chunks (drop MAX_LINE bytes))"
  by pat_completeness auto
termination
  by (relation "measure length") (auto simp: MAX_LINE_def)

declare send_chunks.simps [simp del]

definition end_mark :: string where
  "end_mark = EOF_STR @ [CHR 0x00]"

definition transfer :: "'w host \<Rightarrow> string \<Rightarrow> 'w \<Rightarrow> string option" where
  "transfer h pathname w =
     (case os_lstat h pathname w of
        None \<Rightarrow> None
      | Some st \<Rightarrow> if S_ISREG (st_mode st)
                 then map_option (\<lambda>bytes. concat (send_chunks bytes) @ end_mark) (os_content h pathname w) else None)"

text \<open>\<^verbatim>\<open>_get\<close> ends without a value when the file was sent; \<^verbatim>\<open>_put\<close> does the same and returns 0.\<close>

definition server_get :: "'w host \<Rightarrow> string \<Rightarrow> 'w \<Rightarrow> int \<times> string" where
  "server_get h pathname w =
     (case transfer h pathname w of None \<Rightarrow> (- 1, []) | Some bytes \<Rightarrow> (no_return h, bytes))"

definition server_put :: "'w host \<Rightarrow> string \<Rightarrow> 'w \<Rightarrow> int \<times> string" where
  "server_put h pathname w =
     (case transfer h pathname w of None \<Rightarrow> (- 1, []) | Some bytes \<Rightarrow> (0, bytes))"

text \<open>\<^verbatim>\<open>strcat\<close> and \<^verbatim>\<open>strcpy\<close> to the line, an array of 256.\<close>

definition line_fits :: "string \<Rightarrow> string option" where
  "line_fits s = (if length s < MAX_LINE then Some s else None)"

text \<open>The value returned, the line as it is left, the bytes sent before the reply, what was shown, and the
  world.\<close>

definition runCommand_server :: "'w host \<Rightarrow> string \<Rightarrow> 'w \<Rightarrow> (int + int \<times> string \<times> string \<times> string \<times> 'w) option" where
  "runCommand_server h line w = do {
     (cmdIndex, command, pathname) \<leftarrow> getLineInfo line;
     res \<leftarrow> (case cmdIndex of
       None \<Rightarrow>
         if command = ''get'' then
           (case server_get h pathname w of (r, sent) \<Rightarrow> Some (Inr (r, line, sent, [], w)))
         else if command = ''put'' then
           (case server_put h pathname w of (r, sent) \<Rightarrow> Some (Inr (r, line, sent, [], w)))
         else map_option (\<lambda>l. Inr (- 1, l, [], [], w)) (line_fits (line @ '' -> Invalid Input''))
     | Some i \<Rightarrow> do {
         out \<leftarrow> fcmds h True i pathname w;
         (case out of
            Inl c \<Rightarrow> Some (Inl c)
          | Inr (value, shown, w') \<Rightarrow>
              (case value of
                 Num v \<Rightarrow> if v = 0 \<or> v = - 1 then Some (Inr (v, line, [], shown, w')) else None
               | Address str \<Rightarrow> map_option (\<lambda>l. Inr (1, l, [], shown, w')) (line_fits str)))
       });
     (case res of
        Inl c \<Rightarrow> Some (Inl c)
      | Inr (r, l, sent, shown, w') \<Rightarrow>
          map_option (\<lambda>l'. Inr (r, l', sent, shown, w'))
            (if r = 0 then line_fits (l @ '' -> SUCCESS'') else if r = - 1 then line_fits (l @ '' -> FAILURE'') else Some l))
   }"

text \<open>An \<^verbatim>\<open>int\<close> as its four bytes.\<close>

definition int_bytes :: "nat \<Rightarrow> string" where
  "int_bytes n = map (\<lambda>i. char_of (n div 256 ^ i mod 256)) [0..<4]"

definition int_of_bytes :: "string \<Rightarrow> nat" where
  "int_of_bytes s = (\<Sum>i<4. of_char (s ! i) * 256 ^ i)"

text \<open>One turn of the processing loop for the bytes read: the bytes sent, what was shown, and the world.\<close>

definition server_turn :: "'w host \<Rightarrow> string \<Rightarrow> 'w \<Rightarrow> (int + string \<times> string \<times> 'w) option" where
  "server_turn h bytes w =
     (if MAX_LINE \<le> length bytes \<and> CHR 0x00 \<notin> set (take MAX_LINE bytes) then None
      else do {
        out \<leftarrow> runCommand_server h (takeWhile (\<lambda>c. c \<noteq> CHR 0x00) bytes) w;
        (case out of
           Inl c \<Rightarrow> Some (Inl c)
         | Inr (r, line, sent, shown, w') \<Rightarrow>
             Some (Inr (sent @ int_bytes (length line + 1) @ line @ [CHR 0x00], shown, w')))
      })"

text \<open>The processing loop for the requests as they are read; an empty read ends the connection. A read that
  fails, \<open>None\<close>, is not told from a request: the line is empty then.\<close>

fun serve :: "'w host \<Rightarrow> string option list \<Rightarrow> 'w \<Rightarrow> (int + string list \<times> 'w) option" where
  "serve h [] w = Some (Inr ([], w))"
| "serve h (bytes # reads) w =
     (if bytes = Some [] then Some (Inr ([], w))
      else case server_turn h (case bytes of None \<Rightarrow> [] | Some got \<Rightarrow> got) w of
             None \<Rightarrow> None
           | Some (Inl c) \<Rightarrow> Some (Inl c)
           | Some (Inr (sent, shown, w')) \<Rightarrow>
               map_option (map_sum id (\<lambda>(sents, w''). (sent # sents, w''))) (serve h reads w'))"

section \<open>The client (client.c)\<close>

definition is_local :: "string \<Rightarrow> bool" where
  "is_local line \<longleftrightarrow> take 1 line = ''l'' \<and> take 1 (drop 1 line) \<noteq> ''s''"

text \<open>A local command: what is shown and the world; \<open>Inl\<close> when it ends the client.\<close>

definition local_command :: "'w host \<Rightarrow> string \<Rightarrow> 'w \<Rightarrow> (int + string \<times> 'w) option" where
  "local_command h line w = do {
     (cmdIndex, command, pathname) \<leftarrow> getLineInfo (tl line);
     (case cmdIndex of
        None \<Rightarrow> Some (Inr (''INVALID: '' @ [CHR 0x27] @ line @ [CHR 0x27] @ [newline], w))
      | Some i \<Rightarrow> map_option (map_sum id (\<lambda>(value, shown, w'). (shown, w'))) (fcmds h False i pathname w))
   }"

definition request_bytes :: "string \<Rightarrow> string" where
  "request_bytes line = line @ replicate (MAX_LINE - length line) CHR 0x00"

text \<open>What the client does with a line: it ends, shows what a local command shows, or sends the line.\<close>

datatype 'w client_step = Ends int | Shows string 'w | Requests string

definition client_line :: "'w host \<Rightarrow> string \<Rightarrow> 'w \<Rightarrow> 'w client_step option" where
  "client_line h line w =
     (if line = [] then Some (Ends 0)
      else if is_local line then
        map_option (\<lambda>r. case r of Inl c \<Rightarrow> Ends c | Inr (shown, w') \<Rightarrow> Shows shown w') (local_command h line w)
      else Some (Requests (request_bytes line)))"

text \<open>The loop that receives a file. The sizes are those of the reads; when there are no more the client
  waits. The buffer has been cleared but for the first read; its content is the first argument. The bytes
  counted and those left are the result.\<close>

fun receive_loop :: "string \<Rightarrow> nat list \<Rightarrow> string \<Rightarrow> nat \<Rightarrow> (nat \<times> string) option" where
  "receive_loop buff [] stream sum_n = None"
| "receive_loop buff (n # ns) stream sum_n =
     (let m = min n (min MAX_LINE (length stream)); got = take m stream @ drop m buff
      in if m = 0 then None
         else if take (length end_mark) got = end_mark then Some (sum_n + m, drop m stream)
         else receive_loop (replicate MAX_LINE CHR 0x00) ns (drop m stream) (sum_n + m))"

definition is_transfer :: "string \<Rightarrow> bool" where
  "is_transfer line \<longleftrightarrow> strstr line ''get'' \<noteq> None \<or> strstr line ''put'' \<noteq> None"

text \<open>The two reads of a reply, its size and its string. Each stops a number of bytes before the end of what it
  could take, which is what it asks for or what is there; with nothing to take it waits. A size cut off has
  zeros in the place of its last bytes. A string without a zero goes on in memory never written.\<close>

definition receive_reply :: "nat \<times> nat \<Rightarrow> string \<Rightarrow> (string \<times> string) option" where
  "receive_reply short stream =
     (let m = min 4 (length stream) - fst short;
          size = int_of_bytes (take m stream @ replicate (4 - m) CHR 0x00);
          rest = drop m stream;
          k = min (size + 1) (length rest) - snd short;
          str = take k rest
      in if m = 0 \<or> k = 0 \<or> 2 ^ 31 \<le> size + 1 then None
         else if CHR 0x00 \<in> set str then Some (takeWhile (\<lambda>c. c \<noteq> CHR 0x00) str, drop k rest) else None)"

text \<open>What the client shows of the answer to a line, and the bytes it leaves in the connection.\<close>

definition client_receive :: "string \<Rightarrow> string \<Rightarrow> nat list \<Rightarrow> nat \<times> nat \<Rightarrow> string \<Rightarrow> (string \<times> string) option" where
  "client_receive line buff reads short stream =
     (if is_transfer line then
        map_option (\<lambda>(sum_n, rest). ((if strstr line ''get'' \<noteq> None then ''Recieved '' else ''Sent '')
          @ dec (int sum_n) @ '' bytes'' @ [newline], rest)) (receive_loop buff reads stream 0)
      else receive_reply short stream)"

end
