(* ===== verification/FileNetwork.thy ===== *)
theory FileNetwork
  imports FileServer
begin

text \<open>
  The two programs of \<^verbatim>\<open>Lab4\<close> from their start: the sockets (\<^verbatim>\<open>server_init\<close>, \<^verbatim>\<open>client_init\<close>), the main loops, and
  the system of a client and a server with the bytes on their way between them. The calls of the network are
  a record \<open>net\<close> of functions over a state of any type; a port is 16 bits, in the order of the network as in
  \<^verbatim>\<open>sin_port\<close>. \<open>Inl\<close> is a call of \<^verbatim>\<open>exit\<close>. Of the traces only those are kept that tell where the server is.
\<close>

type_synonym port = "16 word"

record 'n net =
  net_host :: "string \<Rightarrow> 'n \<Rightarrow> (string \<times> u32) option"
  net_socket :: "'n \<Rightarrow> int \<times> 'n"
  net_bind :: "int \<Rightarrow> port \<Rightarrow> 'n \<Rightarrow> int \<times> 'n"
  net_name :: "int \<Rightarrow> 'n \<Rightarrow> port option"
  net_listen :: "int \<Rightarrow> nat \<Rightarrow> 'n \<Rightarrow> 'n"
  net_connect :: "int \<Rightarrow> u32 \<Rightarrow> port \<Rightarrow> 'n \<Rightarrow> int \<times> 'n"

section \<open>Numbers of the network\<close>

text \<open>\<^verbatim>\<open>htons\<close> and \<^verbatim>\<open>ntohs\<close> on a little endian machine swap the two bytes.\<close>

definition htons :: "port \<Rightarrow> port" where
  "htons x = push_bit 8 x OR drop_bit 8 x"

definition ntohs :: "port \<Rightarrow> port" where
  "ntohs x = push_bit 8 x OR drop_bit 8 x"

text \<open>\<^verbatim>\<open>inet_ntop\<close>: the four bytes of an address as they lie in memory.\<close>

definition inet_ntop :: "u32 \<Rightarrow> string" where
  "inet_ntop a = join ''.'' (map (\<lambda>i. dec (int (unat (drop_bit (8 * i) a AND 0xFF)))) [0, 1, 2, 3])"

text \<open>\<^verbatim>\<open>atoi\<close>; a number that is no \<^verbatim>\<open>int\<close> has no defined value.\<close>

definition atoi :: "string \<Rightarrow> int option" where
  "atoi s =
     (let t = dropWhile (\<lambda>c. c = CHR '' '' \<or> c \<in> set [CHR 0x09, newline, CHR 0x0B, CHR 0x0C, CHR 0x0D]) s;
          n = (if take 1 t = ''-'' then - int (digits_read 0 (tl t))
               else int (digits_read 0 (if take 1 t = ''+'' then tl t else t)))
      in if - (2 ^ 31) \<le> n \<and> n < 2 ^ 31 then Some n else None)"

section \<open>Starting the server (server.c)\<close>

definition host_line :: "string \<Rightarrow> u32 \<Rightarrow> string" where
  "host_line name a = ''  *** Hostname = '' @ name @ '' || IP = '' @ inet_ntop a @ '' ***'' @ [newline]"

definition port_line :: "int \<Rightarrow> string" where
  "port_line p = ''  *** Port = '' @ dec p @ '' ***'' @ [newline]"

text \<open>The socket and what was shown: the host and the port that the kernel has chosen.\<close>

definition server_init :: "'n net \<Rightarrow> string \<Rightarrow> 'n \<Rightarrow> int + int \<times> string \<times> 'n" where
  "server_init net name n =
     (case net_host net name n of
        None \<Rightarrow> Inl 1
      | Some (h_name, a) \<Rightarrow>
          let (mysock, n1) = net_socket net n
          in if mysock < 0 then Inl 2
             else let (r, n2) = net_bind net mysock 0 n1
                  in if r < 0 then Inl 3
                     else (case net_name net mysock n2 of
                             None \<Rightarrow> Inl 4
                           | Some sin_port \<Rightarrow>
                               let serverPort = int (unat (ntohs sin_port))
                               in Inr (mysock, host_line h_name a @ port_line serverPort, net_listen net mysock 5 n2)))"

text \<open>A client that \<^verbatim>\<open>accept\<close> yields: where it is, and the requests as they are read.\<close>

record connection =
  peer_ip :: u32
  peer_port :: port
  peer_reads :: "string option list"

definition peer_line :: "connection \<Rightarrow> string" where
  "peer_line c = [CHR 0x09] @ ''IP = '' @ inet_ntop (peer_ip c) @ '' || Port = '' @ dec (int (unat (ntohs (peer_port c)))) @ [newline]"

text \<open>The loop over the clients, \<open>None\<close> for an \<^verbatim>\<open>accept\<close> that fails. What was sent to each is the result.\<close>

fun server_loop :: "'w host \<Rightarrow> connection option list \<Rightarrow> 'w \<Rightarrow> (int + (string \<times> string list) list \<times> 'w) option" where
  "server_loop h [] w = Some (Inr ([], w))"
| "server_loop h (None # conns) w = Some (Inl 1)"
| "server_loop h (Some c # conns) w =
     (case serve h (peer_reads c) w of
        None \<Rightarrow> None
      | Some (Inl code) \<Rightarrow> Some (Inl code)
      | Some (Inr (sents, w1)) \<Rightarrow>
          map_option (map_sum id (\<lambda>(log, w2). ((peer_line c, sents) # log, w2))) (server_loop h conns w1))"

text \<open>\<^verbatim>\<open>main\<close>: the root directory, the name of the host, the socket, the loop. The directory is what is left in the
  dead buffer of \<^verbatim>\<open>_pwd\<close>.\<close>

definition server_main :: "'w host \<Rightarrow> 'n net \<Rightarrow> string list \<Rightarrow> connection option list \<Rightarrow> 'w \<Rightarrow> 'n
    \<Rightarrow> (int + (string \<times> (string \<times> string list) list \<times> 'w)) option" where
  "server_main h net argv conns w n = do {
     let (r, w1) = os_chdir h ''/'' w;
     out \<leftarrow> pwd_cmd h [] w1;
     (case out of
        Inr (Address cwd, shown, w2) \<Rightarrow>
          (let hostname = (if length argv < 2 then ''localhost'' else argv ! 1)
           in case server_init net hostname n of
                Inl code \<Rightarrow> Some (Inl code)
              | Inr (mysock, told, n1) \<Rightarrow>
                  map_option (map_sum id (\<lambda>(log, w3). (''cwd: '' @ [CHR 0x27] @ cwd @ [CHR 0x27, newline] @ told, log, w3)))
                    (server_loop h conns w2))
      | _ \<Rightarrow> None)
   }"

section \<open>Starting the client (client.c)\<close>

definition DisplayMenu :: string where
  "DisplayMenu =
     ''********************** Menu *********************'' @ [newline] @
     ''* get  put  ls   cd   pwd   mkdir   rmdir   rm  *'' @ [newline] @
     ''* lcat     lls  lcd  lpwd  lmkdir  lrmdir  lrm  *'' @ [newline] @
     ''*************************************************'' @ [newline]"

text \<open>The socket, once it is connected, and what was shown.\<close>

definition client_init :: "'n net \<Rightarrow> string \<Rightarrow> string \<Rightarrow> 'n \<Rightarrow> (int + int \<times> string \<times> 'n) option" where
  "client_init net name service n =
     (case net_host net name n of
        None \<Rightarrow> Some (Inl 1)
      | Some (h_name, server_ip) \<Rightarrow> do {
          server_port \<leftarrow> atoi service;
          let (server_sock, n1) = net_socket net n;
          if server_sock < 0 then Some (Inl 2)
          else
            let (r, n2) = net_connect net server_sock server_ip (htons (word_of_int server_port)) n1
            in if r < 0 then Some (Inl 1)
               else Some (Inr (server_sock, '' Hostname = '' @ h_name @ '' || IP = '' @ inet_ntop server_ip
                 @ '' || PORT = '' @ dec server_port @ [newline], n2))
        })"

definition client_start :: "'n net \<Rightarrow> string list \<Rightarrow> 'n \<Rightarrow> (int + int \<times> string \<times> 'n) option" where
  "client_start net argv n = (if length argv < 3 then Some (Inl 1) else client_init net (argv ! 1) (argv ! 2) n)"

section \<open>A client and its server\<close>

text \<open>What the client is doing, what is still to be typed, the bytes on their way, the worlds of the two, the
  lines that were done and what they showed, and the code with which the server has left.\<close>

datatype client_mode = At_prompt | Waiting string | Ended int

record ('w, 'v) dialogue =
  mode :: client_mode
  keyboard :: string
  requests :: string
  replies :: string
  server_world :: 'w
  client_world :: 'v
  lines_done :: "string list"
  screen :: "string list"
  server_gone :: "int option"

definition connected :: "string \<Rightarrow> 'w \<Rightarrow> 'v \<Rightarrow> ('w, 'v) dialogue" where
  "connected input w v = \<lparr>mode = At_prompt, keyboard = input, requests = [], replies = [], server_world = w,
     client_world = v, lines_done = [], screen = [], server_gone = None\<rparr>"

text \<open>The steps: a line that ends the client, a local command, a request that is sent; the server reads some
  of what has arrived, at most its buffer, and answers or exits; the client takes the answer, a transfer in reads
  of any sizes. The parameter bounds what a read of a request, or of a reply, may miss of the bytes that are
  there. What the server writes in one turn arrives in one piece.\<close>

inductive sys_step :: "'w host \<Rightarrow> 'v host \<Rightarrow> nat \<Rightarrow> ('w, 'v) dialogue \<Rightarrow> ('w, 'v) dialogue \<Rightarrow> bool"
  for hs hc miss where
  leave: "mode s = At_prompt \<Longrightarrow> typed_line MAX_LINE [] (keyboard s) = Some (line, rest) \<Longrightarrow>
    client_line hc line (client_world s) = Some (Ends c) \<Longrightarrow>
    sys_step hs hc miss s (s\<lparr>mode := Ended c, keyboard := rest\<rparr>)"
| here: "mode s = At_prompt \<Longrightarrow> typed_line MAX_LINE [] (keyboard s) = Some (line, rest) \<Longrightarrow>
    client_line hc line (client_world s) = Some (Shows text v) \<Longrightarrow>
    sys_step hs hc miss s (s\<lparr>keyboard := rest, client_world := v, lines_done := lines_done s @ [line],
      screen := screen s @ [text]\<rparr>)"
| send: "mode s = At_prompt \<Longrightarrow> typed_line MAX_LINE [] (keyboard s) = Some (line, rest) \<Longrightarrow>
    client_line hc line (client_world s) = Some (Requests bytes) \<Longrightarrow>
    sys_step hs hc miss s (s\<lparr>mode := Waiting line, keyboard := rest, requests := requests s @ bytes\<rparr>)"
| serve: "server_gone s = None \<Longrightarrow> 0 < n \<Longrightarrow> n \<le> min MAX_LINE (length (requests s)) \<Longrightarrow>
    min MAX_LINE (length (requests s)) \<le> n + miss \<Longrightarrow>
    server_turn hs (take n (requests s)) (server_world s) = Some (Inr (sent, shown, w)) \<Longrightarrow>
    sys_step hs hc miss s (s\<lparr>requests := drop n (requests s), replies := replies s @ sent, server_world := w\<rparr>)"
| server_exit: "server_gone s = None \<Longrightarrow> 0 < n \<Longrightarrow> n \<le> min MAX_LINE (length (requests s)) \<Longrightarrow>
    min MAX_LINE (length (requests s)) \<le> n + miss \<Longrightarrow>
    server_turn hs (take n (requests s)) (server_world s) = Some (Inl c) \<Longrightarrow>
    sys_step hs hc miss s (s\<lparr>server_gone := Some c\<rparr>)"
| receive: "mode s = Waiting line \<Longrightarrow> fst short \<le> miss \<Longrightarrow> snd short \<le> miss \<Longrightarrow>
    client_receive line buff sizes short (replies s) = Some (text, rest) \<Longrightarrow>
    sys_step hs hc miss s (s\<lparr>mode := At_prompt, replies := rest, lines_done := lines_done s @ [line],
      screen := screen s @ [text]\<rparr>)"

end
