(* ===== verification/FileServerProps.thy ===== *)
theory FileServerProps
  imports FileServer
begin

text \<open>
  What the client and the server of \<^verbatim>\<open>Lab4\<close> do together: an answer that fits comes back as it was made and
  leaves the connection empty; the end of a file is missed when it arrives together with the file; and a
  listing soon overflows the line.
\<close>

section \<open>Requests\<close>

lemma takeWhile_request: "CHR 0x00 \<notin> set line \<Longrightarrow> takeWhile (\<lambda>c. c \<noteq> CHR 0x00) (request_bytes line) = line"
  by (auto simp: request_bytes_def takeWhile_append)

lemma NUL_in_request: "length line < MAX_LINE \<Longrightarrow> CHR 0x00 \<in> set (take MAX_LINE (request_bytes line))"
  by (simp add: request_bytes_def)

lemma split_first_word: "set c \<inter> set D = {} \<Longrightarrow> d \<in> set D \<Longrightarrow> w @ c \<noteq> [] \<Longrightarrow>
  split_words D w (c @ d # s) = (w @ c) # split_words D [] s"
  by (induction c arbitrary: w) auto

lemma index_of_nth: "distinct ds \<Longrightarrow> i < length ds \<Longrightarrow> index_of (ds ! i) ds = Some i"
  by (induction ds arbitrary: i) (auto simp: nth_Cons split: nat.split)

lemma cmd_names: "i < length cmd_table \<Longrightarrow> CHR '' '' \<notin> set (cmd_table ! i) \<and> cmd_table ! i \<noteq> [] \<and> length (cmd_table ! i) < 10"
  by (auto simp: cmd_table_def nth_Cons split: nat.split)

lemma getLineInfo_word:
  assumes "line = c @ '' '' @ p" and "length line < MAX_LINE" and "CHR '' '' \<notin> set c" and "c \<noteq> []" and "length c < 10"
  shows "getLineInfo line = Some (index_of c cmd_table, c, p)"
proof -
  have "strtok_all '' '' line = c # strtok_all '' '' p"
    using split_first_word [of c "'' ''" "CHR '' ''" "[]" p] assms by (simp add: strtok_all_def)
  moreover have "dropWhile (\<lambda>x. x \<noteq> CHR '' '') line = CHR '' '' # p"
    using assms by (simp add: dropWhile_append)
  ultimately show ?thesis using assms by (simp add: getLineInfo_def)
qed

lemma getLineInfo_command:
  assumes "i < length cmd_table" and "line = cmd_table ! i @ '' '' @ p" and "length line < MAX_LINE"
  shows "getLineInfo line = Some (Some i, cmd_table ! i, p)"
  using getLineInfo_word [OF assms(2,3)] cmd_names [OF assms(1)] index_of_nth [of cmd_table i] assms(1)
  by (simp add: cmd_table_def)

section \<open>Replies\<close>

lemma length_int_bytes [simp]: "length (int_bytes n) = 4"
  by (simp add: int_bytes_def)

lemma upto_4: "[0..<4] = [0, 1, 2, 3 :: nat]" "{..<4} = {0, 1, 2, 3 :: nat}"
  by (code_simp, auto)

lemma four_digits:
  fixes n :: nat
  assumes "n < 256 * (256 * (256 * 256))"
  shows "n mod 256 + n div 256 mod 256 * 256 + n div 256 div 256 mod 256 * (256 * 256)
    + n div 256 div 256 div 256 mod 256 * (256 * (256 * 256)) = n"
proof -
  define a where "a = n div 256"
  define b where "b = a div 256"
  define c where "c = b div 256"
  have "c < 256" using assms by (simp add: a_def b_def c_def less_mult_imp_div_less mult.commute)
  then have c: "c mod 256 = c" by simp
  have *: "r + s * 256 + t * (256 * 256) + c * (256 * (256 * 256)) = n"
    if "n = 256 * a + r" "a = 256 * b + s" "b = 256 * c + t" for r s t
    unfolding that(1) unfolding that(2) unfolding that(3) by simp
  have "n = 256 * a + n mod 256" "a = 256 * b + a mod 256" "b = 256 * c + b mod 256"
    by (simp_all add: a_def b_def c_def)
  from * [OF this] c show ?thesis unfolding a_def [symmetric] b_def [symmetric] c_def [symmetric] by simp
qed

lemma int_bytes_back: "n < 256 * (256 * (256 * 256)) \<Longrightarrow> int_of_bytes (int_bytes n @ s) = n"
  using four_digits [of n]
  by (simp add: int_of_bytes_def int_bytes_def upto_4 nth_append div_mult2_eq [symmetric])

text \<open>The client asks for one byte more than the reply has, and takes it when something follows.\<close>

lemma receive_reply_rest:
  assumes "CHR 0x00 \<notin> set line" and "length line < MAX_LINE"
  shows "receive_reply (0, 0) (int_bytes (length line + 1) @ line @ CHR 0x00 # s) = Some (line, tl s)"
proof -
  have n: "int_of_bytes (int_bytes (length line + 1) @ x) = length line + 1" for x
    using assms(2) by (intro int_bytes_back) (simp add: MAX_LINE_def)
  have l4: "length (int_bytes (length line + 1)) = 4" by (simp add: int_bytes_def)
  have "length line + 1 + 1 < 2 ^ 31" using assms(2) by (simp add: MAX_LINE_def)
  then show ?thesis
    unfolding receive_reply_def using assms(1) n [of "[]"] l4 by (cases s) (simp_all add: takeWhile_append Let_def)
qed

lemma receive_reply_sent:
  assumes "CHR 0x00 \<notin> set line" and "length line < MAX_LINE"
  shows "receive_reply (0, 0) (int_bytes (length line + 1) @ line @ [CHR 0x00]) = Some (line, [])"
  using receive_reply_rest [OF assms, of "[]"] by simp

definition reply_to :: "answer \<Rightarrow> string \<Rightarrow> string option" where
  "reply_to value line =
     (case value of
        Num v \<Rightarrow> if v = 0 then Some (line @ '' -> SUCCESS'') else if v = - 1 then Some (line @ '' -> FAILURE'') else None
      | Address s \<Rightarrow> Some s)"

lemma reply_bytes:
  assumes "i < length cmd_table" and "line = cmd_table ! i @ '' '' @ p" and "length line < MAX_LINE" and "CHR 0x00 \<notin> set line"
    and "fcmds h True i p w = Some (Inr (val, shown, w'))" and "reply_to val line = Some reply" and "length reply < MAX_LINE"
  shows "server_turn h (request_bytes line) w = Some (Inr (int_bytes (length reply + 1) @ reply @ [CHR 0x00], shown, w'))"
proof -
  have "\<exists>r. runCommand_server h line w = Some (Inr (r, reply, [], shown, w'))"
    using assms(5,6,7) getLineInfo_command [OF assms(1-3)]
    by (cases val) (auto simp: runCommand_server_def reply_to_def line_fits_def split: if_split_asm)
  then show ?thesis using NUL_in_request [OF assms(3)] takeWhile_request [OF assms(4)] by (auto simp: server_turn_def)
qed

text \<open>A command of the table and its path, sent by the client: the server does what the command does to
  its world, the client shows the answer (the line with SUCCESS or FAILURE, or the string the command made)
  and the connection is empty afterwards, if the answer fits the 256 characters and the line does not have
  \<^verbatim>\<open>get\<close> or \<^verbatim>\<open>put\<close> in it.\<close>

theorem reply_comes_back:
  assumes "i < length cmd_table" and "line = cmd_table ! i @ '' '' @ p" and "length line < MAX_LINE" and "CHR 0x00 \<notin> set line"
    and "\<not> is_transfer line" and "fcmds h True i p w = Some (Inr (val, shown, w'))"
    and "reply_to val line = Some reply" and "length reply < MAX_LINE" and "CHR 0x00 \<notin> set reply"
  shows "\<exists>sent. server_turn h (request_bytes line) w = Some (Inr (sent, shown, w'))
    \<and> client_receive line buff reads (0, 0) sent = Some (reply, [])"
  using reply_bytes [OF assms(1-4,6-8)] receive_reply_sent [OF assms(9,8)] assms(5)
  by (simp add: client_receive_def)

text \<open>A run of such commands: the lines, the answers and the worlds on the way.\<close>

fun answers :: "'w host \<Rightarrow> string list \<Rightarrow> 'w \<Rightarrow> string list \<Rightarrow> 'w \<Rightarrow> bool" where
  "answers h [] w replies w2 \<longleftrightarrow> replies = [] \<and> w2 = w"
| "answers h (line # lines) w replies w2 \<longleftrightarrow>
     (\<exists>i p val shown w1 reply rest. i < length cmd_table \<and> line = cmd_table ! i @ '' '' @ p \<and> length line < MAX_LINE
        \<and> CHR 0x00 \<notin> set line \<and> \<not> is_transfer line \<and> \<not> is_local line
        \<and> fcmds h True i p w = Some (Inr (val, shown, w1)) \<and> reply_to val line = Some reply
        \<and> length reply < MAX_LINE \<and> CHR 0x00 \<notin> set reply \<and> replies = reply # rest \<and> answers h lines w1 rest w2)"

text \<open>The requests of a run go out one by one; each answer is in the bytes that come back, and nothing else.\<close>

lemma run_is_answered:
  "answers h lines w replies w2 \<Longrightarrow>
    \<exists>sents. serve h (map (\<lambda>l. Some (request_bytes l)) lines) w = Some (Inr (sents, w2))
      \<and> map (receive_reply (0, 0)) sents = map (\<lambda>r. Some (r, [])) replies
      \<and> (\<forall>line \<in> set lines. \<forall>v. client_line h line v = Some (Requests (request_bytes line)))"
proof (induction lines arbitrary: w replies)
  case (Cons line lines)
  from Cons.prems obtain i p val shown w1 reply rest where c: "i < length cmd_table" "line = cmd_table ! i @ '' '' @ p"
    "length line < MAX_LINE" "CHR 0x00 \<notin> set line" "\<not> is_local line"
    "fcmds h True i p w = Some (Inr (val, shown, w1))" "reply_to val line = Some reply"
    "length reply < MAX_LINE" "CHR 0x00 \<notin> set reply" "replies = reply # rest" "answers h lines w1 rest w2" by auto
  from Cons.IH [OF c(11)] obtain sents where s: "serve h (map (\<lambda>l. Some (request_bytes l)) lines) w1 = Some (Inr (sents, w2))"
    "map (receive_reply (0, 0)) sents = map (\<lambda>r. Some (r, [])) rest"
    "\<forall>line \<in> set lines. \<forall>v. client_line h line v = Some (Requests (request_bytes line))" by blast
  have "line \<noteq> []" using c(2) by simp
  moreover from this have "request_bytes line \<noteq> []" by (simp add: request_bytes_def)
  ultimately show ?case
    using reply_bytes [OF c(1-4,6-8)] receive_reply_sent [OF c(9,8)] s c(5,10)
    by (intro exI [of _ "(int_bytes (length reply + 1) @ reply @ [CHR 0x00]) # sents"]) (simp add: client_line_def)
qed simp

section \<open>Files\<close>

lemma concat_send_chunks [simp]: "concat (send_chunks bytes) = bytes"
proof (induction bytes rule: send_chunks.induct)
  case (1 bytes)
  then show ?case by (subst send_chunks.simps) simp
qed

lemma EOF_STR_length [simp]: "length EOF_STR = 15"
  by (simp add: EOF_STR_def)

lemma end_mark_length [simp]: "length end_mark = 16"
  by (simp add: end_mark_def)

lemma receive_step:
  assumes "length c = m" and "0 < m" and "m \<le> MAX_LINE"
  shows "receive_loop buff (m # ns) (c @ s) t = (if take 16 (c @ drop m buff) = end_mark then Some (t + m, s)
    else receive_loop (replicate MAX_LINE CHR 0x00) ns s (t + m))"
  using assms by simp

text \<open>Reads that arrive piece by piece, as they were sent, end at the mark.\<close>

lemma receive_pieces:
  assumes "CHR ''*'' \<notin> set bytes"
  shows "receive_loop buff (map length (send_chunks bytes) @ [16]) (bytes @ end_mark @ rest) t
    = Some (t + length bytes + 16, rest)"
  using assms
proof (induction bytes arbitrary: buff t rule: send_chunks.induct)
  case (1 bytes)
  show ?case
  proof (cases "bytes = []")
    case True
    then have "send_chunks bytes = []" by (simp add: send_chunks.simps)
    with True receive_step [of end_mark 16 buff "[]" rest t] show ?thesis by (simp add: MAX_LINE_def del: receive_loop.simps)
  next
    case False
    define c where "c = take MAX_LINE bytes"
    define d where "d = drop MAX_LINE bytes"
    have cd: "bytes = c @ d" by (simp add: c_def d_def)
    have m: "0 < length c" "length c \<le> MAX_LINE" using False by (auto simp: c_def MAX_LINE_def)
    then obtain x xs where x: "c = x # xs" by (cases c) auto
    then have "x \<noteq> CHR ''*''" using "1.prems" cd by auto
    then have no: "take 16 (c @ drop (length c) buff) \<noteq> end_mark" by (simp add: x end_mark_def EOF_STR_def)
    have ch: "send_chunks bytes = c # send_chunks d" using False by (subst send_chunks.simps) (simp add: c_def d_def)
    have "CHR ''*'' \<notin> set d" using "1.prems" cd by auto
    have IH: "receive_loop buff (map length (send_chunks d) @ [16]) (d @ end_mark @ rest) t = Some (t + length d + 16, rest)"
      for buff t using "1.IH" [OF False, folded d_def] \<open>CHR ''*'' \<notin> set d\<close> by blast
    have "receive_loop buff (length c # map length (send_chunks d) @ [16]) (c @ d @ end_mark @ rest) t
        = Some (t + length c + length d + 16, rest)"
      unfolding receive_step [OF refl m] if_not_P [OF no] by (rule IH)
    moreover have "map length (send_chunks bytes) @ [16] = length c # map length (send_chunks d) @ [16]" by (simp add: ch)
    moreover have "bytes @ end_mark @ rest = c @ d @ end_mark @ rest" "length bytes = length c + length d"
      unfolding cd by simp_all
    ultimately show ?thesis by (simp only: add.assoc)
  qed
qed

text \<open>Where the mark can be found: only where it was put.\<close>

lemma mark_mismatch:
  "list_all (\<lambda>d. list_ex (\<lambda>i. d + i < 16 \<and> end_mark ! (d + i) \<noteq> EOF_STR ! i) [0..<15]) [1..<16]"
  by code_simp

lemma mark_at:
  assumes "take 15 (drop q s) = EOF_STR"
  shows "q + 15 \<le> length s" and "i < 15 \<Longrightarrow> s ! (q + i) = EOF_STR ! i"
proof -
  show l: "q + 15 \<le> length s" using arg_cong [OF assms, of length] by simp
  show "i < 15 \<Longrightarrow> s ! (q + i) = EOF_STR ! i" using arg_cong [OF assms, of "\<lambda>x. x ! i"] l by simp
qed

lemma take_mark: "take 16 x = end_mark \<Longrightarrow> take 15 x = EOF_STR"
  using take_take [of 15 16 x] by (simp add: end_mark_def)

lemma mark_only_there:
  assumes "CHR ''*'' \<notin> set bytes" and "\<forall>d. 0 < d \<longrightarrow> d < length rest \<longrightarrow> rest ! d \<noteq> CHR ''*''"
    and "take 15 (drop q (bytes @ end_mark @ rest)) = EOF_STR"
  shows "q = length bytes"
proof (rule ccontr)
  assume ne: "q \<noteq> length bytes"
  let ?s = "bytes @ end_mark @ rest"
  note len = mark_at(1) [OF assms(3)] and s = mark_at(2) [OF assms(3)]
  have star: "EOF_STR ! 0 = CHR ''*''" "EOF_STR ! 1 = CHR ''*''" by (simp_all add: EOF_STR_def)
  show False
  proof (cases "q < length bytes")
    case True
    with s [of 0] star(1) have "bytes ! q = CHR ''*''" by (simp add: nth_append)
    with assms(1) True show False by (metis nth_mem)
  next
    case False
    with ne obtain d where d: "q = length bytes + d" "1 \<le> d" by (metis le_Suc_ex less_one linorder_not_less add.right_neutral)
    show False
    proof (cases "d < 16")
      case True
      with d(2) have "d \<in> set [1..<16]" by simp
      with mark_mismatch have "list_ex (\<lambda>i. d + i < 16 \<and> end_mark ! (d + i) \<noteq> EOF_STR ! i) [0..<15]"
        unfolding list_all_iff by (rule bspec)
      then obtain i where i: "i < 15" "d + i < 16" "end_mark ! (d + i) \<noteq> EOF_STR ! i"
        unfolding list_ex_iff by (metis atLeastLessThan_iff set_upt)
      with s [OF i(1)] d(1) show False by (simp add: nth_append)
    next
      case False
      then obtain e where e: "d = 16 + e" using le_Suc_ex by (metis not_less)
      have "rest ! (e + 1) = CHR ''*''" using s [of 1] star(2) d(1) e by (simp add: nth_append)
      moreover have "e + 1 < length rest" using len d(1) e by simp
      ultimately show False using assms(2) by auto
    qed
  qed
qed

text \<open>When all bytes have arrived each read fills the buffer: the mark is not seen unless it begins at a
  multiple of the size.\<close>

lemma mark_in_buffer:
  assumes "take 16 (take m s @ replicate n CHR 0x00) = end_mark"
  shows "take 15 s = EOF_STR"
proof -
  let ?g = "take m s @ replicate n CHR 0x00" and ?l = "length (take m s)"
  have g: "take 15 (drop 0 ?g) = EOF_STR" using take_mark [OF assms] by simp
  have "15 \<le> ?l"
  proof (rule ccontr)
    assume a: "\<not> 15 \<le> ?l"
    then have l: "?l < 15" by (simp only: not_le)
    from mark_at(2) [OF g this] have "?g ! ?l = EOF_STR ! ?l" by (simp only: add_0)
    moreover have "n \<noteq> 0" using a mark_at(1) [OF g] by auto
    then have "?g ! ?l = CHR 0x00" using nth_append_length_plus [of "take m s" "replicate n CHR 0x00" 0] by simp
    moreover have "CHR 0x00 \<notin> set EOF_STR" by (simp add: EOF_STR_def)
    ultimately show False using l by (metis EOF_STR_length nth_mem)
  qed
  with take_append [of 15 "take m s" "replicate n CHR 0x00"] g show ?thesis by (simp add: min_def split: if_splits)
qed

lemma receive_full:
  "receive_loop buff (256 # ns) s t =
     (if s = [] then None
      else if take 16 (take (min 256 (length s)) s @ drop (min 256 (length s)) buff) = end_mark
      then Some (t + min 256 (length s), drop 256 s)
      else receive_loop (replicate MAX_LINE CHR 0x00) ns (drop 256 s) (t + min 256 (length s)))"
proof -
  have "drop (min 256 (length s)) s = drop 256 s" by (simp add: min_def)
  then show ?thesis
    by (cases s) (simp_all only: receive_loop.simps Let_def MAX_LINE_def end_mark_length, simp_all)
qed

definition no_mark :: "string \<Rightarrow> bool" where
  "no_mark s \<longleftrightarrow> (\<forall>j. take 15 (drop (256 * j) s) \<noteq> EOF_STR)"

lemma no_mark_drop: "no_mark s \<Longrightarrow> take 15 s \<noteq> EOF_STR \<and> no_mark (drop 256 s)"
  unfolding no_mark_def by (metis add.commute drop0 drop_drop mult_0_right mult_Suc_right)

lemma receive_waits: "no_mark s \<Longrightarrow> receive_loop (replicate MAX_LINE CHR 0x00) (replicate k 256) s t = None"
proof (induction k arbitrary: s t)
  case (Suc k)
  note d = no_mark_drop [OF Suc.prems]
  with mark_in_buffer have
    "take 16 (take (min 256 (length s)) s @ drop (min 256 (length s)) (replicate MAX_LINE CHR 0x00)) \<noteq> end_mark"
    by (metis drop_replicate)
  with Suc.IH d show ?case by (simp only: replicate_Suc receive_full if_not_P if_cancel) simp
qed simp

lemma receive_waits_first:
  assumes "no_mark s" and "16 \<le> length s"
  shows "receive_loop buff (replicate k 256) s t = None"
proof (cases k)
  case (Suc n)
  note d = no_mark_drop [OF assms(1)]
  have "take 16 (take (min 256 (length s)) s @ x) = take 16 s" for x using assms(2) by (simp add: min_def)
  moreover have "take 16 s \<noteq> end_mark" using d take_mark [of s] by blast
  ultimately show ?thesis using d receive_waits unfolding Suc by (simp only: replicate_Suc receive_full if_False if_cancel)
qed simp

lemma runCommand_get:
  assumes "os_lstat h p w = Some st" and "S_ISREG (st_mode st)" and "os_content h p w = Some bytes"
    and "line = ''get '' @ p" and "length line + 11 < MAX_LINE"
  obtains r l where "runCommand_server h line w = Some (Inr (r, l, bytes @ end_mark, [], w))"
    and "l \<in> {line, line @ '' -> SUCCESS'', line @ '' -> FAILURE''}"
proof -
  have "getLineInfo line = Some (index_of ''get'' cmd_table, ''get'', p)"
    using assms(4,5) by (intro getLineInfo_word) (simp_all add: MAX_LINE_def)
  then have i: "getLineInfo line = Some (None, ''get'', p)" by (simp add: cmd_table_def)
  have g: "server_get h p w = (no_return h, bytes @ end_mark)"
    using assms(1-3) by (simp add: server_get_def transfer_def)
  let ?l = "if no_return h = 0 then line @ '' -> SUCCESS'' else if no_return h = - 1 then line @ '' -> FAILURE'' else line"
  have "runCommand_server h line w = Some (Inr (no_return h, ?l, bytes @ end_mark, [], w))"
    using i g assms(5) by (simp add: runCommand_server_def line_fits_def)
  with that [of "no_return h" ?l] show thesis by auto
qed

lemma int_bytes_no_star:
  assumes "n \<le> 256" and "0 < d" and "d < 4"
  shows "int_bytes n ! d \<noteq> CHR ''*''"
proof -
  have "d = 1 \<or> d = 2 \<or> d = 3" using assms(2,3) by auto
  moreover have "n div 256 \<le> 1" "n div 65536 = 0" "n div 16777216 = 0" using assms(1) by auto
  then have "n div 256 = 0 \<or> n div 256 = 1" "n div 65536 = 0" "n div 16777216 = 0" by auto
  moreover have "char_of (0 :: nat) \<noteq> CHR ''*''" "char_of (1 :: nat) \<noteq> CHR ''*''" by code_simp+
  ultimately show ?thesis by (auto simp: int_bytes_def upto_4)
qed

lemma reply_no_star:
  assumes "CHR ''*'' \<notin> set l" and "length l < MAX_LINE" and "0 < d" and "d < length (int_bytes (length l + 1) @ l @ [CHR 0x00])"
  shows "(int_bytes (length l + 1) @ l @ [CHR 0x00]) ! d \<noteq> CHR ''*''"
proof (cases "d < 4")
  case True
  with int_bytes_no_star [of "length l + 1" d] assms(2,3) show ?thesis by (simp add: nth_append MAX_LINE_def)
next
  case False
  then have "(int_bytes (length l + 1) @ l @ [CHR 0x00]) ! d = (l @ [CHR 0x00]) ! (d - 4)" by (simp add: nth_append)
  moreover have "d - 4 < length (l @ [CHR 0x00])" using assms(4) False by simp
  then have "(l @ [CHR 0x00]) ! (d - 4) \<in> set (l @ [CHR 0x00])" by (rule nth_mem)
  ultimately show ?thesis using assms(1) by auto
qed

text \<open>C40. \<^verbatim>\<open>get\<close> of a file: the server sends the file, the end mark and then its usual reply. A client whose
  reads are as the writes of the server counts the bytes of the file and the mark and leaves the reply in
  the connection, where the next command takes it for its own. A client that reads what has all arrived
  never finds the mark, and waits for ever, unless the length of the file is a multiple of 256. (File and
  line have no star in them.)\<close>

theorem get_ends_by_luck:
  assumes "os_lstat h p w = Some st" and "S_ISREG (st_mode st)" and "os_content h p w = Some bytes"
    and "line = ''get '' @ p" and "length line + 11 < MAX_LINE" and "CHR 0x00 \<notin> set line"
    and "CHR ''*'' \<notin> set line" and "CHR ''*'' \<notin> set bytes"
  shows "\<exists>rest. rest \<noteq> [] \<and> server_turn h (request_bytes line) w = Some (Inr (bytes @ end_mark @ rest, [], w))
    \<and> client_receive line buff (map length (send_chunks bytes) @ [16]) short (bytes @ end_mark @ rest)
        = Some (''Recieved '' @ dec (int (length bytes + 16)) @ '' bytes'' @ [newline], rest)
    \<and> (length bytes mod 256 \<noteq> 0 \<longrightarrow> client_receive line buff (replicate k 256) short (bytes @ end_mark @ rest) = None)"
proof -
  from runCommand_get [OF assms(1-5)] obtain r l where run: "runCommand_server h line w = Some (Inr (r, l, bytes @ end_mark, [], w))"
    and l: "l \<in> {line, line @ '' -> SUCCESS'', line @ '' -> FAILURE''}" .
  define rest where "rest = int_bytes (length l + 1) @ l @ [CHR 0x00]"
  have len: "length line < MAX_LINE" using assms(5) by simp
  have "server_turn h (request_bytes line) w = Some (Inr (bytes @ end_mark @ rest, [], w))"
    using run NUL_in_request [OF len] takeWhile_request [OF assms(6)] by (simp add: server_turn_def rest_def)
  moreover have g: "strstr line ''get'' \<noteq> None" using assms(4) by simp
  then have "client_receive line buff (map length (send_chunks bytes) @ [16]) short (bytes @ end_mark @ rest)
      = Some (''Recieved '' @ dec (int (length bytes + 16)) @ '' bytes'' @ [newline], rest)"
    by (simp only: client_receive_def is_transfer_def receive_pieces [OF assms(8)]) simp
  moreover have "client_receive line buff (replicate k 256) short (bytes @ end_mark @ rest) = None" if m: "length bytes mod 256 \<noteq> 0"
  proof -
    have "CHR ''*'' \<notin> set l" "length l < MAX_LINE" using l assms(5,7) by auto
    then have stars: "\<forall>d. 0 < d \<longrightarrow> d < length rest \<longrightarrow> rest ! d \<noteq> CHR ''*''"
      using reply_no_star [of l] unfolding rest_def by blast
    have "no_mark (bytes @ end_mark @ rest)"
      unfolding no_mark_def
    proof (intro allI notI)
      fix j
      assume "take 15 (drop (256 * j) (bytes @ end_mark @ rest)) = EOF_STR"
      from mark_only_there [OF assms(8) stars this] have "length bytes mod 256 = 0" by (metis mod_mult_self1_is_0)
      with m show False by blast
    qed
    from receive_waits_first [OF this, of buff k 0] g show ?thesis
      by (simp add: client_receive_def is_transfer_def)
  qed
  ultimately show ?thesis by (intro exI [of _ rest]) (auto simp: rest_def)
qed

section \<open>Listings\<close>

lemma field_length: "w \<le> length (field w s)"
  by (simp add: field_def)

lemma ls_file_length:
  assumes "ls_file h n w = Some (Address text)" and "\<forall>t. length (os_ctime h t) = 24"
  shows "57 \<le> length text"
proof -
  have m: "length (mode_to_letters m) = 10" for m by (simp add: mode_to_letters_def)
  from assms(1) obtain st where st: "os_lstat h n w = Some st" by (auto simp: ls_file_def split: option.split_asm)
  show ?thesis
    using assms st field_length [of 3 "dec (st_nlink st)"] field_length [of 3 "dec (st_gid st)"]
      field_length [of 3 "dec (st_uid st)"] field_length [of 8 "dec (st_size st)"]
    by (auto simp: ls_file_def Let_def m split: if_split_asm)
qed

lemma ls_names_length:
  assumes "\<forall>t. length (os_ctime h t) = 24"
  shows "ls_names h names acc w = Some s \<Longrightarrow> length acc + 57 * length (filter (\<lambda>n. os_lstat h n w \<noteq> None) names) \<le> length s"
proof (induction names arbitrary: acc)
  case (Cons n ns)
  show ?case
  proof (cases "os_lstat h n w")
    case None
    with Cons show ?thesis by (simp add: ls_file_def)
  next
    case (Some st)
    with Cons.prems obtain l where l: "ls_file h n w = Some (Address l)" "ls_names h ns (acc @ l) w = Some s"
      by (auto simp: ls_file_def Let_def split: if_split_asm)
    from Cons.IH [OF l(2)] ls_file_length [OF l(1) assms] Some show ?thesis by simp
  qed
qed simp

text \<open>The server copies a listing into the line of 256 characters: \<^verbatim>\<open>ls\<close> of a directory with five or more
  entries (two are there in any) writes past its end.\<close>

theorem ls_overflows_line:
  assumes "os_lstat h ''./'' w = Some st" and "S_ISDIR (st_mode st)" and "os_readdir h ''./'' w = Some names"
    and "5 \<le> length (filter (\<lambda>n. os_lstat h n w \<noteq> None) names)" and "\<forall>t. length (os_ctime h t) = 24"
  shows "server_turn h (request_bytes ''ls'') w = None"
proof -
  have "getLineInfo ''ls'' = Some (Some 0, ''ls'', [])" by (simp add: getLineInfo_def MAX_LINE_def cmd_table_def)
  moreover have "ls_cmd h True [] w = None \<or> (\<exists>s. 256 \<le> length s \<and> ls_cmd h True [] w = Some (Inr (Address s, [], w)))"
  proof (cases "ls_names h names [] w")
    case (Some s)
    with ls_names_length [OF assms(5) Some] assms show ?thesis
      by (auto simp: ls_cmd_def ls_directory_def Let_def)
  qed (use assms in \<open>auto simp: ls_cmd_def ls_directory_def Let_def\<close>)
  ultimately have "runCommand_server h ''ls'' w = None"
    by (auto simp: runCommand_server_def fcmds_def line_fits_def MAX_LINE_def)
  moreover have "takeWhile (\<lambda>c. c \<noteq> CHR 0x00) (request_bytes ''ls'') = ''ls''" by (rule takeWhile_request) simp
  ultimately show ?thesis by (simp add: server_turn_def)
qed

section \<open>A small host\<close>

text \<open>Its world is the list of the directories made; there is one file, and five names in any directory.\<close>

definition small_stat :: "u32 \<Rightarrow> stat" where
  "small_stat m = \<lparr>st_mode = m, st_nlink = 1, st_gid = 0, st_uid = 0, st_size = 3, st_ctime = 0\<rparr>"

definition small_host :: "string list host" where
  "small_host = \<lparr>os_mkdir = \<lambda>p w. if p \<in> set w then (- 1, w) else (0, p # w), os_rmdir = \<lambda>p w. (- 1, w),
     os_unlink = \<lambda>p w. (- 1, w), os_chdir = \<lambda>p w. (0, w), os_getcwd = \<lambda>w. Some ''/'',
     os_lstat = \<lambda>p w. Some (small_stat (if p = ''f'' then 0x81A4 else 0x41ED)),
     os_readdir = \<lambda>p w. Some [''.'', ''..'', ''f'', ''d'', ''e''], os_readlink = \<lambda>p w. [],
     os_content = \<lambda>p w. if p = ''f'' then Some ''abc'' else None,
     os_ctime = \<lambda>t. replicate 24 CHR ''t'', behind_link = [], dead_cwd = takeWhile (\<lambda>c. c \<noteq> CHR 0x00), no_return = 0\<rparr>"

theorem reply_comes_back_witness:
  "(\<exists>sent. server_turn small_host (request_bytes ''mkdir d'') [] = Some (Inr (sent, [], [''d'']))
     \<and> client_receive ''mkdir d'' [] [] (0, 0) sent = Some (''mkdir d -> SUCCESS'', []))
   \<and> (\<exists>sent. server_turn small_host (request_bytes ''mkdir d'') [''d''] = Some (Inr (sent, [], [''d'']))
     \<and> client_receive ''mkdir d'' [] [] (0, 0) sent = Some (''mkdir d -> FAILURE'', []))"
  using reply_comes_back [of 3 "''mkdir d''" "''d''" small_host "[]" "Num 0" "[]" "[''d'']" "''mkdir d -> SUCCESS''" "[]" "[]"]
    reply_comes_back [of 3 "''mkdir d''" "''d''" small_host "[''d'']" "Num (- 1)" "[]" "[''d'']" "''mkdir d -> FAILURE''" "[]" "[]"]
  by (simp add: cmd_table_def MAX_LINE_def is_transfer_def fcmds_def mkdir_cmd_def small_host_def reply_to_def)

theorem get_ends_by_luck_witness:
  "\<exists>rest. rest \<noteq> [] \<and> server_turn small_host (request_bytes ''get f'') [] = Some (Inr (''abc'' @ end_mark @ rest, [], []))
    \<and> client_receive ''get f'' [] [3, 16] (0, 0) (''abc'' @ end_mark @ rest) = Some (''Recieved 19 bytes'' @ [newline], rest)
    \<and> client_receive ''get f'' [] (replicate 9 256) (0, 0) (''abc'' @ end_mark @ rest) = None"
proof -
  have "send_chunks ''abc'' = [''abc'']" by (simp add: send_chunks.simps MAX_LINE_def)
  then have r: "map length (send_chunks ''abc'') @ [16] = [3, 16]" "length ''abc'' = 3" by simp_all
  have d: "dec (int (3 + 16)) = ''19''" by code_simp
  have h: "os_lstat small_host ''f'' [] = Some (small_stat 0x81A4)" "os_content small_host ''f'' [] = Some ''abc''"
    by (simp_all add: small_host_def)
  have "S_ISREG (st_mode (small_stat 0x81A4))" by (simp add: small_stat_def S_ISREG_def)
  from get_ends_by_luck [OF h(1) this h(2), of "''get f''" "[]" "(0, 0)" 9] show ?thesis
    unfolding r d by (simp add: MAX_LINE_def)
qed

theorem ls_overflows_line_witness: "server_turn small_host (request_bytes ''ls'') [] = None"
  using ls_overflows_line [of small_host "[]" "small_stat 0x41ED" "[''.'', ''..'', ''f'', ''d'', ''e'']"]
  by (simp add: small_host_def small_stat_def S_ISDIR_def)

end
