(* ===== verification/FileNetworkProps.thy ===== *)
theory FileNetworkProps
  imports FileNetwork FileServerProps
begin

text \<open>
  The client of \<^verbatim>\<open>Lab4\<close> finds its server by the port the server shows; a line it sends is a call of the
  server's command, as if there were no connection between them; and what breaks this.
\<close>

section \<open>Ports\<close>

lemma swap_bytes [simp]: "htons (ntohs x) = x"
proof (rule bit_word_eqI)
  fix n assume "n < LENGTH(16)"
  then consider "n < 8" | k where "n = 8 + k" "k < 8" using le_Suc_ex [of 8 n] by fastforce
  then show "bit (htons (ntohs x)) n = bit x n"
    by cases (simp_all add: htons_def ntohs_def bit_simps)
qed

lemma atoi_dec:
  assumes "n < 2 ^ 31"
  shows "atoi (dec (int n)) = Some (int n)"
proof -
  obtain c cs where c: "numeral_text 10 n = c # cs" by (cases "numeral_text 10 n") auto
  with numeral_digits [of n] have "is_digit c" by simp
  then have ne: "c \<noteq> CHR '' ''" "c \<notin> set [CHR 0x09, newline, CHR 0x0B, CHR 0x0C, CHR 0x0D]" "c \<noteq> CHR ''-''" "c \<noteq> CHR ''+''"
    by (auto simp: is_digit_def)
  have "digits_read 0 (c # cs) = n" using digits_read_numeral [of n] c by simp
  with ne assms show ?thesis by (simp add: atoi_def dec_def c Let_def del: digits_read.simps)
qed

text \<open>C38. The client finds the server by the number the server shows: given that port, whatever the host,
  \<^verbatim>\<open>client_init\<close> asks the kernel for a connection to exactly the port the kernel has chosen for the server,
  with the exits of its calls. Only the last 16 bits of the number count.\<close>

theorem client_finds_server:
  assumes "server_init net name n = Inr (mysock, told, n1)" and "int (65536 * k + unat (ntohs sin_port)) < 2 ^ 31"
    and "net_name net mysock (snd (net_bind net mysock 0 (snd (net_socket net n)))) = Some sin_port"
  shows "(\<exists>h_name a. told = host_line h_name a @ port_line (int (unat (ntohs sin_port))))
    \<and> client_init net host (dec (int (65536 * k + unat (ntohs sin_port)))) m =
      (case net_host net host m of
         None \<Rightarrow> Some (Inl 1)
       | Some (h_name, ip) \<Rightarrow>
           let (s, m1) = net_socket net m
           in if s < 0 then Some (Inl 2)
              else let (r, m2) = net_connect net s ip sin_port m1
                   in if r < 0 then Some (Inl 1)
                      else Some (Inr (s, '' Hostname = '' @ h_name @ '' || IP = '' @ inet_ntop ip
                        @ '' || PORT = '' @ dec (int (65536 * k + unat (ntohs sin_port))) @ [newline], m2)))"
proof
  show "\<exists>h_name a. told = host_line h_name a @ port_line (int (unat (ntohs sin_port)))"
    using assms(1,3) by (auto simp: server_init_def Let_def split: option.splits prod.splits if_splits)
  let ?p = "65536 * k + unat (ntohs sin_port)"
  have "?p < 2 ^ 31" using assms(2) by (metis of_nat_less_iff of_nat_numeral of_nat_power)
  from atoi_dec [OF this] have a: "atoi (dec (int ?p)) = Some (int ?p)" .
  have "(word_of_int (int ?p) :: port) = of_nat ?p" by (rule of_int_of_nat_eq)
  also have "\<dots> = of_nat 65536 * of_nat k + ntohs sin_port" by (simp only: of_nat_add of_nat_mult of_nat_unat ucast_id)
  also have "(of_nat 65536 :: port) = 0" by simp
  finally have "htons (word_of_int (int ?p)) = sin_port" by simp
  then show "client_init net host (dec (int ?p)) m =
      (case net_host net host m of
         None \<Rightarrow> Some (Inl 1)
       | Some (h_name, ip) \<Rightarrow>
           let (s, m1) = net_socket net m
           in if s < 0 then Some (Inl 2)
              else let (r, m2) = net_connect net s ip sin_port m1
                   in if r < 0 then Some (Inl 1)
                      else Some (Inr (s, '' Hostname = '' @ h_name @ '' || IP = '' @ inet_ntop ip
                        @ '' || PORT = '' @ dec (int ?p) @ [newline], m2)))"
    unfolding client_init_def a by (simp add: Let_def split: option.split prod.split)
qed

section \<open>Answers are strings\<close>

text \<open>What the system calls hand out, and what is left of the directory in the dead buffer of \<^verbatim>\<open>_pwd\<close>, are strings of C,
  without a zero.\<close>

definition c_strings :: "'w host \<Rightarrow> bool" where
  "c_strings h \<longleftrightarrow> (\<forall>s. CHR 0x00 \<notin> set (dead_cwd h s)) \<and> (\<forall>t. CHR 0x00 \<notin> set (os_ctime h t))
     \<and> CHR 0x00 \<notin> set (behind_link h) \<and> (\<forall>p w. CHR 0x00 \<notin> set (os_readlink h p w))
     \<and> (\<forall>p w ns. os_readdir h p w = Some ns \<longrightarrow> (\<forall>n \<in> set ns. CHR 0x00 \<notin> set n))"

lemma dec_NUL: "CHR 0x00 \<notin> set (dec i)"
proof -
  have "CHR 0x00 \<notin> set (numeral_text 10 n)" for n using numeral_digits [of n] by (auto simp: is_digit_def)
  then show ?thesis by (simp add: dec_def)
qed

lemma field_NUL: "CHR 0x00 \<notin> set s \<Longrightarrow> CHR 0x00 \<notin> set (field w s)"
  by (simp add: field_def)

lemma mode_NUL: "CHR 0x00 \<notin> set (mode_to_letters m)"
  by (simp add: mode_to_letters_def)

lemma base_name_NUL: "CHR 0x00 \<notin> set p \<Longrightarrow> CHR 0x00 \<notin> set (base_name p)"
  by (auto simp: base_name_def Let_def dest!: set_takeWhileD set_dropWhileD)

lemma ls_file_NUL:
  assumes "c_strings h" and "CHR 0x00 \<notin> set n" and "ls_file h n w = Some (Address t)"
  shows "CHR 0x00 \<notin> set t"
proof -
  have "CHR 0x00 \<notin> set (take 50 (os_readlink h n w))" "CHR 0x00 \<notin> set (behind_link h)" "CHR 0x00 \<notin> set (os_ctime h x)" for x
    using assms(1) by (auto simp: c_strings_def dest: in_set_takeD)
  with assms(3) show ?thesis
    using dec_NUL field_NUL mode_NUL base_name_NUL [OF assms(2)]
    by (auto simp: ls_file_def Let_def simp del: numeral_text.simps split: option.split_asm if_split_asm)
qed

lemma ls_names_NUL:
  "c_strings h \<Longrightarrow> \<forall>n \<in> set ns. CHR 0x00 \<notin> set n \<Longrightarrow> CHR 0x00 \<notin> set acc \<Longrightarrow> ls_names h ns acc w = Some t \<Longrightarrow> CHR 0x00 \<notin> set t"
proof (induction ns arbitrary: acc)
  case (Cons n ns)
  then have n: "CHR 0x00 \<notin> set n" by simp
  show ?case
    using Cons.prems Cons.IH [OF Cons.prems(1)] ls_file_NUL [OF Cons.prems(1) n]
    by (fastforce split: option.split_asm answer.split_asm if_split_asm)
qed simp

lemma tl_subset: "x \<in> set (tl xs) \<Longrightarrow> x \<in> set xs"
  by (cases xs) auto

lemma getLineInfo_chars:
  "getLineInfo line = Some (i, command, pathname) \<Longrightarrow> length line < MAX_LINE \<and> set pathname \<subseteq> set line"
  by (auto simp: getLineInfo_def split: if_split_asm list.split_asm dest!: tl_subset set_dropWhileD)

lemma fcmds_NUL:
  assumes "c_strings h" and "i < 7" and "CHR 0x00 \<notin> set p" and "fcmds h True i p w = Some (Inr (Address t, shown, w'))"
  shows "CHR 0x00 \<notin> set t"
proof -
  have "i = 0 \<or> i = 1 \<or> i = 2 \<or> i = 3 \<or> i = 4 \<or> i = 5 \<or> i = 6" using assms(2) by linarith
  then show ?thesis
  proof (elim disjE)
    assume "i = 0"
    let ?p = "if p = [] then ''./'' else p"
    have p: "CHR 0x00 \<notin> set ?p" using assms(3) by simp
    from assms(4) \<open>i = 0\<close> have "ls_directory h ?p w = Some (Address t) \<or> ls_file h ?p w = Some (Address t)"
      by (auto simp: fcmds_def ls_cmd_def Let_def bind_eq_Some_conv split: option.split_asm if_split_asm)
    moreover have "\<forall>n \<in> set ns. CHR 0x00 \<notin> set n" if "os_readdir h ?p w = Some ns" for ns
      using that assms(1) unfolding c_strings_def by blast
    ultimately show ?thesis
      using ls_file_NUL [OF assms(1) p] ls_names_NUL [OF assms(1), of _ "[]"]
      by (fastforce simp: ls_directory_def split: if_split_asm option.split_asm)
  next
    assume "i = 2"
    with assms(1,4) show ?thesis
      by (auto simp: fcmds_def pwd_cmd_def c_strings_def split: option.split_asm if_split_asm)
  qed (use assms(4) in \<open>auto simp: fcmds_def cd_cmd_def mkdir_cmd_def rmdir_cmd_def rm_cmd_def cat_cmd_def
      split: prod.split_asm option.split_asm\<close>)
qed

lemma index_of_less: "index_of c ds = Some i \<Longrightarrow> i < length ds"
  by (induction ds arbitrary: i) (auto split: if_split_asm)

lemma getLineInfo_index: "getLineInfo line = Some (Some i, command, pathname) \<Longrightarrow> i < 7"
  using index_of_less [of _ cmd_table i] by (auto simp: getLineInfo_def cmd_table_def split: if_split_asm list.split_asm)

lemma runCommand_string:
  assumes "c_strings h" and "CHR 0x00 \<notin> set line" and run: "runCommand_server h line w = Some (Inr (r, l, sent, shown, w'))"
  shows "CHR 0x00 \<notin> set l \<and> length l < MAX_LINE"
proof -
  have fits: "line_fits s = Some t \<longleftrightarrow> t = s \<and> length s < MAX_LINE" for s t by (auto simp: line_fits_def)
  from run obtain i command pathname where g: "getLineInfo line = Some (i, command, pathname)"
    by (auto simp: runCommand_server_def bind_eq_Some_conv)
  note ch = getLineInfo_chars [OF g]
  show ?thesis
  proof (cases i)
    case None
    with run g assms(2) ch show ?thesis
      by (auto simp: runCommand_server_def fits split: if_split_asm prod.split_asm Option.bind_split_asm)
  next
    case (Some k)
    have "CHR 0x00 \<notin> set pathname" using ch assms(2) by blast
    note nul = fcmds_NUL [OF assms(1) getLineInfo_index [OF g [unfolded Some]] this]
    from run g Some obtain val out where "fcmds h True k pathname w = Some (Inr (val, out, w'))"
      by (auto simp: runCommand_server_def split: Option.bind_split_asm sum.split_asm if_split_asm prod.split_asm answer.split_asm)
    with run g Some nul assms(2) ch show ?thesis
      by (cases val) (auto simp: runCommand_server_def fits split: if_split_asm Option.bind_split_asm)
  qed
qed

text \<open>The content of a regular file, when it can be read.\<close>

definition file_content :: "'w host \<Rightarrow> string \<Rightarrow> 'w \<Rightarrow> string option" where
  "file_content h p w =
     (case os_lstat h p w of
        None \<Rightarrow> None | Some st \<Rightarrow> if S_ISREG (st_mode st) then os_content h p w else None)"

definition sends_file :: "string \<Rightarrow> string \<Rightarrow> bool" where
  "sends_file line p \<longleftrightarrow> (\<exists>c \<in> {''get'', ''put''}. getLineInfo line = Some (None, c, p))"

lemma transfer_content: "transfer h p w = map_option (\<lambda>bytes. bytes @ end_mark) (file_content h p w)"
  by (simp add: transfer_def file_content_def split: option.split)

lemma run_bulk:
  assumes "runCommand_server h line w = Some (Inr (r, reply, bulk, shown, w'))"
  shows "bulk = [] \<and> (\<forall>p. sends_file line p \<longrightarrow> file_content h p w = None) \<or>
    (\<exists>p bytes. sends_file line p \<and> file_content h p w = Some bytes \<and> bulk = bytes @ end_mark)"
proof -
  from assms obtain i command pathname where g: "getLineInfo line = Some (i, command, pathname)"
    by (auto simp: runCommand_server_def bind_eq_Some_conv)
  define sent where "sent = (case file_content h pathname w of None \<Rightarrow> [] | Some bytes \<Rightarrow> bytes @ end_mark)"
  have get: "\<exists>r. server_get h pathname w = (r, sent)" "\<exists>r. server_put h pathname w = (r, sent)"
    by (simp_all add: server_get_def server_put_def transfer_content sent_def split: option.split)
  show ?thesis
  proof (cases "i = None \<and> (command = ''get'' \<or> command = ''put'')")
    case True
    then have p: "sends_file line p \<longleftrightarrow> p = pathname" for p using g by (auto simp: sends_file_def)
    from True assms g get have "bulk = sent" by (auto simp: runCommand_server_def split: Option.bind_split_asm)
    with p show ?thesis by (cases "file_content h pathname w") (auto simp: sent_def)
  next
    case False
    then have no: "\<not> sends_file line p" for p using g by (auto simp: sends_file_def)
    have "bulk = []"
    proof (cases i)
      case None
      with False assms g show ?thesis by (auto simp: runCommand_server_def split: Option.bind_split_asm)
    next
      case (Some k)
      with assms g show ?thesis
        by (auto simp: runCommand_server_def split: Option.bind_split_asm sum.split_asm if_split_asm prod.split_asm answer.split_asm)
    qed
    with no show ?thesis by simp
  qed
qed

text \<open>C37. Whatever a client has sent, what the server sends back, when it answers at all, ends with a reply as
  the client expects it: the length of a string that fits the line, and the string with its zero. In front of
  it come, for \<^verbatim>\<open>get\<close> and \<^verbatim>\<open>put\<close> of a regular file that can be read, the bytes of the file and the end mark, and
  nothing in every other case. (A command that writes more than 256 characters to the line, as a longer listing
  does, breaks the server.)\<close>

theorem answers_are_strings:
  assumes "c_strings h" and "server_turn h bytes w = Some (Inr (sent, shown, w'))"
  shows "\<exists>bulk reply. sent = bulk @ int_bytes (length reply + 1) @ reply @ [CHR 0x00]
    \<and> CHR 0x00 \<notin> set reply \<and> length reply < MAX_LINE
    \<and> receive_reply (0, 0) (drop (length bulk) sent) = Some (reply, [])
    \<and> (let line = takeWhile (\<lambda>c. c \<noteq> CHR 0x00) bytes
       in bulk = [] \<and> (\<forall>p. sends_file line p \<longrightarrow> file_content h p w = None) \<or>
          (\<exists>p content. sends_file line p \<and> file_content h p w = Some content \<and> bulk = content @ end_mark))"
proof -
  let ?line = "takeWhile (\<lambda>c. c \<noteq> CHR 0x00) bytes"
  from assms(2) obtain r reply bulk where run: "runCommand_server h ?line w = Some (Inr (r, reply, bulk, shown, w'))"
    and sent: "sent = bulk @ int_bytes (length reply + 1) @ reply @ [CHR 0x00]"
    by (auto simp: server_turn_def split: if_split_asm sum.split_asm prod.split_asm Option.bind_split_asm)
  have "CHR 0x00 \<notin> set ?line" by (auto dest: set_takeWhileD)
  from runCommand_string [OF assms(1) this run] receive_reply_sent [of reply] sent run_bulk [OF run] show ?thesis
    by (intro exI [of _ bulk] exI [of _ reply]) (simp add: Let_def)
qed

section \<open>A connection is a call\<close>

text \<open>The command of the server as a call: the answer and the new world. And what the lines show when every
  request is such a call.\<close>

definition ask :: "'w host \<Rightarrow> string \<Rightarrow> 'w \<Rightarrow> (string \<times> 'w) option" where
  "ask hs line w =
     (case runCommand_server hs line w of Some (Inr (r, reply, sent, shown, w')) \<Rightarrow> Some (reply, w') | _ \<Rightarrow> None)"

definition call_line :: "'w host \<Rightarrow> 'v host \<Rightarrow> string \<Rightarrow> string list \<times> 'w \<times> 'v \<Rightarrow> (string list \<times> 'w \<times> 'v) option" where
  "call_line hs hc l = (\<lambda>(texts, w, v).
     case client_line hc l v of
       Some (Shows text v') \<Rightarrow> Some (texts @ [text], w, v')
     | Some (Requests bytes) \<Rightarrow> map_option (\<lambda>(reply, w'). (texts @ [reply], w', v)) (ask hs l w)
     | _ \<Rightarrow> None)"

fun calls :: "'w host \<Rightarrow> 'v host \<Rightarrow> string list \<Rightarrow> string list \<times> 'w \<times> 'v \<Rightarrow> (string list \<times> 'w \<times> 'v) option" where
  "calls hs hc [] s = Some s"
| "calls hs hc (l # lines) s = Option.bind (call_line hs hc l s) (calls hs hc lines)"

lemma calls_snoc: "calls hs hc (lines @ [l]) s = Option.bind (calls hs hc lines s) (call_line hs hc l)"
proof (induction lines arbitrary: s)
  case Nil
  show ?case by (cases "call_line hs hc l s") simp_all
next
  case (Cons a lines)
  then show ?case by (cases "call_line hs hc a s") simp_all
qed

lemma strstr_infix: "strstr (a @ p @ b) p \<noteq> None"
proof (induction a)
  case Nil
  show ?case
  proof (cases "p @ b")
    case (Cons c cs)
    then have "take (length p) (c # cs) = p" by (metis append_eq_conv_conj)
    with Cons show ?thesis by simp
  qed simp
qed simp

lemma split_words_infix: "v \<in> set (split_words D w s) \<Longrightarrow> \<exists>a b. w @ s = a @ v @ b"
proof (induction s arbitrary: w)
  case Nil
  then show ?case by (intro exI [of _ "[]"] exI [of _ "[]"]) (simp split: if_split_asm)
next
  case (Cons c s)
  show ?case
  proof (cases "c \<in> set D")
    case True
    with Cons.prems consider "v = w" | "v \<in> set (split_words D [] s)" by (auto split: if_split_asm)
    then show ?thesis
    proof cases
      case 2
      from Cons.IH [OF this] obtain a b where "s = a @ v @ b" by auto
      then have "w @ c # s = (w @ c # a) @ v @ b" by simp
      then show ?thesis by blast
    qed (intro exI [of _ "[]"] exI [of _ "c # s"], simp)
  next
    case False
    with Cons.prems Cons.IH [of "w @ [c]"] show ?thesis by simp
  qed
qed

lemma getLineInfo_transfer:
  assumes "getLineInfo line = Some (i, command, pathname)" and "command = ''get'' \<or> command = ''put''"
  shows "is_transfer line"
proof -
  have "\<exists>a b. line = a @ command @ b"
  proof (cases "CHR '' '' \<in> set line")
    case True
    with assms(1) have "command \<in> set (strtok_all '' '' line)" by (auto simp: getLineInfo_def split: if_split_asm list.split_asm)
    then show ?thesis using split_words_infix [of command "'' ''" "[]" line] by (simp add: strtok_all_def)
  next
    case False
    with assms(1) have "line = command" by (auto simp: getLineInfo_def split: if_split_asm)
    then show ?thesis by (intro exI [of _ "[]"] exI [of _ "[]"]) simp
  qed
  then show ?thesis using assms(2) strstr_infix unfolding is_transfer_def by metis
qed

lemma run_no_bulk:
  assumes run: "runCommand_server hs line w = Some (Inr (r, reply, bulk, shown, w'))" and "\<not> is_transfer line"
  shows "bulk = []"
proof -
  from run obtain i command pathname where g: "getLineInfo line = Some (i, command, pathname)"
    by (auto simp: runCommand_server_def bind_eq_Some_conv)
  with getLineInfo_transfer [OF g] assms(2) run show ?thesis
    by (auto simp: runCommand_server_def split: Option.bind_split_asm option.split_asm sum.split_asm if_split_asm
        prod.split_asm answer.split_asm)
qed

lemma request_length: "length l < MAX_LINE \<Longrightarrow> length (request_bytes l) = MAX_LINE"
  by (simp add: request_bytes_def)

lemma server_turn_request:
  assumes "length l < MAX_LINE" and "CHR 0x00 \<notin> set l"
  shows "server_turn hs (request_bytes l) w =
    (case runCommand_server hs l w of
       None \<Rightarrow> None | Some (Inl c) \<Rightarrow> Some (Inl c)
     | Some (Inr (r, reply, bulk, shown, w')) \<Rightarrow> Some (Inr (bulk @ int_bytes (length reply + 1) @ reply @ [CHR 0x00], shown, w')))"
  using NUL_in_request [OF assms(1)] takeWhile_request [OF assms(2)]
  by (simp add: server_turn_def split: option.split sum.split)

lemma turn_asks:
  assumes "c_strings hs" and l: "length l < MAX_LINE" "CHR 0x00 \<notin> set l" "\<not> is_transfer l"
    and turn: "server_turn hs (request_bytes l) w = Some (Inr (sent, shown, w'))"
  shows "\<exists>reply. ask hs l w = Some (reply, w') \<and> receive_reply (0, 0) sent = Some (reply, [])"
proof -
  from turn obtain r reply bulk where run: "runCommand_server hs l w = Some (Inr (r, reply, bulk, shown, w'))"
    and sent: "sent = bulk @ int_bytes (length reply + 1) @ reply @ [CHR 0x00]"
    unfolding server_turn_request [OF l(1,2)] by (auto split: option.split_asm sum.split_asm)
  from runCommand_string [OF assms(1) l(2) run] run_no_bulk [OF run l(3)] receive_reply_sent [of reply] sent
  show ?thesis by (auto simp: ask_def run)
qed

section \<open>Lock step\<close>

definition entered :: "('w, 'v) dialogue \<Rightarrow> string list" where
  "entered s = lines_done s @ (case mode s of Waiting l \<Rightarrow> [l] | _ \<Rightarrow> [])"

definition no_transfers :: "string list \<Rightarrow> bool" where
  "no_transfers lines \<longleftrightarrow> (\<forall>l \<in> set lines. is_local l \<or> \<not> is_transfer l)"

text \<open>The state of the calls, and what is on its way: nothing at the prompt, the request or its answer while
  the client waits.\<close>

definition in_step :: "'w host \<Rightarrow> 'v host \<Rightarrow> 'w \<Rightarrow> 'v \<Rightarrow> ('w, 'v) dialogue \<Rightarrow> bool" where
  "in_step hs hc w0 v0 s \<longleftrightarrow> (\<exists>w. calls hs hc (lines_done s) ([], w0, v0) = Some (screen s, w, client_world s)
     \<and> (case mode s of
          Waiting l \<Rightarrow> l \<noteq> [] \<and> \<not> is_local l \<and> CHR 0x00 \<notin> set l \<and> length l < MAX_LINE
            \<and> (requests s = request_bytes l \<and> replies s = [] \<and> w = server_world s
               \<or> requests s = [] \<and> (\<exists>reply. ask hs l w = Some (reply, server_world s) \<and> receive_reply (0, 0) (replies s) = Some (reply, [])))
        | _ \<Rightarrow> requests s = [] \<and> replies s = [] \<and> w = server_world s))"

lemma typed_line_fits: "typed_line MAX_LINE [] input = Some (l, rest) \<Longrightarrow> length l < MAX_LINE"
proof -
  assume a: "typed_line MAX_LINE [] input = Some (l, rest)"
  have "length (fst (fgets MAX_LINE [] input)) \<le> MAX_LINE"
  proof -
    have "length (takeWhile P (take 255 input)) < 256" for P :: "char \<Rightarrow> bool"
      using length_takeWhile_le [of P "take 255 input"] by (simp add: min_def split: if_splits)
    then show ?thesis by (auto simp: fgets_def MAX_LINE_def Let_def Suc_le_eq)
  qed
  moreover from a have "l = butlast (takeWhile (\<lambda>c. c \<noteq> CHR 0x00) (fst (fgets MAX_LINE [] input)))"
    "takeWhile (\<lambda>c. c \<noteq> CHR 0x00) (fst (fgets MAX_LINE [] input)) \<noteq> []"
    by (auto simp: typed_line_def Let_def split: prod.split_asm if_split_asm)
  moreover have "length (takeWhile (\<lambda>c. c \<noteq> CHR 0x00) (fst (fgets MAX_LINE [] input))) \<le> length (fst (fgets MAX_LINE [] input))"
    by (rule length_takeWhile_le)
  ultimately show ?thesis by (cases "takeWhile (\<lambda>c. c \<noteq> CHR 0x00) (fst (fgets MAX_LINE [] input))" rule: rev_cases) auto
qed

lemma client_requests:
  assumes "client_line hc l v = Some (Requests bytes)"
  shows "l \<noteq> []" and "\<not> is_local l" and "bytes = request_bytes l"
  using assms by (auto simp: client_line_def split: if_split_asm sum.split_asm prod.split_asm) (metis sum.exhaust surj_pair)+

lemma entered_grows: "sys_step hs hc k s s' \<Longrightarrow> \<exists>x. entered s' = entered s @ x"
  by (cases rule: sys_step.cases) (auto simp: entered_def split: client_mode.split)

lemma in_step_keeps:
  assumes "sys_step hs hc 0 s s'" and "c_strings hs" and "no_transfers (entered s')" and "in_step hs hc w0 v0 s"
  shows "in_step hs hc w0 v0 s'"
  using assms(1)
proof cases
  case (here line rest ans v)
  with assms(4) show ?thesis by (auto simp: in_step_def calls_snoc call_line_def)
next
  case (send line rest bytes)
  with assms(4) client_requests [OF send(4)] typed_line_fits [OF send(3)] typed_line_plain [OF send(3)]
  show ?thesis by (auto simp: in_step_def)
next
  case (serve n sent shown w)
  show ?thesis
  proof (cases "mode s")
    case (Waiting l)
    from assms(4) serve(3,4) Waiting have l: "l \<noteq> []" "\<not> is_local l" "CHR 0x00 \<notin> set l" "length l < MAX_LINE"
      and rq: "requests s = request_bytes l" "replies s = []"
      and c: "calls hs hc (lines_done s) ([], w0, v0) = Some (screen s, server_world s, client_world s)"
      by (auto simp: in_step_def)
    with serve(4,5) have n: "n = MAX_LINE" using request_length [OF l(4)] by simp
    with rq request_length [OF l(4)] have all: "take n (requests s) = request_bytes l" "drop n (requests s) = []" by simp_all
    have "\<not> is_transfer l" using assms(3) l(2) Waiting serve(1) by (simp add: no_transfers_def entered_def)
    from turn_asks [OF assms(2) l(4,3) this serve(6) [unfolded all(1)]] c l Waiting all(2) rq(2) serve(1)
    show ?thesis by (auto simp: in_step_def)
  qed (use assms(4) serve(3,4) in \<open>auto simp: in_step_def\<close>)
next
  case (receive line short buff sizes ans rest)
  from assms(3) receive(1) have t: "is_local line \<or> \<not> is_transfer line" by (simp add: no_transfers_def entered_def)
  from assms(4) receive(2) obtain w where w: "calls hs hc (lines_done s) ([], w0, v0) = Some (screen s, w, client_world s)"
    "line \<noteq> []" "\<not> is_local line" and rq: "requests s = request_bytes line \<and> replies s = [] \<and> w = server_world s
      \<or> requests s = [] \<and> (\<exists>reply. ask hs line w = Some (reply, server_world s) \<and> receive_reply (0, 0) (replies s) = Some (reply, []))"
    by (auto simp: in_step_def)
  have "short = (0, 0)" using receive(3,4) by (cases short) simp
  with t w(3) receive(5) have r: "receive_reply (0, 0) (replies s) = Some (ans, rest)" by (simp add: client_receive_def)
  then have "replies s \<noteq> []" by (auto simp: receive_reply_def Let_def)
  with rq r have "requests s = []" "ask hs line w = Some (ans, server_world s)" "rest = []" by auto
  with w receive(1) show ?thesis by (auto simp: in_step_def calls_snoc call_line_def client_line_def)
next
  case (server_exit n c)
  with assms(4) show ?thesis by (cases "mode s") (simp_all add: in_step_def)
qed (use assms(4) in \<open>auto simp: in_step_def split: client_mode.split_asm\<close>)

lemma in_step_reached:
  assumes "(sys_step hs hc 0)\<^sup>*\<^sup>* (connected input w v) s" and "c_strings hs" and "no_transfers (entered s)"
  shows "in_step hs hc w v s"
  using assms(1,3)
proof (induction rule: rtranclp_induct)
  case base
  show ?case by (simp add: in_step_def connected_def)
next
  case (step s t)
  with entered_grows [OF step(2)] have "no_transfers (entered s)" by (auto simp: no_transfers_def)
  with step in_step_keeps [OF step(2) assms(2)] show ?case by blast
qed

text \<open>A client that waits is answered, unless the server has left or the command takes it down.\<close>

lemma waiting_goes_on:
  assumes i: "in_step hs hc w v s" and m: "mode s = Waiting l" and "\<not> is_transfer l"
    and "server_gone s = None" and "runCommand_server hs l (server_world s) \<noteq> None \<or> requests s = []"
  shows "\<exists>s'. sys_step hs hc 0 s s'"
proof (cases "requests s = []")
  case True
  with i m have "client_receive l [] [] (0, 0) (replies s) \<noteq> None"
    using assms(3) by (auto simp: in_step_def client_receive_def request_bytes_def MAX_LINE_def)
  then show ?thesis using sys_step.receive [OF m, of "(0, 0)" 0 "[]" "[]"] by fastforce
next
  case False
  with i m have l: "length l < MAX_LINE" "CHR 0x00 \<notin> set l" "requests s = request_bytes l" by (auto simp: in_step_def)
  have n: "0 < MAX_LINE" "MAX_LINE \<le> min MAX_LINE (length (requests s))" "min MAX_LINE (length (requests s)) \<le> MAX_LINE + 0"
    using request_length [OF l(1)] l(3) by (simp_all add: MAX_LINE_def)
  have "server_turn hs (take MAX_LINE (requests s)) (server_world s) \<noteq> None"
    using server_turn_request [OF l(1,2), of hs "server_world s"] assms(5) False l(3) request_length [OF l(1)]
    by (auto split: option.split sum.split)
  then obtain r where "server_turn hs (take MAX_LINE (requests s)) (server_world s) = Some r" by auto
  then show ?thesis
    using sys_step.serve [OF assms(4) n] sys_step.server_exit [OF assms(4) n] by (cases r) fastforce+
qed

text \<open>C36. The connection cannot be seen: as long as both sides read whole what the other has sent, what a turn
  of the server sends arrives in one piece, and no line has \<^verbatim>\<open>get\<close> or \<^verbatim>\<open>put\<close> in it, then whatever is typed and in
  whatever order client and server go on, at every prompt nothing is on its way, and what the lines have shown
  and done to the two worlds is what they do when each request is a call of the server's command. A client that
  waits gets on, unless the server has exited or the command breaks it. \<^verbatim>\<open>quit\<close>, with which the client is meant
  to exit, is such a request too (see below); only an empty line ends the client.\<close>

theorem requests_are_calls:
  assumes "(sys_step hs hc 0)\<^sup>*\<^sup>* (connected input w v) s" and "c_strings hs" and "no_transfers (entered s)"
  shows "((\<forall>l. mode s \<noteq> Waiting l) \<longrightarrow> requests s = [] \<and> replies s = []
      \<and> calls hs hc (lines_done s) ([], w, v) = Some (screen s, server_world s, client_world s))
    \<and> (\<forall>l. mode s = Waiting l \<longrightarrow> (\<exists>s'. sys_step hs hc 0 s s') \<or> server_gone s \<noteq> None
      \<or> runCommand_server hs l (server_world s) = None)"
proof (intro conjI allI impI)
  note i = in_step_reached [OF assms]
  show "requests s = []" "replies s = []" "calls hs hc (lines_done s) ([], w, v) = Some (screen s, server_world s, client_world s)"
    if "\<forall>l. mode s \<noteq> Waiting l"
    using i that by (cases "mode s"; simp add: in_step_def)+
  fix l assume m: "mode s = Waiting l"
  with i assms(3) have "\<not> is_transfer l" by (auto simp: in_step_def no_transfers_def entered_def)
  with waiting_goes_on [OF i m this] show "(\<exists>s'. sys_step hs hc 0 s s') \<or> server_gone s \<noteq> None
      \<or> runCommand_server hs l (server_world s) = None" by blast
qed

text \<open>\<^verbatim>\<open>quit\<close> does not end the client: it goes to the server, which does not know it.\<close>

theorem quit_is_a_request:
  "client_line hc ''quit'' v = Some (Requests (request_bytes ''quit'')) \<and>
   ask hs ''quit'' w = Some (''quit -> Invalid Input -> FAILURE'', w)"
  by (simp add: client_line_def is_local_def ask_def runCommand_server_def getLineInfo_def cmd_table_def
      line_fits_def MAX_LINE_def)

section \<open>One line there and back\<close>

lemma there_and_back:
  assumes "mode s = At_prompt" and "requests s = []" and "server_gone s = None"
    and k: "keyboard s = l @ newline # rest" and l: "plain l" "length l + 1 < MAX_LINE" "l \<noteq> []" "\<not> is_local l"
    and turn: "server_turn hs (request_bytes l) (server_world s) = Some (Inr (sent, shown, w))"
    and rec: "client_receive l buff sizes (0, 0) (replies s @ sent) = Some (ans, left)"
  shows "(sys_step hs hc miss)\<^sup>*\<^sup>* s (s\<lparr>keyboard := rest, replies := left, server_world := w,
    lines_done := lines_done s @ [l], screen := screen s @ [ans]\<rparr>)"
proof -
  let ?s1 = "s\<lparr>mode := Waiting l, keyboard := rest, requests := request_bytes l\<rparr>"
  let ?s2 = "?s1\<lparr>requests := [], replies := replies s @ sent, server_world := w\<rparr>"
  have len: "length (request_bytes l) = MAX_LINE" using l(2) request_length [of l] by simp
  have "client_line hc l (client_world s) = Some (Requests (request_bytes l))" using l(3,4) by (simp add: client_line_def)
  from sys_step.send [OF assms(1) _ this, of rest hs miss] typed_line_short [OF l(1,2)] k assms(2)
  have 1: "sys_step hs hc miss s ?s1" by simp
  have 2: "sys_step hs hc miss ?s1 ?s2"
    using sys_step.serve [of ?s1 MAX_LINE miss hs sent shown w hc] assms(3) len turn by (simp add: MAX_LINE_def)
  have "client_receive l buff sizes (0, 0) (replies ?s2) = Some (ans, left)" using rec by simp
  from sys_step.receive [OF _ _ _ this, of miss hs hc]
  have 3: "sys_step hs hc miss ?s2 (?s2\<lparr>mode := At_prompt, replies := left, lines_done := lines_done s @ [l], screen := screen s @ [ans]\<rparr>)"
    by simp
  have "?s2\<lparr>mode := At_prompt, replies := left, lines_done := lines_done s @ [l], screen := screen s @ [ans]\<rparr>
    = s\<lparr>keyboard := rest, replies := left, server_world := w, lines_done := lines_done s @ [l], screen := screen s @ [ans]\<rparr>"
    using assms(1,2) by (cases s) simp
  with 1 2 3 show ?thesis by (metis (no_types, lifting) converse_rtranclp_into_rtranclp r_into_rtranclp)
qed

lemma small_strings: "c_strings small_host"
  by (auto simp: c_strings_def small_host_def dest: set_takeWhileD)

theorem requests_are_calls_witness:
  "calls small_host small_host [''mkdir d''] ([], [], []) = Some ([''mkdir d -> SUCCESS''], [''d''], [])"
proof -
  let ?l = "''mkdir d''" and ?r = "''mkdir d -> SUCCESS''"
  let ?s0 = "connected (typing [?l]) ([] :: string list) ([] :: string list)"
  let ?s1 = "?s0\<lparr>keyboard := [], replies := [], server_world := [''d''], lines_done := [?l], screen := [?r]\<rparr>"
  have turn: "server_turn small_host (request_bytes ?l) [] = Some (Inr (int_bytes (length ?r + 1) @ ?r @ [CHR 0x00], [], [''d'']))"
    by (rule reply_bytes [of 3 _ "''d''" _ _ "Num 0"])
      (simp_all add: cmd_table_def MAX_LINE_def fcmds_def mkdir_cmd_def small_host_def reply_to_def)
  have no: "\<not> is_transfer ?l" "\<not> is_local ?l" by (simp_all add: is_transfer_def is_local_def)
  have "client_receive ?l [] [] (0, 0) (replies ?s0 @ int_bytes (length ?r + 1) @ ?r @ [CHR 0x00]) = Some (?r, [])"
    using no receive_reply_sent [of ?r] by (simp add: client_receive_def connected_def MAX_LINE_def)
  from there_and_back [OF _ _ _ _ _ _ _ no(2) _ this, of "[]" small_host "[]" "[''d'']" small_host 0] turn
  have "(sys_step small_host small_host 0)\<^sup>*\<^sup>* ?s0 ?s1"
    by (simp add: connected_def plain_def MAX_LINE_def)
  moreover have "no_transfers (entered ?s1)" using no by (simp add: no_transfers_def entered_def connected_def)
  ultimately show ?thesis using requests_are_calls [OF _ small_strings, of small_host "typing [?l]" "[]" "[]" ?s1]
    by (simp add: connected_def)
qed

section \<open>What breaks it\<close>

lemma tl_int_bytes [simp]: "tl (int_bytes n @ x) = tl (int_bytes n) @ x"
  by (cases "int_bytes n") (simp_all add: int_bytes_def)

text \<open>A client that is one answer behind: it has \<open>left\<close>, the bytes of the answer \<open>m\<close>, in front of it, when the line
  \<open>l\<close> is typed, whose answer is \<open>ans\<close>; then the line is sent; the server answers, the client reads, in any order.\<close>

inductive one_behind :: "'w \<Rightarrow> string list \<Rightarrow> string list \<Rightarrow> string \<Rightarrow> string \<Rightarrow> string \<Rightarrow> string \<Rightarrow> ('w, 'v) dialogue \<Rightarrow> bool"
  for w ls texts l m left ans where
  typed: "mode s = At_prompt \<Longrightarrow> lines_done s = ls \<Longrightarrow> requests s = [] \<Longrightarrow> replies s = left \<Longrightarrow> screen s = texts \<Longrightarrow>
    server_world s = w \<Longrightarrow> server_gone s = None \<Longrightarrow> keyboard s = l @ newline # rest \<Longrightarrow> one_behind w ls texts l m left ans s"
| sent: "mode s = Waiting l \<Longrightarrow> lines_done s = ls \<Longrightarrow> requests s = request_bytes l \<Longrightarrow> replies s = left \<Longrightarrow> screen s = texts \<Longrightarrow>
    server_world s = w \<Longrightarrow> server_gone s = None \<Longrightarrow> one_behind w ls texts l m left ans s"
| answered: "mode s = Waiting l \<Longrightarrow> lines_done s = ls \<Longrightarrow> requests s = [] \<Longrightarrow> replies s = left @ ans \<Longrightarrow> screen s = texts \<Longrightarrow>
    one_behind w ls texts l m left ans s"
| cut: "mode s = At_prompt \<Longrightarrow> lines_done s = ls @ [l] \<Longrightarrow> requests s = [] \<Longrightarrow> replies s = tl ans \<Longrightarrow> screen s = texts @ [m] \<Longrightarrow>
    one_behind w ls texts l m left ans s"
| unread: "mode s = At_prompt \<Longrightarrow> lines_done s = ls @ [l] \<Longrightarrow> requests s = request_bytes l \<Longrightarrow> replies s = [] \<Longrightarrow>
    screen s = texts @ [m] \<Longrightarrow> server_world s = w \<Longrightarrow> server_gone s = None \<Longrightarrow> one_behind w ls texts l m left ans s"
| whole: "mode s = At_prompt \<Longrightarrow> lines_done s = ls @ [l] \<Longrightarrow> requests s = [] \<Longrightarrow> replies s = ans \<Longrightarrow> screen s = texts @ [m] \<Longrightarrow>
    one_behind w ls texts l m left ans s"
| further: "length ls + 1 < length (lines_done s) + (if mode s = At_prompt then 0 else 1) \<Longrightarrow> one_behind w ls texts l m left ans s"

lemma one_behind_step:
  assumes "sys_step hs hc 0 s s'" and "one_behind w ls texts l m left ans s"
    and l: "plain l" "length l + 1 < MAX_LINE" "l \<noteq> []" "\<not> is_local l" "\<not> is_transfer l"
    and m: "CHR 0x00 \<notin> set m" "length m < MAX_LINE" and left: "left = int_bytes (length m + 1) @ m @ [CHR 0x00]"
    and turn: "server_turn hs (request_bytes l) w = Some (Inr (ans, shown, w'))"
  shows "one_behind w ls texts l m left ans s'"
proof -
  have len: "length (request_bytes l) = MAX_LINE" "0 < MAX_LINE" using l(2) request_length [of l] by (simp_all add: MAX_LINE_def)
  have line: "client_line hc l v = Some (Requests (request_bytes l))" for v using l(3,4) by (simp add: client_line_def)
  have keys: "typed_line MAX_LINE [] (l @ newline # rest) = Some (l, rest)" for rest by (rule typed_line_short [OF l(1,2)])
  have r1: "client_receive l buff sizes (0, 0) left = Some (m, [])" for buff sizes
    using l(5) receive_reply_sent [OF m] by (simp add: client_receive_def left)
  have r2: "client_receive l buff sizes (0, 0) (left @ ans) = Some (m, tl ans)" for buff sizes
    using l(5) receive_reply_rest [OF m, of ans] by (simp add: client_receive_def left)
  have on: "length ls + 1 < length (lines_done s') + (if mode s' = At_prompt then 0 else 1)"
    if "mode s = At_prompt \<and> lines_done s = ls @ [l] \<and> requests s = []
      \<or> length ls + 1 < length (lines_done s) + (if mode s = At_prompt then 0 else 1)"
    using assms(1) that by cases auto
  from assms(2) show ?thesis
  proof cases
    case (typed rest)
    from assms(1) have "mode s' = Waiting l \<and> lines_done s' = ls \<and> requests s' = request_bytes l \<and> replies s' = left
        \<and> screen s' = texts \<and> server_world s' = w \<and> server_gone s' = None"
      by cases (use typed line keys in simp_all)
    then show ?thesis by (simp add: one_behind.sent)
  next
    case sent
    note was = this
    from assms(1) show ?thesis
    proof cases
      case (serve n sent shown w1)
      with was len have "n = MAX_LINE" by simp
      with serve was len turn show ?thesis by (simp add: one_behind.answered)
    next
      case (server_exit n c)
      with was len have "n = MAX_LINE" by simp
      with server_exit was len turn show ?thesis by simp
    next
      case (receive line short buff sizes t rest)
      then have "short = (0, 0)" by (cases short) simp
      with receive was r1 show ?thesis by (simp add: one_behind.unread)
    qed (use was in simp_all)
  next
    case answered
    note was = this
    from assms(1) show ?thesis
    proof cases
      case (receive line short buff sizes t rest)
      then have "short = (0, 0)" by (cases short) simp
      with receive was r2 show ?thesis by (simp add: one_behind.cut)
    qed (use was in simp_all)
  next
    case unread
    note was = this
    from assms(1) show ?thesis
    proof cases
      case (serve n sent shown w1)
      with was len have "n = MAX_LINE" by simp
      with serve was len turn show ?thesis by (simp add: one_behind.whole)
    next
      case (server_exit n c)
      with was len have "n = MAX_LINE" by simp
      with server_exit was len turn show ?thesis by simp
    qed (use was in \<open>simp_all add: one_behind.further\<close>)
  qed (use on in \<open>simp_all add: one_behind.further\<close>)
qed

lemma one_behind_run:
  assumes "(sys_step hs hc 0)\<^sup>*\<^sup>* s s'" and "one_behind w ls texts l m left ans s"
    and "plain l" "length l + 1 < MAX_LINE" "l \<noteq> []" "\<not> is_local l" "\<not> is_transfer l"
    and "CHR 0x00 \<notin> set m" "length m < MAX_LINE" and "left = int_bytes (length m + 1) @ m @ [CHR 0x00]"
    and "server_turn hs (request_bytes l) w = Some (Inr (ans, shown, w'))"
  shows "one_behind w ls texts l m left ans s'"
  using assms(1,2)
proof (induction rule: rtranclp_induct)
  case (step s t)
  from one_behind_step [OF step(2) step(3) [OF step(4)] assms(3-11)] show ?case .
qed

text \<open>The client reads first: it takes the old answer, and the new one stays whole.\<close>

lemma reads_first:
  assumes "mode s = At_prompt" and "requests s = []" and "server_gone s = None"
    and k: "keyboard s = l @ newline # rest" and l: "plain l" "length l + 1 < MAX_LINE" "l \<noteq> []" "\<not> is_local l"
    and turn: "server_turn hs (request_bytes l) (server_world s) = Some (Inr (sent, shown, w))"
    and rec: "client_receive l buff sizes (0, 0) (replies s) = Some (ans, left)"
  shows "(sys_step hs hc miss)\<^sup>*\<^sup>* s (s\<lparr>keyboard := rest, replies := left @ sent, server_world := w,
    lines_done := lines_done s @ [l], screen := screen s @ [ans]\<rparr>)"
proof -
  let ?s1 = "s\<lparr>mode := Waiting l, keyboard := rest, requests := request_bytes l\<rparr>"
  let ?s2 = "?s1\<lparr>mode := At_prompt, replies := left, lines_done := lines_done s @ [l], screen := screen s @ [ans]\<rparr>"
  have len: "length (request_bytes l) = MAX_LINE" using l(2) request_length [of l] by simp
  have "client_line hc l (client_world s) = Some (Requests (request_bytes l))" using l(3,4) by (simp add: client_line_def)
  from sys_step.send [OF assms(1) _ this, of rest hs miss] typed_line_short [OF l(1,2)] k assms(2)
  have 1: "sys_step hs hc miss s ?s1" by simp
  have "client_receive l buff sizes (0, 0) (replies ?s1) = Some (ans, left)" using rec by simp
  from sys_step.receive [OF _ _ _ this, of miss hs hc] have 2: "sys_step hs hc miss ?s1 ?s2" by simp
  have 3: "sys_step hs hc miss ?s2 (?s2\<lparr>requests := [], replies := left @ sent, server_world := w\<rparr>)"
    using sys_step.serve [of ?s2 MAX_LINE miss hs sent shown w hc] assms(3) len turn by (simp add: MAX_LINE_def)
  have "?s2\<lparr>requests := [], replies := left @ sent, server_world := w\<rparr>
    = s\<lparr>keyboard := rest, replies := left @ sent, server_world := w, lines_done := lines_done s @ [l], screen := screen s @ [ans]\<rparr>"
    using assms(1,2) by (cases s) simp
  with 1 2 3 show ?thesis by (metis (no_types, lifting) converse_rtranclp_into_rtranclp r_into_rtranclp)
qed

text \<open>The state after a \<^verbatim>\<open>get\<close> that went well.\<close>

lemma get_leaves_answer:
  assumes f: "os_lstat hs p w = Some st" "S_ISREG (st_mode st)" "os_content hs p w = Some bytes" "CHR ''*'' \<notin> set bytes"
    and p: "plain p" "length p < 240"
  obtains m where "m \<in> {''get '' @ p, ''get '' @ p @ '' -> SUCCESS'', ''get '' @ p @ '' -> FAILURE''}"
    and "CHR 0x00 \<notin> set m" "length m < MAX_LINE"
    and "(sys_step hs hc 0)\<^sup>*\<^sup>* (connected ((''get '' @ p) @ newline # input) w v)
      ((connected input w v)\<lparr>replies := int_bytes (length m + 1) @ m @ [CHR 0x00], lines_done := [''get '' @ p],
        screen := [''Recieved '' @ dec (int (length bytes + 16)) @ '' bytes'' @ [newline]]\<rparr>)"
proof -
  let ?g = "''get '' @ p" and ?s0 = "connected ((''get '' @ p) @ newline # input) w v"
  have glen: "length ?g + 11 < MAX_LINE" "length ?g < MAX_LINE" "length ?g + 1 < MAX_LINE" using p(2) by (simp_all add: MAX_LINE_def)
  have g: "plain ?g" "CHR 0x00 \<notin> set ?g" "?g \<noteq> []" "\<not> is_local ?g" "strstr ?g ''get'' \<noteq> None"
    using p(1) by (simp_all add: plain_def is_local_def)
  from runCommand_get [OF f(1-3) refl glen(1)] obtain q m where
    m: "runCommand_server hs ?g w = Some (Inr (q, m, bytes @ end_mark, [], w))" "m \<in> {?g, ?g @ '' -> SUCCESS'', ?g @ '' -> FAILURE''}" .
  define left where "left = int_bytes (length m + 1) @ m @ [CHR 0x00]"
  have t1: "server_turn hs (request_bytes ?g) (server_world ?s0) = Some (Inr (bytes @ end_mark @ left, [], w))"
    using server_turn_request [OF glen(2) g(2), of hs w] m(1) by (simp add: left_def connected_def)
  have r1: "client_receive ?g [] (map length (send_chunks bytes) @ [16]) (0, 0) (replies ?s0 @ bytes @ end_mark @ left)
      = Some (''Recieved '' @ dec (int (length bytes + 16)) @ '' bytes'' @ [newline], left)"
    using g(5) receive_pieces [OF f(4)] by (simp only: client_receive_def is_transfer_def connected_def) simp
  have "CHR 0x00 \<notin> set m" "length m < MAX_LINE" using m(2) glen(1) g(2) by auto
  moreover have "(sys_step hs hc 0)\<^sup>*\<^sup>* ?s0 (?s0\<lparr>keyboard := input, replies := left, server_world := w, lines_done := lines_done ?s0 @ [?g],
    screen := screen ?s0 @ [''Recieved '' @ dec (int (length bytes + 16)) @ '' bytes'' @ [newline]]\<rparr>)"
    by (rule there_and_back [OF _ _ _ _ g(1) glen(3) g(3,4) t1 r1]) (simp_all add: connected_def)
  moreover have "m \<in> {''get '' @ p, ''get '' @ p @ '' -> SUCCESS'', ''get '' @ p @ '' -> FAILURE''}" using m(2) by simp
  ultimately show ?thesis using that [of m] by (simp add: left_def connected_def)
qed


lemma small_mkdir: "runCommand_server small_host ''mkdir d'' [] = Some (Inr (0, ''mkdir d -> SUCCESS'', [], [], [''d'']))"
  using getLineInfo_command [of 3 "''mkdir d''" "''d''"]
  by (simp add: runCommand_server_def cmd_table_def MAX_LINE_def fcmds_def mkdir_cmd_def small_host_def line_fits_def)


theorem answers_are_strings_witness:
  "\<exists>sent. server_turn small_host (request_bytes ''mkdir d'') [] = Some (Inr (sent, [], [''d'']))
    \<and> (\<exists>reply. sent = int_bytes (length reply + 1) @ reply @ [CHR 0x00] \<and> receive_reply (0, 0) sent = Some (reply, []))"
proof -
  have l: "length ''mkdir d'' < MAX_LINE" "CHR 0x00 \<notin> set ''mkdir d''" by (simp_all add: MAX_LINE_def)
  obtain sent where sent: "server_turn small_host (request_bytes ''mkdir d'') [] = Some (Inr (sent, [], [''d'']))"
    unfolding server_turn_request [OF l] small_mkdir by simp
  have "\<not> sends_file (takeWhile (\<lambda>c. c \<noteq> CHR 0x00) (request_bytes ''mkdir d'')) p" for p
    unfolding takeWhile_request [OF l(2)] using getLineInfo_command [of 3 "''mkdir d''" "''d''"]
    by (simp add: sends_file_def cmd_table_def MAX_LINE_def)
  with answers_are_strings [OF small_strings sent] obtain reply where
    "sent = int_bytes (length reply + 1) @ reply @ [CHR 0x00]" "receive_reply (0, 0) sent = Some (reply, [])"
    unfolding Let_def by fastforce
  with sent show ?thesis by blast
qed

text \<open>When a read of the server misses the end of a request that is still there, the server runs the line cut
  off: a part of the name is a name too.\<close>

theorem short_read_cuts_line:
  assumes l: "plain (a @ b)" "length (a @ b) + 1 < MAX_LINE" "a \<noteq> []" "\<not> is_local (a @ b)"
    and run: "runCommand_server hs a w = Some (Inr (r, reply, bulk, shown, w'))"
  shows "\<exists>s. (sys_step hs hc (MAX_LINE - length a))\<^sup>*\<^sup>* (connected (typing [a @ b] @ rest) w v) s
    \<and> mode s = Waiting (a @ b) \<and> server_world s = w' \<and> requests s = b @ drop (length (a @ b)) (request_bytes (a @ b))"
proof -
  let ?l = "a @ b" and ?k = "MAX_LINE - length a"
  let ?s0 = "connected (typing [a @ b] @ rest) w v"
  let ?s1 = "?s0\<lparr>mode := Waiting ?l, keyboard := rest, requests := request_bytes ?l\<rparr>"
  have "client_line hc ?l v = Some (Requests (request_bytes ?l))" using l(3,4) by (simp add: client_line_def)
  with typed_line_short [OF l(1,2), of "[]" rest] sys_step.send [of ?s0 ?l rest hc "request_bytes ?l" hs ?k]
  have 1: "sys_step hs hc ?k ?s0 ?s1" by (simp add: connected_def)
  have len: "length (request_bytes ?l) = MAX_LINE" using l(2) by (intro request_length) simp
  have tk: "take (length a) (request_bytes ?l) = a" "drop (length a) (request_bytes ?l) = b @ drop (length ?l) (request_bytes ?l)"
    by (simp_all add: request_bytes_def)
  have "CHR 0x00 \<notin> set a" "length a < MAX_LINE" using l(1,2) by (auto simp: plain_def)
  moreover from this have tw: "takeWhile (\<lambda>c. c \<noteq> CHR 0x00) a = a" by (auto simp: takeWhile_eq_all_conv)
  ultimately have turn: "server_turn hs a w = Some (Inr (bulk @ int_bytes (length reply + 1) @ reply @ [CHR 0x00], shown, w'))"
    using run by (simp add: server_turn_def tw)
  let ?s2 = "?s1\<lparr>requests := drop (length a) (request_bytes ?l), replies := bulk @ int_bytes (length reply + 1) @ reply @ [CHR 0x00],
    server_world := w'\<rparr>"
  have 2: "sys_step hs hc ?k ?s1 ?s2"
    using sys_step.serve [of ?s1 "length a" ?k hs] len tk turn l(2,3) by (simp add: connected_def)
  have "(sys_step hs hc ?k)\<^sup>*\<^sup>* ?s0 ?s2"
    by (rule converse_rtranclp_into_rtranclp [OF 1 r_into_rtranclp [of "sys_step hs hc ?k", OF 2]])
  then show ?thesis by (rule exI [where x = ?s2, OF conjI]) (simp add: tk)
qed

section \<open>Clients one after another\<close>

lemma serve_append:
  "\<forall>x \<in> set xs. x \<noteq> Some [] \<Longrightarrow> serve h (xs @ ys) w =
    (case serve h xs w of
       None \<Rightarrow> None | Some (Inl c) \<Rightarrow> Some (Inl c)
     | Some (Inr (sents, w')) \<Rightarrow> map_option (map_sum id (\<lambda>(more, w''). (sents @ more, w''))) (serve h ys w'))"
proof (induction xs arbitrary: w)
  case Nil
  show ?case by (simp add: option.map_ident sum.map_id0 [unfolded id_def] id_def)
next
  case (Cons x xs)
  have "map_option (map_sum id (\<lambda>(sents, w''). (sent # sents, w''))) (map_option (map_sum id (\<lambda>(more, w''). (sents @ more, w''))) r)
      = map_option (map_sum id (\<lambda>(more, w''). ((sent # sents) @ more, w''))) r" for sent sents r
    by (simp add: option.map_comp sum.map_comp comp_def case_prod_beta' id_def)
  with Cons show ?case by (auto split: option.split sum.split)
qed

text \<open>To the server it makes no difference whether requests come from one client or from many, one after
  another: what it sends and what becomes of its world are the same.\<close>

theorem clients_share_the_server:
  assumes "\<forall>c \<in> set cs. \<forall>bytes \<in> set (peer_reads c). bytes \<noteq> Some []"
  shows "map_option (map_sum id (\<lambda>(log, w'). (concat (map snd log), w'))) (server_loop h (map Some cs) w)
    = serve h (concat (map peer_reads cs)) w"
  using assms
proof (induction cs arbitrary: w)
  case (Cons c cs)
  have comp: "map_option (map_sum id (\<lambda>(log, w'). (concat (map snd log), w'))) (map_option (map_sum id (\<lambda>(log, w2). ((x, sents) # log, w2))) r)
      = map_option (map_sum id (\<lambda>(more, w''). (sents @ more, w''))) (map_option (map_sum id (\<lambda>(log, w'). (concat (map snd log), w'))) r)"
    for x sents r by (simp add: option.map_comp sum.map_comp comp_def case_prod_beta' id_def)
  from Cons.prems have "\<forall>x \<in> set (peer_reads c). x \<noteq> Some []" by simp
  note app = serve_append [OF this, of h "concat (map peer_reads cs)" w]
  show ?case
  proof (cases "serve h (peer_reads c) w")
    case (Some r)
    show ?thesis
    proof (cases r)
      case (Inr p)
      obtain sents w1 where p: "p = (sents, w1)" by fastforce
      have "\<forall>c \<in> set cs. \<forall>bytes \<in> set (peer_reads c). bytes \<noteq> Some []" using Cons.prems by simp
      from Cons.IH [OF this, of w1] show ?thesis
        unfolding list.map concat.simps app server_loop.simps Some Inr p option.case sum.case prod.case comp by (rule arg_cong)
    qed (use Some in \<open>simp add: app\<close>)
  qed (simp add: app)
qed simp

theorem clients_share_the_server_witness:
  "map_option (map_sum id (\<lambda>(log, w'). (concat (map snd log), w')))
     (server_loop small_host (map Some [\<lparr>peer_ip = 0, peer_port = 0, peer_reads = [Some (request_bytes ''mkdir d'')]\<rparr>,
       \<lparr>peer_ip = 0, peer_port = 1, peer_reads = [Some (request_bytes ''mkdir d'')]\<rparr>]) [])
   = serve small_host [Some (request_bytes ''mkdir d''), Some (request_bytes ''mkdir d'')] []"
  using clients_share_the_server [of "[\<lparr>peer_ip = 0, peer_port = 0, peer_reads = [Some (request_bytes ''mkdir d'')]\<rparr>,
    \<lparr>peer_ip = 0, peer_port = 1, peer_reads = [Some (request_bytes ''mkdir d'')]\<rparr>]" small_host "[]"]
  by (simp add: request_bytes_def)

section \<open>A small network\<close>

text \<open>Its state is the list of the ports that were connected to; there is one port, 58556.\<close>

definition small_net :: "port list net" where
  "small_net = \<lparr>net_host = \<lambda>name n. Some (name, 0x0100007F), net_socket = \<lambda>n. (3, n), net_bind = \<lambda>s p n. (0, n),
     net_name = \<lambda>s n. Some 0xBCE4, net_listen = \<lambda>s k n. n, net_connect = \<lambda>s a p n. (0, p # n)\<rparr>"

theorem client_finds_server_witness:
  "(\<exists>told. server_init small_net ''localhost'' [] = Inr (3, told, []))
   \<and> (\<exists>shown. client_init small_net ''localhost'' ''58556'' [] = Some (Inr (3, shown, [0xBCE4])))
   \<and> (\<exists>shown. client_init small_net ''localhost'' ''124092'' [] = Some (Inr (3, shown, [0xBCE4])))"
proof -
  obtain told where told: "server_init small_net ''localhost'' [] = Inr (3, told, [])"
    by (simp add: server_init_def small_net_def)
  have p: "unat (ntohs 0xBCE4) = 58556" by (simp add: ntohs_def)
  have "digit 0 = CHR ''0''" "digit 1 = CHR ''1''" "digit 2 = CHR ''2''" "digit 4 = CHR ''4''" "digit 5 = CHR ''5''"
    "digit 6 = CHR ''6''" "digit 8 = CHR ''8''" "digit 9 = CHR ''9''" by code_simp+
  then have d: "dec (int (65536 * 0 + 58556)) = ''58556''" "dec (int (65536 * 1 + 58556)) = ''124092''"
    by (simp_all add: dec_def numeral_text.simps)
  have n: "net_name small_net 3 (snd (net_bind small_net 3 0 (snd (net_socket small_net [])))) = Some 0xBCE4"
    by (simp add: small_net_def)
  have c: "net_host small_net ''localhost'' [] = Some (''localhost'', 0x0100007F)" "net_socket small_net [] = (3, [])"
    "net_connect small_net 3 a q [] = (0, [q])" for a q
    by (simp_all add: small_net_def)
  have b: "int (65536 * 0 + unat (ntohs 0xBCE4)) < 2 ^ 31" "int (65536 * 1 + unat (ntohs 0xBCE4)) < 2 ^ 31" unfolding p by simp_all
  from client_finds_server [OF told b(1) n, of "''localhost''" "[]", THEN conjunct2]
    client_finds_server [OF told b(2) n, of "''localhost''" "[]", THEN conjunct2] told
  show ?thesis unfolding p d c option.case prod.case Let_def by simp
qed

end
