(* ===== verification/Spec2Isabelle.thy ===== *)
theory Spec2Isabelle
  imports KernelProps KernelConsole KStack DirProps MyPrintfProps PartitionsProps MatrixSum WallClock ShellProps
    MountProps ShowBlockProps FileNetworkProps
begin

text \<open>
  A verification library for the programs of the repository, a course in systems programming in C. Each
  laboratory is a program of its own; they share no code, but several solve the same problems (paths,
  directories, words of a line, lists linked by pointers), and here these share theories.

  \<^bold>\<open>Conventions.\<close> A pointer is an \<open>option\<close> with \<open>None\<close> for NULL, or an index of the array it points into. A
  function that may not return has the type \<open>'a option\<close>: \<open>None\<close> stands for every way not to come back, an
  endless loop, a read through NULL, of freed or never filled memory, a read or write outside an array.
  A theorem that says \<open>Some\<close> therefore says that the code returns. A theorem that says that a run never ends
  does not rest on \<open>None\<close>: it is stated of a machine that makes one call or one read at a time, with \<open>runs_forever\<close> of
  \<^verbatim>\<open>Prelude\<close>, an infinite sequence of steps each of which is defined. \<open>Inl\<close> of a sum is a call of \<^verbatim>\<open>exit\<close> or
  another end of the program. Loops that may not end are \<open>partial_function (option)\<close>, and no fuel is
  used but where it counts something of the program: the number of commands, signals or reads. Machine
  integers are words of their width, or \<open>int\<close> and \<open>nat\<close> where the theorems show that nothing wraps. What a
  program asks of the operating system is a record of functions over an unspecified world. What the code reads of
  memory that is not its own any more, or that it never wrote, is a parameter: what \<^verbatim>\<open>malloc\<close> hands out (\<open>junk_child\<close>
  in \<^verbatim>\<open>DirTree\<close>, \<open>malloc\<close> in \<^verbatim>\<open>Shell\<close>), and what is left in the dead buffer of a function that has returned a
  pointer into it (\<open>stale\<close> in \<^verbatim>\<open>MountRoot\<close>, \<open>dead_buffers\<close> in \<^verbatim>\<open>ShowBlock\<close>, \<open>dead_cwd\<close> in \<^verbatim>\<open>FileCommands\<close>).

  \<^bold>\<open>Shared theories.\<close> \<^verbatim>\<open>Prelude\<close>: lists threaded through a pointer field, insertion by priority, and runs that never end.
  \<^verbatim>\<open>Text\<close>: the numerals of \<^verbatim>\<open>printf\<close> and \<^verbatim>\<open>scanf\<close>, \<^verbatim>\<open>strtok\<close>, \<^verbatim>\<open>strstr\<close>, and what is typed: \<^verbatim>\<open>fgets\<close>, a line with its end taken
  off, and a program that runs one line after the other; lines that fit come as they were typed, a longer one is
  cut in two and loses a character. \<^verbatim>\<open>Words\<close>: bytes, words, and words in a buffer of bytes.
  \<^verbatim>\<open>Modes\<close>: \<^verbatim>\<open>mode_to_letters\<close>, and that its ten letters determine the mode. \<^verbatim>\<open>Ext2\<close>: blocks, inodes and
  directory entries of an ext2 disk, and the loops over them. \<^verbatim>\<open>SmallDisk\<close>: a disk to try them on.

  \<^bold>\<open>Multitasking kernel\<close> (\<^verbatim>\<open>PreLab3/Code\<close>). \<^verbatim>\<open>PrioQueue\<close> states the interface of the queues as a locale, which
  \<^verbatim>\<open>ProcQueue\<close> (\<^verbatim>\<open>type.h\<close>, \<^verbatim>\<open>queue.c\<close>) interprets on \<^verbatim>\<open>enqueue\<close> and \<^verbatim>\<open>dequeue\<close>. \<^verbatim>\<open>Kernel\<close> has the handlers of \<^verbatim>\<open>t.c\<close> and
  \<^verbatim>\<open>wait.c\<close> over the table of processes, \<^verbatim>\<open>KernelShow\<close> the printers, \<^verbatim>\<open>KernelTrace\<close> the prompt and the traces of
  the handlers and that they tell the state, \<^verbatim>\<open>KernelConsole\<close> the kernel with its keyboard and screen, whose turns are
  steps of the kernel, and what a \<^verbatim>\<open>wait\<close> that had to sleep says when it resumes, \<^verbatim>\<open>KStack\<close> the register save and restore
  of \<^verbatim>\<open>ts.s\<close> on words. \<^verbatim>\<open>KernelInv\<close>, \<^verbatim>\<open>KernelOps\<close>, \<^verbatim>\<open>KernelFamily\<close> and \<^verbatim>\<open>KernelSteps\<close> show that every handler
  returns and keeps the invariant (each process in one place, as its status says), and \<^verbatim>\<open>KernelProps\<close> what each
  does: stable priorities, round robin, exact wakeups, and the bugs of the child lists.

  \<^bold>\<open>Simulated file system\<close> (\<^verbatim>\<open>Lab2/Lab2.c\<close>). \<^verbatim>\<open>DirTree\<close> has the program over a memory of nodes. \<^verbatim>\<open>DirForest\<close> is the
  tree such a memory holds; \<^verbatim>\<open>DirOps\<close>, \<^verbatim>\<open>DirEntries\<close>, \<^verbatim>\<open>DirRun\<close> and \<^verbatim>\<open>DirSave\<close> relate the operations on the memory
  to operations on the tree, and \<^verbatim>\<open>DirProps\<close> has the properties: every line keeps the tree, paths mean what
  they should, \<^verbatim>\<open>save\<close> and \<^verbatim>\<open>reload\<close> are a round trip when \<^verbatim>\<open>malloc\<close> allows it, and a prompt in a removed directory
  is fatal to the next line that reads it.

  \<^bold>\<open>Formatted printing and partitions\<close> (\<^verbatim>\<open>Lab1\<close>). \<^verbatim>\<open>MyPrintf\<close> is \<^verbatim>\<open>myprintf.c\<close>; \<^verbatim>\<open>MyPrintfProps\<close> reads the
  numbers back and gives the format as a rendering. \<^verbatim>\<open>Partitions\<close> is \<^verbatim>\<open>Partitions.c\<close> on the bytes of a disk;
  \<^verbatim>\<open>PartitionsProps\<close> shows the listing complete on a well laid out disk, and endless on another.

  \<^bold>\<open>Threads and a clock\<close> (\<^verbatim>\<open>PreLab4/Code\<close>). \<^verbatim>\<open>ForkJoin\<close> is a locale for threads that a main thread creates and
  joins, over all interleavings; \<^verbatim>\<open>MatrixSum\<close> interprets it on \<^verbatim>\<open>Part1.c\<close> and \<^verbatim>\<open>Part2.c\<close> and shows every row and
  column sum exact, the total of \<^verbatim>\<open>Part1.c\<close> wrapped (its numbers have 32 bits), and the mutex exclusive. \<^verbatim>\<open>WallClock\<close> is the handler of \<^verbatim>\<open>Part3.c\<close> against the time of the timer it sets.

  \<^bold>\<open>Shell\<close> (\<^verbatim>\<open>Lab3/Lab3.c\<close>). \<^verbatim>\<open>Shell\<close> has the line, the environment, pipes and redirections as words of the
  line; \<^verbatim>\<open>ShellExec\<close> what becomes of the tables of open files; \<^verbatim>\<open>ShellProps\<close> the processes that a line leaves, for the line
  that \<^verbatim>\<open>getInput\<close> makes of what is typed in whatever block \<^verbatim>\<open>malloc\<close> gives it.

  \<^bold>\<open>File server\<close> (\<^verbatim>\<open>Lab4/Code\<close>). \<^verbatim>\<open>FileCommands\<close> has the commands that server and client share
  (\<^verbatim>\<open>linux_cmd.c\<close>, \<^verbatim>\<open>ls_l.c\<close>), \<^verbatim>\<open>FileServer\<close> one request as \<^verbatim>\<open>server.c\<close> answers it and what \<^verbatim>\<open>client.c\<close> does with the
  bytes, a connection being the bytes on their way and a read taking what has arrived. \<^verbatim>\<open>FileServerProps\<close>:
  answers come back, the end of a file may be missed, a listing overflows the line. \<^verbatim>\<open>FileNetwork\<close> has the two
  programs from their start (\<^verbatim>\<open>server_init\<close>, \<^verbatim>\<open>client_init\<close>, the loops of \<^verbatim>\<open>main\<close>) over a record of the calls of the
  network, and a client with its server as a step relation on what is typed, what is on its way and the worlds of
  both. \<^verbatim>\<open>FileNetworkProps\<close>: the client finds the port of the server; whatever the order of the steps, requests and
  replies that are read whole are calls of the commands (by an invariant of lock step); a transfer, a read too early
  and a byte too many break that. The writes of one turn of the server arrive in one piece.

  \<^bold>\<open>Mounting an ext2 disk\<close> (\<^verbatim>\<open>Lab5/Code\<close>). \<^verbatim>\<open>MountRoot\<close> has the inode table (\<^verbatim>\<open>util.c\<close>), the commands (\<^verbatim>\<open>Commands.c\<close>,
  \<^verbatim>\<open>ls_l.c\<close>) and the main program (\<^verbatim>\<open>Main.c\<close>) on what is typed. \<^verbatim>\<open>MountInv\<close> states the invariant of the table and what \<^verbatim>\<open>iget\<close>,
  \<^verbatim>\<open>iput\<close> and the path loop do to it, \<^verbatim>\<open>MountOps\<close> that the operations return while slots are free, \<^verbatim>\<open>MountProps\<close>
  the invariant over sessions and what \<^verbatim>\<open>cd\<close>, \<^verbatim>\<open>pwd\<close> and \<^verbatim>\<open>search\<close> do.

  \<^bold>\<open>Showing blocks\<close> (\<^verbatim>\<open>Lab6/Code\<close>). \<^verbatim>\<open>ShowBlock\<close> is the program; \<^verbatim>\<open>ShowBlockProps\<close> relates its walk along a path to
  the one of \<^verbatim>\<open>Lab5\<close>, through a locale of two readers of one disk, and shows that its search for a missing name never ends.

  \<^bold>\<open>Bounds.\<close> The arrays have the sizes of the code (256 for lines, 64 names of a path and 64 slots in \<^verbatim>\<open>Lab5\<close>,
  ten tokens in \<^verbatim>\<open>Lab6\<close>, 5000 for a listing); a theorem that needs room names it. Disks of \<^verbatim>\<open>Lab6\<close> have at most
  two gigabytes, where its offsets still fit an \<^verbatim>\<open>int\<close>. The programs of \<^verbatim>\<open>PreLab3\<close>,
  \<^verbatim>\<open>Lab3\<close>, \<^verbatim>\<open>PreLab4\<close>, \<^verbatim>\<open>Lab4\<close>, \<^verbatim>\<open>Lab5\<close> and \<^verbatim>\<open>Lab6\<close> are read as their scripts build them, with \<^verbatim>\<open>-m32\<close>: pointers and \<^verbatim>\<open>long\<close>
  have 32 bits.

  \<^bold>\<open>Not modelled.\<close> \<^verbatim>\<open>Pause\<close>, which waits for a key; the lines that only trace what is going on in \<^verbatim>\<open>Lab3\<close> to \<^verbatim>\<open>Lab6\<close>; the processes of the shell once they run, and its waiting for them; the binaries and disk images. The programs in
  the assignments (\<^verbatim>\<open>ReadMe.md\<close>) are not code of the repository. What the operating system does (files, sockets,
  threads, signals) is a parameter of the definitions that ask for it.
\<close>

end
